(* ===== verification/Prelude.thy ===== *)
theory Prelude
  imports Complex_Main "HOL-Library.Word" "HOL-Library.Char_ord" "HOL-Library.List_Lexorder"
    "HOL-Library.AList"
begin

text \<open>
  Shared vocabulary of the model of the Karo X2 SDK: the machine-integer types of the code, the
  outcome type of a handler that may blow the stack or invalidate an iterator, decimal printing
  (\<open>std::to_string\<close>), and the two associative containers of the code. \<open>std::map\<close> is an
  association list sorted by its key (iteration follows the key order), \<open>std::unordered_map\<close> is
  an association list in an unspecified order; both implement the contract \<open>keyed_store\<close>.
\<close>

named_theorems step_simps \<open>equations that unfold the calls of the user's threads\<close>

section \<open>Machine integers and doubles\<close>

type_synonym u8 = "8 word"
type_synonym u32 = "32 word"
type_synonym u64 = "64 word"
type_synonym bytes = "u8 list"

text \<open>
  A C++ \<open>double\<close> is modelled by the real number it denotes: the arithmetic of the model is exact,
  rounding is not modelled. Times are \<open>int\<close> milliseconds read from the steady or the system clock.
\<close>

type_synonym double = real
type_synonym ms = int

section \<open>Outcomes of handlers\<close>

text \<open>
  Three ways a handler of the code can fail to return: nested calls that never bottom out, a loop
  over a container whose current element was erased by the loop's own body, and a second
  \<open>set_value\<close> on a promise, whose exception ends the control thread. They are values of the model,
  so that \<open>returns\<close> is something to prove.
\<close>

datatype crash = StackOverflow | IteratorInvalidated | PromiseSatisfied

type_synonym 'a outcome = "crash + 'a"

definition obind :: "'a outcome \<Rightarrow> ('a \<Rightarrow> 'b outcome) \<Rightarrow> 'b outcome" where
  "obind m f = (case m of Inl c \<Rightarrow> Inl c | Inr x \<Rightarrow> f x)"

lemma obind_simps [simp]:
  "obind (Inl c) f = Inl c"
  "obind (Inr x) f = f x"
  by (simp_all add: obind_def)

lemma obind_Inr_right [simp]: "obind m Inr = m"
  by (cases m) simp_all

lemma obind_assoc: "obind (obind m f) g = obind m (\<lambda>x. obind (f x) g)"
  by (cases m) simp_all

lemma obind_eq_Inr: "obind m f = Inr y \<longleftrightarrow> (\<exists>x. m = Inr x \<and> f x = Inr y)"
  by (cases m) simp_all

text \<open>A run that keeps a property, if it returns.\<close>

definition safe :: "('a \<Rightarrow> bool) \<Rightarrow> 'a outcome \<Rightarrow> bool" where
  "safe P m \<longleftrightarrow> (\<forall>r. m = Inr r \<longrightarrow> P r)"

lemma safe_simps [simp]: "safe P (Inr r) = P r" "safe P (Inl x)"
  by (simp_all add: safe_def)

lemma safe_obind: "safe P m \<Longrightarrow> (\<And>r. P r \<Longrightarrow> safe Q (f r)) \<Longrightarrow> safe Q (obind m f)"
  by (auto simp: safe_def obind_eq_Inr)

lemma safe_mono: "safe P m \<Longrightarrow> (\<And>r. P r \<Longrightarrow> Q r) \<Longrightarrow> safe Q m"
  by (simp add: safe_def)

section \<open>Decimal printing\<close>

definition digit :: "nat \<Rightarrow> char" where
  "digit d = char_of (48 + d)"

fun dec_nat :: "nat \<Rightarrow> string" where
  "dec_nat n = (if n < 10 then [digit n] else dec_nat (n div 10) @ [digit (n mod 10)])"

declare dec_nat.simps [simp del]

definition dec_u64 :: "u64 \<Rightarrow> string" where
  "dec_u64 w = dec_nat (unat w)"

definition dec_int :: "int \<Rightarrow> string" where
  "dec_int i = (if i < 0 then CHR ''-'' # dec_nat (nat (- i)) else dec_nat (nat i))"

definition undigit :: "char \<Rightarrow> nat" where
  "undigit c = of_char c - 48"

definition read_nat :: "string \<Rightarrow> nat" where
  "read_nat s = foldl (\<lambda>a c. 10 * a + undigit c) 0 s"

lemma of_char_digit: "d < 10 \<Longrightarrow> (of_char (digit d) :: nat) = 48 + d"
  by (simp add: digit_def)

lemma undigit_digit [simp]: "d < 10 \<Longrightarrow> undigit (digit d) = d"
  by (simp add: undigit_def of_char_digit)

lemma read_dec_nat [simp]: "read_nat (dec_nat n) = n"
proof (induction n rule: dec_nat.induct)
  case (1 n)
  show ?case
  proof (cases "n < 10")
    case True
    then show ?thesis by (subst dec_nat.simps) (simp add: read_nat_def)
  next
    case False
    then have "read_nat (dec_nat n) = 10 * read_nat (dec_nat (n div 10)) + n mod 10"
      by (subst dec_nat.simps) (simp add: read_nat_def)
    also have "\<dots> = n" using "1.IH" False by simp
    finally show ?thesis .
  qed
qed

lemma dec_nat_digits: "c \<in> set (dec_nat n) \<Longrightarrow> 48 \<le> (of_char c :: nat) \<and> (of_char c :: nat) < 58"
proof (induction n rule: dec_nat.induct)
  case (1 n)
  show ?case
  proof (cases "n < 10")
    case True
    with "1.prems" show ?thesis by (simp add: dec_nat.simps [of n] of_char_digit)
  next
    case False
    with "1.prems" have "c \<in> set (dec_nat (n div 10)) \<or> c = digit (n mod 10)"
      by (auto simp add: dec_nat.simps [of n])
    then show ?thesis
    proof
      assume "c \<in> set (dec_nat (n div 10))"
      with "1.IH" False show ?thesis by simp
    next
      assume "c = digit (n mod 10)"
      then show ?thesis by (simp add: of_char_digit)
    qed
  qed
qed

lemma dec_nat_inj: "dec_nat m = dec_nat n \<Longrightarrow> m = n"
  by (metis read_dec_nat)

section \<open>Keyed containers\<close>

text \<open>The contract both maps of the code offer to the components that use them.\<close>

locale keyed_store =
  fixes emp :: "'m"
    and put :: "'k \<Rightarrow> 'v \<Rightarrow> 'm \<Rightarrow> 'm"
    and erase :: "'k \<Rightarrow> 'm \<Rightarrow> 'm"
    and lookup :: "'m \<Rightarrow> 'k \<Rightarrow> 'v option"
    and keys :: "'m \<Rightarrow> 'k list"
    and ok :: "'m \<Rightarrow> bool"
  assumes lookup_emp: "lookup emp k = None"
    and lookup_put: "ok m \<Longrightarrow> lookup (put k v m) k' = (if k' = k then Some v else lookup m k')"
    and lookup_erase: "ok m \<Longrightarrow> lookup (erase k m) k' = (if k' = k then None else lookup m k')"
    and set_keys: "ok m \<Longrightarrow> k \<in> set (keys m) \<longleftrightarrow> lookup m k \<noteq> None"
    and distinct_keys: "ok m \<Longrightarrow> distinct (keys m)"
    and ok_emp: "ok emp"
    and ok_put: "ok m \<Longrightarrow> ok (put k v m)"
    and ok_erase: "ok m \<Longrightarrow> ok (erase k m)"
begin

lemma keys_put: "ok m \<Longrightarrow> set (keys (put k v m)) = insert k (set (keys m))"
  by (rule set_eqI) (simp add: set_keys ok_put lookup_put)

lemma keys_erase: "ok m \<Longrightarrow> set (keys (erase k m)) = set (keys m) - {k}"
  by (rule set_eqI) (simp add: set_keys ok_erase lookup_erase)

lemma erase_put_lookup: "ok m \<Longrightarrow> lookup m k = None \<Longrightarrow> lookup (erase k (put k v m)) = lookup m"
  by (rule ext) (simp add: lookup_erase lookup_put ok_put)

lemma size_put: "ok m \<Longrightarrow> lookup m k = None \<Longrightarrow> length (keys (put k v m)) = Suc (length (keys m))"
  by (metis List.finite_set card_insert_disjoint distinct_card distinct_keys keys_put ok_put set_keys)

lemma size_erase: "ok m \<Longrightarrow> lookup m k \<noteq> None \<Longrightarrow> length (keys m) = Suc (length (keys (erase k m)))"
  by (metis List.finite_set card_Suc_Diff1 distinct_card distinct_keys keys_erase ok_erase set_keys)

end

subsection \<open>\<open>std::map\<close>: sorted by key\<close>

primrec std_map_put :: "'k::linorder \<Rightarrow> 'v \<Rightarrow> ('k \<times> 'v) list \<Rightarrow> ('k \<times> 'v) list" where
  "std_map_put k v [] = [(k, v)]"
| "std_map_put k v (p # ps) =
     (if k < fst p then (k, v) # p # ps
      else if k = fst p then (k, v) # ps
      else p # std_map_put k v ps)"

definition std_map_erase :: "'k \<Rightarrow> ('k \<times> 'v) list \<Rightarrow> ('k \<times> 'v) list" where
  "std_map_erase k m = filter (\<lambda>p. fst p \<noteq> k) m"

definition std_map_ok :: "('k::linorder \<times> 'v) list \<Rightarrow> bool" where
  "std_map_ok m \<longleftrightarrow> sorted_wrt (<) (map fst m)"

lemma fst_std_map_put: "set (map fst (std_map_put k v m)) = insert k (set (map fst m))"
  by (induction m) auto

lemma std_map_ok_distinct: "std_map_ok m \<Longrightarrow> distinct (map fst m)"
  by (simp add: std_map_ok_def strict_sorted_iff)

lemma std_map_ok_put: "std_map_ok m \<Longrightarrow> std_map_ok (std_map_put k v m)"
proof (induction m)
  case Nil
  then show ?case by (simp add: std_map_ok_def)
next
  case (Cons p ps)
  then have IH: "std_map_ok (std_map_put k v ps)" by (simp add: std_map_ok_def)
  from Cons.prems have p: "\<And>x. x \<in> set (map fst ps) \<Longrightarrow> fst p < x"
    by (auto simp add: std_map_ok_def)
  have "fst p < x" if "fst p < k" "x \<in> set (map fst (std_map_put k v ps))" for x
    using that p by (auto simp only: fst_std_map_put)
  with Cons.prems IH show ?case
    by (auto simp add: std_map_ok_def dest: order.strict_trans)
qed

lemma std_map_ok_erase: "std_map_ok m \<Longrightarrow> std_map_ok (std_map_erase k m)"
  by (induction m) (auto simp: std_map_ok_def std_map_erase_def)

lemma map_of_std_map_put:
  "std_map_ok m \<Longrightarrow> map_of (std_map_put k v m) k' = (if k' = k then Some v else map_of m k')"
proof (induction m)
  case (Cons p ps)
  then show ?case
    by (auto simp: std_map_ok_def map_of_eq_None_iff [symmetric])
qed simp

lemma map_of_std_map_erase: "map_of (std_map_erase k m) k' = (if k' = k then None else map_of m k')"
  by (induction m) (auto simp: std_map_erase_def)

interpretation std_map: keyed_store "[]" std_map_put std_map_erase map_of "map fst" std_map_ok
  by unfold_locales
    (auto simp: map_of_std_map_put map_of_std_map_erase map_of_eq_None_iff std_map_ok_distinct
      std_map_ok_put std_map_ok_erase std_map_ok_def [of "[]"])

subsection \<open>\<open>std::unordered_map\<close>: any order\<close>

definition hash_map_ok :: "('k \<times> 'v) list \<Rightarrow> bool" where
  "hash_map_ok m \<longleftrightarrow> distinct (map fst m)"

interpretation hash_map: keyed_store "[]" AList.update AList.delete map_of "map fst" hash_map_ok
  by unfold_locales
    (auto simp: hash_map_ok_def update_conv' delete_conv' map_of_eq_None_iff distinct_update
      distinct_delete)

lemma hash_map_ok_Nil [simp]: "hash_map_ok []"
  by (simp add: hash_map_ok_def)

lemma std_map_ok_Nil [simp]: "std_map_ok []"
  by (simp add: std_map_ok_def)

section \<open>Transition systems\<close>

text \<open>
  The states a component can reach, for a predicate on the initial states and a step relation; and
  the shape of every invariant proof of the development.
\<close>

inductive reach :: "('s \<Rightarrow> bool) \<Rightarrow> ('s \<Rightarrow> 's \<Rightarrow> bool) \<Rightarrow> 's \<Rightarrow> bool"
  for start :: "'s \<Rightarrow> bool" and step :: "'s \<Rightarrow> 's \<Rightarrow> bool" where
  reach_start: "start s \<Longrightarrow> reach start step s"
| reach_step: "reach start step s \<Longrightarrow> step s t \<Longrightarrow> reach start step t"

locale inductive_invariant =
  fixes start :: "'s \<Rightarrow> bool"
    and step :: "'s \<Rightarrow> 's \<Rightarrow> bool"
    and inv :: "'s \<Rightarrow> bool"
  assumes inv_start: "start s \<Longrightarrow> inv s"
    and inv_step: "inv s \<Longrightarrow> step s t \<Longrightarrow> inv t"
begin

lemma reach_inv: "reach start step s \<Longrightarrow> inv s"
  by (induction rule: reach.induct) (auto intro: inv_start inv_step)

end

text \<open>
  A channel with a history: every element that was accepted is finished, dropped or still pending,
  and in the order of acceptance.
\<close>

locale fifo_channel = inductive_invariant start step inv
  for start :: "'s \<Rightarrow> bool" and step :: "'s \<Rightarrow> 's \<Rightarrow> bool" and inv :: "'s \<Rightarrow> bool" +
  fixes accepted :: "'s \<Rightarrow> 'a list"
    and finished :: "'s \<Rightarrow> 'a list"
    and dropped :: "'s \<Rightarrow> 'a list"
    and pending :: "'s \<Rightarrow> 'a list"
  assumes fifo_start: "start s \<Longrightarrow> accepted s = finished s @ dropped s @ pending s"
    and fifo_step: "inv s \<Longrightarrow> accepted s = finished s @ dropped s @ pending s \<Longrightarrow> step s t \<Longrightarrow>
      accepted t = finished t @ dropped t @ pending t"
begin

sublocale history: inductive_invariant start step
  "\<lambda>s. inv s \<and> accepted s = finished s @ dropped s @ pending s"
  by unfold_locales (auto intro: fifo_start fifo_step inv_start inv_step)

lemma history: "reach start step s \<Longrightarrow> accepted s = finished s @ dropped s @ pending s"
  using history.reach_inv by blast

lemma nothing_lost:
  "reach start step s \<Longrightarrow> pending s = [] \<Longrightarrow> dropped s = [] \<Longrightarrow> finished s = accepted s"
  using history by fastforce

end

end
