(* ===== verification/Errors.thy ===== *)
theory Errors
  imports Prelude
begin

text \<open>
  \<open>include/karo/sdk/error.hpp\<close> and \<open>src/error.cpp\<close>: the error codes with their numeric values
  (the code keeps them as \<open>int\<close> in atomics and casts back), their names, the category that decides
  whether the SDK reconnects, gives up or hands the error to the caller, and \<open>SdkException\<close>.
  The constructors carry the prefix \<open>Ec\<close> (\<open>ErrorCode\<close>) or \<open>Cat\<close> (\<open>ErrorCategory\<close>), because the
  enums of the code reuse names.
\<close>

section \<open>Error codes\<close>

datatype error_code =
    EcOk
  | EcAuthFailed | EcAuthCnNotAllowed | EcAuthSerialRevoked | EcAuthTokenInvalid
  | EcAuthTokenExpired | EcSessionTokenInvalid | EcSessionTokenExpired | EcHandshakeRequired
  | EcCapabilityDenied | EcRateLimited | EcUnsupportedVersion
  | EcTopicNotFound | EcTopicAlreadySubscribed | EcTopicNotSubscribed
  | EcControlEStopActive | EcControlPublisherUnavailable | EcControlInvalidTwist
  | EcTaskRunning | EcTaskNotFound | EcTaskInvalidState
  | EcNavMarkerNotFound | EcNavNoActiveMap | EcNavGoalUnreachable | EcNavLowBattery
  | EcTransportFailure | EcTimeout | EcCancelled | EcDisconnected | EcWouldDeadlock
  | EcInternalError

fun error_int :: "error_code \<Rightarrow> int" where
  "error_int EcOk = 0"
| "error_int EcAuthFailed = 1"
| "error_int EcAuthCnNotAllowed = 2"
| "error_int EcAuthSerialRevoked = 3"
| "error_int EcAuthTokenInvalid = 4"
| "error_int EcAuthTokenExpired = 5"
| "error_int EcSessionTokenInvalid = 10"
| "error_int EcSessionTokenExpired = 11"
| "error_int EcHandshakeRequired = 12"
| "error_int EcCapabilityDenied = 20"
| "error_int EcRateLimited = 21"
| "error_int EcUnsupportedVersion = 22"
| "error_int EcTopicNotFound = 30"
| "error_int EcTopicAlreadySubscribed = 31"
| "error_int EcTopicNotSubscribed = 32"
| "error_int EcControlEStopActive = 9300"
| "error_int EcControlPublisherUnavailable = 9301"
| "error_int EcControlInvalidTwist = 9302"
| "error_int EcTaskRunning = 9400"
| "error_int EcTaskNotFound = 9401"
| "error_int EcTaskInvalidState = 9402"
| "error_int EcNavMarkerNotFound = 9403"
| "error_int EcNavNoActiveMap = 9404"
| "error_int EcNavGoalUnreachable = 9405"
| "error_int EcNavLowBattery = 9406"
| "error_int EcTransportFailure = 10000"
| "error_int EcTimeout = 10001"
| "error_int EcCancelled = 10002"
| "error_int EcDisconnected = 10003"
| "error_int EcWouldDeadlock = 10004"
| "error_int EcInternalError = 10999"

fun error_name :: "error_code \<Rightarrow> string" where
  "error_name EcOk = ''Ok''"
| "error_name EcAuthFailed = ''AuthFailed''"
| "error_name EcAuthCnNotAllowed = ''AuthCnNotAllowed''"
| "error_name EcAuthSerialRevoked = ''AuthSerialRevoked''"
| "error_name EcAuthTokenInvalid = ''AuthTokenInvalid''"
| "error_name EcAuthTokenExpired = ''AuthTokenExpired''"
| "error_name EcSessionTokenInvalid = ''SessionTokenInvalid''"
| "error_name EcSessionTokenExpired = ''SessionTokenExpired''"
| "error_name EcHandshakeRequired = ''HandshakeRequired''"
| "error_name EcCapabilityDenied = ''CapabilityDenied''"
| "error_name EcRateLimited = ''RateLimited''"
| "error_name EcUnsupportedVersion = ''UnsupportedVersion''"
| "error_name EcTopicNotFound = ''TopicNotFound''"
| "error_name EcTopicAlreadySubscribed = ''TopicAlreadySubscribed''"
| "error_name EcTopicNotSubscribed = ''TopicNotSubscribed''"
| "error_name EcControlEStopActive = ''ControlEStopActive''"
| "error_name EcControlPublisherUnavailable = ''ControlPublisherUnavailable''"
| "error_name EcControlInvalidTwist = ''ControlInvalidTwist''"
| "error_name EcTaskRunning = ''TaskRunning''"
| "error_name EcTaskNotFound = ''TaskNotFound''"
| "error_name EcTaskInvalidState = ''TaskInvalidState''"
| "error_name EcNavMarkerNotFound = ''NavMarkerNotFound''"
| "error_name EcNavNoActiveMap = ''NavNoActiveMap''"
| "error_name EcNavGoalUnreachable = ''NavGoalUnreachable''"
| "error_name EcNavLowBattery = ''NavLowBattery''"
| "error_name EcTransportFailure = ''TransportFailure''"
| "error_name EcTimeout = ''Timeout''"
| "error_name EcCancelled = ''Cancelled''"
| "error_name EcDisconnected = ''Disconnected''"
| "error_name EcWouldDeadlock = ''WouldDeadlock''"
| "error_name EcInternalError = ''InternalError''"

text \<open>
  \<open>static_cast<ErrorCode>(int)\<close> on a value that was stored from an \<open>ErrorCode\<close>: the inverse of
  \<open>error_int\<close> on its range. Other integers never occur (every store casts an enumerator).
\<close>

definition all_error_codes :: "error_code list" where
  "all_error_codes =
    [EcOk, EcAuthFailed, EcAuthCnNotAllowed, EcAuthSerialRevoked, EcAuthTokenInvalid,
     EcAuthTokenExpired, EcSessionTokenInvalid, EcSessionTokenExpired, EcHandshakeRequired,
     EcCapabilityDenied, EcRateLimited, EcUnsupportedVersion, EcTopicNotFound,
     EcTopicAlreadySubscribed, EcTopicNotSubscribed, EcControlEStopActive,
     EcControlPublisherUnavailable, EcControlInvalidTwist, EcTaskRunning, EcTaskNotFound,
     EcTaskInvalidState, EcNavMarkerNotFound, EcNavNoActiveMap, EcNavGoalUnreachable,
     EcNavLowBattery, EcTransportFailure, EcTimeout, EcCancelled, EcDisconnected,
     EcWouldDeadlock, EcInternalError]"

definition error_of_int :: "int \<Rightarrow> error_code option" where
  "error_of_int i = find (\<lambda>c. error_int c = i) all_error_codes"

section \<open>Categories\<close>

datatype error_category = CatOk | CatTransient | CatApplication | CatFatal | CatLocal

fun classify :: "error_code \<Rightarrow> error_category" where
  "classify EcOk = CatOk"
| "classify EcAuthFailed = CatFatal"
| "classify EcAuthCnNotAllowed = CatFatal"
| "classify EcAuthSerialRevoked = CatFatal"
| "classify EcAuthTokenInvalid = CatFatal"
| "classify EcAuthTokenExpired = CatFatal"
| "classify EcUnsupportedVersion = CatFatal"
| "classify EcSessionTokenInvalid = CatTransient"
| "classify EcSessionTokenExpired = CatTransient"
| "classify EcHandshakeRequired = CatTransient"
| "classify EcTransportFailure = CatTransient"
| "classify EcTimeout = CatTransient"
| "classify EcCapabilityDenied = CatApplication"
| "classify EcRateLimited = CatApplication"
| "classify EcTopicNotFound = CatApplication"
| "classify EcTopicAlreadySubscribed = CatApplication"
| "classify EcTopicNotSubscribed = CatApplication"
| "classify EcControlEStopActive = CatApplication"
| "classify EcControlPublisherUnavailable = CatApplication"
| "classify EcControlInvalidTwist = CatApplication"
| "classify EcTaskRunning = CatApplication"
| "classify EcTaskNotFound = CatApplication"
| "classify EcTaskInvalidState = CatApplication"
| "classify EcNavMarkerNotFound = CatApplication"
| "classify EcNavNoActiveMap = CatApplication"
| "classify EcNavGoalUnreachable = CatApplication"
| "classify EcNavLowBattery = CatApplication"
| "classify EcCancelled = CatLocal"
| "classify EcDisconnected = CatLocal"
| "classify EcWouldDeadlock = CatLocal"
| "classify EcInternalError = CatLocal"

text \<open>\<open>SdkException\<close>: the code and the message of \<open>std::runtime_error\<close>.\<close>

record sdk_exception =
  exn_code :: error_code
  exn_what :: string

abbreviation sdk_exn :: "error_code \<Rightarrow> string \<Rightarrow> sdk_exception" where
  "sdk_exn c m \<equiv> \<lparr>exn_code = c, exn_what = m\<rparr>"

section \<open>Facts\<close>

lemma set_all_error_codes [simp]: "c \<in> set all_error_codes"
  by (cases c) (simp_all add: all_error_codes_def)

lemma distinct_error_ints: "distinct (map error_int all_error_codes)"
  by (simp add: all_error_codes_def)

lemma distinct_error_names: "distinct (map error_name all_error_codes)"
  by (simp add: all_error_codes_def)

lemma find_inj_on:
  "distinct (map f xs) \<Longrightarrow> x \<in> set xs \<Longrightarrow> find (\<lambda>y. f y = f x) xs = Some x"
  by (induction xs) auto

lemma error_of_int_Some_iff: "error_of_int i = Some c \<longleftrightarrow> error_int c = i"
proof
  assume "error_of_int i = Some c"
  then show "error_int c = i" by (auto simp: error_of_int_def find_Some_iff)
next
  assume "error_int c = i"
  then show "error_of_int i = Some c"
    using find_inj_on [OF distinct_error_ints, of c] by (simp add: error_of_int_def)
qed

lemma error_name_inj: "error_name a = error_name b \<Longrightarrow> a = b"
  using distinct_error_names
  by (auto simp: distinct_map inj_on_def)

lemma classify_Ok_iff [simp]: "classify c = CatOk \<longleftrightarrow> c = EcOk"
  by (cases c) simp_all

lemma classify_Fatal_not_Ok: "classify c = CatFatal \<Longrightarrow> c \<noteq> EcOk"
  by auto

end
