(* ===== verification/Enums.thy ===== *)
theory Enums
  imports Errors
begin

text \<open>
  The plain data of the public headers: \<open>connection_state.hpp\<close>, \<open>subscription.hpp\<close>, \<open>topic.hpp\<close>,
  \<open>capabilities.hpp\<close>, the log levels of \<open>diagnostics.hpp\<close>, the message structs of
  \<open>include/karo/sdk/messages/\<close>, and their \<open>to_string\<close> functions. Constructors are prefixed with the
  enum they come from (\<open>Cs\<close>, \<open>St\<close>, \<open>Sub\<close>, \<open>Log\<close>, \<open>Tt\<close>, \<open>Ts\<close>, \<open>Tc\<close>, \<open>Tp\<close>, \<open>Ch\<close>, \<open>Sv\<close>).
\<close>

section \<open>Connection state\<close>

datatype conn_state =
  CsIdle | CsConnecting | CsReady | CsTransientFailure | CsReconnecting | CsShutdown | CsFatal

fun conn_state_name :: "conn_state \<Rightarrow> string" where
  "conn_state_name CsIdle = ''Idle''"
| "conn_state_name CsConnecting = ''Connecting''"
| "conn_state_name CsReady = ''Ready''"
| "conn_state_name CsTransientFailure = ''TransientFailure''"
| "conn_state_name CsReconnecting = ''Reconnecting''"
| "conn_state_name CsShutdown = ''Shutdown''"
| "conn_state_name CsFatal = ''Fatal''"

record state_change_info =
  ch_reason :: string
  ch_error_code :: error_code
  ch_error_message :: string
  ch_next_retry_in_ms :: ms
  ch_reconnect_attempt :: u32
  ch_last_action :: string

section \<open>Subscriptions\<close>

datatype stream_status_kind = StStarted | StPaused | StResumed | StGap | StClosed

fun status_kind_name :: "stream_status_kind \<Rightarrow> string" where
  "status_kind_name StStarted = ''Started''"
| "status_kind_name StPaused = ''Paused''"
| "status_kind_name StResumed = ''Resumed''"
| "status_kind_name StGap = ''Gap''"
| "status_kind_name StClosed = ''Closed''"

record stream_status =
  ss_kind :: stream_status_kind
  ss_reason :: string
  ss_gap_count :: "u64 option"
  ss_error_code :: error_code

datatype sub_state = SubPending | SubActive | SubPaused | SubClosed

fun sub_state_name :: "sub_state \<Rightarrow> string" where
  "sub_state_name SubPending = ''Pending''"
| "sub_state_name SubActive = ''Active''"
| "sub_state_name SubPaused = ''Paused''"
| "sub_state_name SubClosed = ''Closed''"

datatype drop_policy = DropOldest | DropNewest

datatype callback_mode = Dispatched | Inline

section \<open>Topics and capabilities\<close>

datatype delivery_semantics = Telemetry | Event

record topic_descriptor =
  td_name :: string
  td_description :: string
  td_default_hz :: double
  td_max_hz :: double
  td_delivery_semantics :: delivery_semantics

record capabilities =
  chassis_control :: bool
  telemetry_read :: bool
  image_stream :: bool
  map_read :: bool
  map_write :: bool
  task_control :: bool

record robot_info =
  ri_sn :: string
  ri_model :: string
  ri_protocol_version :: string
  ri_granted_capabilities :: capabilities
  ri_available_topics :: "topic_descriptor list"

section \<open>Log levels\<close>

datatype log_level = LogTrace | LogDebug | LogInfo | LogWarn | LogError | LogOff

fun log_level_name :: "log_level \<Rightarrow> string" where
  "log_level_name LogTrace = ''Trace''"
| "log_level_name LogDebug = ''Debug''"
| "log_level_name LogInfo = ''Info''"
| "log_level_name LogWarn = ''Warn''"
| "log_level_name LogError = ''Error''"
| "log_level_name LogOff = ''Off''"

fun log_level_int :: "log_level \<Rightarrow> nat" where
  "log_level_int LogTrace = 0"
| "log_level_int LogDebug = 1"
| "log_level_int LogInfo = 2"
| "log_level_int LogWarn = 3"
| "log_level_int LogError = 4"
| "log_level_int LogOff = 5"

lemma log_level_int_inj [simp]: "log_level_int a = log_level_int b \<longleftrightarrow> a = b"
  by (cases a; cases b) simp_all

text \<open>The enum is ordered by its numeric value, as \<open>operator<\<close> on a scoped enum is.\<close>

instantiation log_level :: linorder
begin

definition less_eq_log_level :: "log_level \<Rightarrow> log_level \<Rightarrow> bool" where
  "less_eq_log_level a b \<longleftrightarrow> log_level_int a \<le> log_level_int b"

definition less_log_level :: "log_level \<Rightarrow> log_level \<Rightarrow> bool" where
  "less_log_level a b \<longleftrightarrow> log_level_int a < log_level_int b"

instance
  by standard (auto simp: less_eq_log_level_def less_log_level_def)

end

lemmas log_level_order_defs = less_eq_log_level_def less_log_level_def

section \<open>Messages\<close>

datatype charge_type = ChNone | ChWire | ChDock | ChOther int

datatype service_state =
    SvIdle | SvTask | SvMapping | SvStarting | SvShuttingDown | SvUpgrading
  | SvRemoteControl | SvGotoCharging | SvOther int

record robot_status =
  rs_robot_id :: string
  rs_sequence :: u64
  rs_timestamp_ms :: u64
  rs_health_score :: u32
  rs_battery_percent :: u32
  rs_charge_type :: charge_type
  rs_service_state :: service_state
  rs_is_estop :: bool
  rs_is_hw_estop :: bool
  rs_is_sw_estop :: bool
  rs_active_map_id :: string
  rs_active_map_name :: string
  rs_active_floor :: "32 word"
  rs_current_task_id :: string
  rs_uptime_seconds :: u64
  rs_idle_seconds :: u64
  rs_charging_seconds :: u64
  rs_error_codes :: "32 word list"

datatype task_type = TtUnspecified | TtNavigation | TtPatrol | TtGoBack

datatype task_state =
    TsUnspecified | TsPending | TsRunning | TsPaused | TsCancelling
  | TsSucceeded | TsFailed | TsCancelled

datatype task_cancel_reason =
    TcUnspecified | TcUser | TcEstop | TcTimeout | TcPauseTimeout | TcResumeFailed | TcError

datatype task_pause_reason = TpUnspecified | TpUser | TpEstop

record task_event =
  te_task_id :: string
  te_task_type :: task_type
  te_state :: task_state
  te_cancel_reason :: task_cancel_reason
  te_pause_reason :: task_pause_reason
  te_error_code :: error_code
  te_error_message :: string
  te_marker_id :: string
  te_planned_distance :: double
  te_traveled_distance :: double
  te_created_at_ms :: u64
  te_started_at_ms :: u64
  te_completed_at_ms :: u64
  te_timestamp_ms :: u64

record safety_event =
  se_code :: u32
  se_level :: u32
  se_severity :: u32
  se_mode :: string
  se_active_source :: string
  se_timestamp_ms :: u64

end
