(* ===== verification/Codec.thy ===== *)
theory Codec
  imports Enums
begin

text \<open>
  \<open>src/proto_codec.hpp\<close> and \<open>src/proto_codec.cpp\<close>. The messages of \<open>proto/sdk/session.proto\<close>,
  \<open>proto/sdk/common.proto\<close>, \<open>proto/sdk/v1/telemetry.proto\<close> and the parts of \<open>proto/karo/v1\<close> the SDK
  uses are records and datatypes with the fields of the \<open>.proto\<close> files. The protobuf library and the
  code \<open>protoc\<close> generates are not part of the repository: serialising a message to bytes and parsing
  bytes are the fields of the parameter record \<open>protobuf\<close> (\<open>None\<close>: the call reports failure), and so
  is the narrowing of a \<open>double\<close> to a \<open>float\<close>. An exception of the code is the left of a sum.
\<close>

section \<open>Messages to the robot\<close>

datatype handshake_auth = AuthCertificateDer bytes | AuthAccessToken bytes

record handshake_request =
  hq_sdk_version :: string
  hq_client_id :: string
  hq_auth :: handshake_auth

record subscribe_command =
  sc_topic :: string
  sc_desired_hz :: double
  sc_since_seq :: u64
  sc_history_limit :: u32

record rpc_request =
  rq_id :: u64
  rq_method :: string
  rq_deadline_ms :: u64
  rq_metadata :: "(string \<times> string) list"
  rq_payload :: bytes

datatype command_body =
    CmdHandshake handshake_request
  | CmdPing u64
  | CmdSubscribe subscribe_command
  | CmdUnsubscribe string
  | CmdRpc rpc_request

record sdk_command =
  cmd_request_id :: u64
  cmd_body :: command_body

record vector3 =
  v3_x :: double
  v3_y :: double
  v3_z :: double

record cmd_vel_request =
  cv_linear :: vector3
  cv_angular :: vector3
  cv_sequence :: u64
  cv_timestamp_ms :: u64

datatype move_target = TargetMarker string | TargetPose double double double

section \<open>Messages from the robot\<close>

record topic_descriptor_pb =
  tp_name :: string
  tp_description :: string
  tp_default_hz :: double
  tp_max_hz :: double
  tp_delivery_semantics :: int

record handshake_response_pb =
  hr_protocol_version :: string
  hr_robot_sn :: string
  hr_robot_model :: string
  hr_granted_capabilities :: capabilities
  hr_available_topics :: "topic_descriptor_pb list"
  hr_session_token :: string

record rpc_response_pb =
  rr_id :: u64
  rr_code :: int
  rr_message :: string
  rr_payload :: bytes

record subscribe_ack_pb =
  sa_topic :: string
  sa_accepted :: bool
  sa_reject_reason :: int
  sa_next_seq :: u64
  sa_message :: string

datatype response_payload =
    PayNone
  | PayHandshake handshake_response_pb
  | PayRpc rpc_response_pb
  | PaySubscribe subscribe_ack_pb

record sdk_response_pb =
  rp_request_id :: u64
  rp_success :: bool
  rp_error_code :: int
  rp_message :: string
  rp_server_timestamp_ms :: u64
  rp_payload :: response_payload

record topic_push_pb =
  pp_topic :: string
  pp_timestamp_ms :: u64
  pp_payload :: bytes
  pp_seq :: u64

record cmd_vel_response_pb =
  cr_accepted :: bool
  cr_device_timestamp_ms :: u64

record ping_response_pb =
  pg_client_timestamp_ms :: u64
  pg_server_timestamp_ms :: u64
  pg_protocol_version :: string
  pg_device_sn :: string

record robot_state_pb =
  st_robot_id :: string
  st_health_score :: u32
  st_sequence :: u64
  st_battery_level :: u32
  st_charge_type :: int
  st_service_state :: int
  st_is_estop :: bool
  st_is_hw_estop :: bool
  st_is_sw_estop :: bool
  st_errors :: "u32 list"
  st_active_map_id :: string
  st_active_map_name :: string
  st_active_floor :: u32
  st_current_task_id :: string
  st_uptime_seconds :: u64
  st_idle_seconds :: u64
  st_charging_seconds :: u64

record move_details_pb =
  mv_marker_id :: string
  mv_planned_distance :: double
  mv_distance_traveled :: double

record task_pb =
  tk_task_id :: string
  tk_task_type :: int
  tk_state :: int
  tk_cancel_reason :: int
  tk_pause_reason :: int
  tk_created_at_ms :: u64
  tk_started_at_ms :: u64
  tk_completed_at_ms :: u64
  tk_error_code :: int
  tk_error_message :: string
  tk_move :: "move_details_pb option"

datatype task_event_kind =
  KindNotSet | KindCreated task_pb | KindUpdated task_pb | KindStateChanged | KindDeleted

record safety_state_pb =
  sf_code :: u32
  sf_level :: u32
  sf_severity :: u32
  sf_mode :: string
  sf_active_source :: string

section \<open>The protobuf library\<close>

record protobuf =
  ser_command :: "sdk_command \<Rightarrow> bytes option"
  ser_cmd_vel :: "cmd_vel_request \<Rightarrow> bytes option"
  ser_emergency_stop :: "bool \<Rightarrow> bytes option"
  ser_create_move_task :: "move_target \<Rightarrow> bytes option"
  ser_cancel_task :: "string \<Rightarrow> bytes option"
  ser_pause_task :: "string \<Rightarrow> bytes option"
  ser_resume_task :: "string \<Rightarrow> bytes option"
  parse_response :: "bytes \<Rightarrow> sdk_response_pb option"
  parse_topic_push :: "bytes \<Rightarrow> topic_push_pb option"
  parse_cmd_vel_response :: "bytes \<Rightarrow> cmd_vel_response_pb option"
  parse_ping_response :: "bytes \<Rightarrow> ping_response_pb option"
  parse_robot_state :: "bytes \<Rightarrow> robot_state_pb option"
  parse_create_task_response :: "bytes \<Rightarrow> task_pb option"
  parse_task_event :: "bytes \<Rightarrow> task_event_kind option"
  parse_safety_state :: "bytes \<Rightarrow> safety_state_pb option"
  to_float :: "double \<Rightarrow> double"

section \<open>Encoders\<close>

definition serialize_or_throw :: "protobuf \<Rightarrow> sdk_command \<Rightarrow> sdk_exception + bytes" where
  "serialize_or_throw pb cmd =
    (case ser_command pb cmd of
       None \<Rightarrow> Inl (sdk_exn EcInternalError ''failed to serialize protobuf message'')
     | Some buf \<Rightarrow> Inr buf)"

definition encode_handshake_cert ::
  "protobuf \<Rightarrow> u64 \<Rightarrow> string \<Rightarrow> string \<Rightarrow> bytes \<Rightarrow> sdk_exception + bytes" where
  "encode_handshake_cert pb request_id sdk_version client_id cert_der =
    serialize_or_throw pb
      \<lparr>cmd_request_id = request_id,
       cmd_body = CmdHandshake
         \<lparr>hq_sdk_version = sdk_version, hq_client_id = client_id,
          hq_auth = AuthCertificateDer cert_der\<rparr>\<rparr>"

definition encode_handshake_token ::
  "protobuf \<Rightarrow> u64 \<Rightarrow> string \<Rightarrow> string \<Rightarrow> bytes \<Rightarrow> sdk_exception + bytes" where
  "encode_handshake_token pb request_id sdk_version client_id token =
    serialize_or_throw pb
      \<lparr>cmd_request_id = request_id,
       cmd_body = CmdHandshake
         \<lparr>hq_sdk_version = sdk_version, hq_client_id = client_id,
          hq_auth = AuthAccessToken token\<rparr>\<rparr>"

definition encode_ping :: "protobuf \<Rightarrow> u64 \<Rightarrow> u64 \<Rightarrow> sdk_exception + bytes" where
  "encode_ping pb request_id client_ts_ms =
    serialize_or_throw pb \<lparr>cmd_request_id = request_id, cmd_body = CmdPing client_ts_ms\<rparr>"

definition encode_subscribe ::
  "protobuf \<Rightarrow> u64 \<Rightarrow> string \<Rightarrow> double \<Rightarrow> u64 \<Rightarrow> u32 \<Rightarrow> sdk_exception + bytes" where
  "encode_subscribe pb request_id topic desired_hz since_seq history_limit =
    serialize_or_throw pb
      \<lparr>cmd_request_id = request_id,
       cmd_body = CmdSubscribe
         \<lparr>sc_topic = topic, sc_desired_hz = to_float pb desired_hz,
          sc_since_seq = since_seq, sc_history_limit = history_limit\<rparr>\<rparr>"

definition encode_unsubscribe :: "protobuf \<Rightarrow> u64 \<Rightarrow> string \<Rightarrow> sdk_exception + bytes" where
  "encode_unsubscribe pb request_id topic =
    serialize_or_throw pb \<lparr>cmd_request_id = request_id, cmd_body = CmdUnsubscribe topic\<rparr>"

definition wrap_in_sdk_command :: "protobuf \<Rightarrow> u64 \<Rightarrow> rpc_request \<Rightarrow> sdk_exception + bytes" where
  "wrap_in_sdk_command pb sdk_request_id rpc_req =
    serialize_or_throw pb \<lparr>cmd_request_id = sdk_request_id, cmd_body = CmdRpc rpc_req\<rparr>"

definition encode_cmd_vel ::
  "protobuf \<Rightarrow> u64 \<Rightarrow> double \<Rightarrow> double \<Rightarrow> double \<Rightarrow> u64 \<Rightarrow> u64 \<Rightarrow> sdk_exception + bytes" where
  "encode_cmd_vel pb request_id linear_x linear_y angular_z sequence client_ts_ms =
    (case ser_cmd_vel pb
        \<lparr>cv_linear = \<lparr>v3_x = linear_x, v3_y = linear_y, v3_z = 0\<rparr>,
         cv_angular = \<lparr>v3_x = 0, v3_y = 0, v3_z = angular_z\<rparr>,
         cv_sequence = sequence, cv_timestamp_ms = client_ts_ms\<rparr> of
       None \<Rightarrow> Inl (sdk_exn EcInternalError ''serialize CmdVelRequest'')
     | Some payload \<Rightarrow>
         wrap_in_sdk_command pb request_id
           \<lparr>rq_id = request_id, rq_method = ''control.cmd_vel'', rq_deadline_ms = 200,
            rq_metadata = [], rq_payload = payload\<rparr>)"

definition encode_emergency_stop ::
  "protobuf \<Rightarrow> u64 \<Rightarrow> bool \<Rightarrow> string \<Rightarrow> sdk_exception + bytes" where
  "encode_emergency_stop pb request_id engage reason =
    (case ser_emergency_stop pb engage of
       None \<Rightarrow> Inl (sdk_exn EcInternalError ''serialize EmergencyStopRequest'')
     | Some payload \<Rightarrow>
         wrap_in_sdk_command pb request_id
           \<lparr>rq_id = request_id, rq_method = ''safety.emergency_stop'', rq_deadline_ms = 2000,
            rq_metadata = (if reason \<noteq> [] then [(''reason'', reason)] else []),
            rq_payload = payload\<rparr>)"

definition encode_task_rpc ::
  "protobuf \<Rightarrow> u64 \<Rightarrow> string \<Rightarrow> bytes option \<Rightarrow> sdk_exception + bytes" where
  "encode_task_rpc pb request_id mname req =
    (case req of
       None \<Rightarrow> Inl (sdk_exn EcInternalError ''serialize task request'')
     | Some payload \<Rightarrow>
         wrap_in_sdk_command pb request_id
           \<lparr>rq_id = request_id, rq_method = mname, rq_deadline_ms = 2000,
            rq_metadata = [], rq_payload = payload\<rparr>)"

definition encode_create_nav_task_marker ::
  "protobuf \<Rightarrow> u64 \<Rightarrow> string \<Rightarrow> sdk_exception + bytes" where
  "encode_create_nav_task_marker pb request_id marker_id =
    encode_task_rpc pb request_id ''move.create_task''
      (ser_create_move_task pb (TargetMarker marker_id))"

definition encode_create_nav_task_pose ::
  "protobuf \<Rightarrow> u64 \<Rightarrow> double \<Rightarrow> double \<Rightarrow> double \<Rightarrow> sdk_exception + bytes" where
  "encode_create_nav_task_pose pb request_id x y theta =
    encode_task_rpc pb request_id ''move.create_task''
      (ser_create_move_task pb (TargetPose x y theta))"

definition encode_cancel_task :: "protobuf \<Rightarrow> u64 \<Rightarrow> string \<Rightarrow> sdk_exception + bytes" where
  "encode_cancel_task pb request_id task_id =
    encode_task_rpc pb request_id ''task_actions.cancel_task'' (ser_cancel_task pb task_id)"

definition encode_pause_task :: "protobuf \<Rightarrow> u64 \<Rightarrow> string \<Rightarrow> sdk_exception + bytes" where
  "encode_pause_task pb request_id task_id =
    encode_task_rpc pb request_id ''task_actions.pause_task'' (ser_pause_task pb task_id)"

definition encode_resume_task :: "protobuf \<Rightarrow> u64 \<Rightarrow> string \<Rightarrow> sdk_exception + bytes" where
  "encode_resume_task pb request_id task_id =
    encode_task_rpc pb request_id ''task_actions.resume_task'' (ser_resume_task pb task_id)"

lemmas encode_defs =
  serialize_or_throw_def wrap_in_sdk_command_def encode_handshake_cert_def
  encode_handshake_token_def encode_ping_def encode_subscribe_def encode_unsubscribe_def
  encode_cmd_vel_def encode_emergency_stop_def encode_task_rpc_def
  encode_create_nav_task_marker_def encode_create_nav_task_pose_def encode_cancel_task_def
  encode_pause_task_def encode_resume_task_def

section \<open>Wire error codes\<close>

definition map_sdk_error_code :: "int \<Rightarrow> error_code" where
  "map_sdk_error_code c =
    (if c = 0 then EcOk
     else if c = 1 then EcAuthFailed
     else if c = 2 then EcAuthCnNotAllowed
     else if c = 3 then EcAuthSerialRevoked
     else if c = 4 then EcAuthTokenInvalid
     else if c = 5 then EcAuthTokenExpired
     else if c = 10 then EcSessionTokenInvalid
     else if c = 11 then EcSessionTokenExpired
     else if c = 12 then EcHandshakeRequired
     else if c = 20 then EcCapabilityDenied
     else if c = 21 then EcRateLimited
     else if c = 22 then EcUnsupportedVersion
     else if c = 30 then EcTopicNotFound
     else if c = 31 then EcTopicAlreadySubscribed
     else if c = 32 then EcTopicNotSubscribed
     else if c = 40 then EcDisconnected
     else if c = 41 then EcWouldDeadlock
     else if c = 905 then EcTaskRunning
     else if c = 900 \<or> c = 901 \<or> c = 906 \<or> c = 907 \<or> c = 908 then EcControlEStopActive
     else if c = 902 \<or> c = 903 \<or> c = 904 \<or> c = 910 then EcControlPublisherUnavailable
     else EcInternalError)"

definition map_v1_error_code :: "int \<Rightarrow> error_code" where
  "map_v1_error_code c =
    (if c = 0 then EcOk
     else if c = 201 then EcCapabilityDenied
     else if c = 202 then EcAuthFailed
     else if c = 203 then EcControlInvalidTwist
     else if c = 204 then EcCancelled
     else if c = 205 then EcTimeout
     else if c = 1200 then EcNavMarkerNotFound
     else if c = 1201 then EcNavNoActiveMap
     else if c = 1202 then EcTaskRunning
     else if c = 1203 then EcNavLowBattery
     else if c = 1204 then EcControlEStopActive
     else if c = 1205 then EcNavGoalUnreachable
     else if c = 1206 then EcNavGoalUnreachable
     else if c = 1207 then EcTimeout
     else if c = 1208 then EcTaskRunning
     else if c = 1209 then EcTaskNotFound
     else if c = 1210 then EcControlPublisherUnavailable
     else if c = 1211 then EcNavGoalUnreachable
     else if c = 1212 then EcNavGoalUnreachable
     else if c = 9300 then EcControlEStopActive
     else if c = 9301 then EcControlPublisherUnavailable
     else if c = 9302 then EcControlInvalidTwist
     else EcInternalError)"

section \<open>Decoded messages\<close>

text \<open>
  \<open>static_cast<SubscribeRejectReason>\<close> of a wire value outside the enum keeps the value.
\<close>

datatype subscribe_reject_reason =
    RejNone | RejTopicNotFound | RejCapabilityDenied | RejAlreadySubscribed | RejInvalidHz
  | RejHistoryTooOld | RejReplayNotSupported | RejOther int

definition reject_reason_of_wire :: "int \<Rightarrow> subscribe_reject_reason" where
  "reject_reason_of_wire w =
    (if w = 0 then RejNone
     else if w = 1 then RejTopicNotFound
     else if w = 2 then RejCapabilityDenied
     else if w = 3 then RejAlreadySubscribed
     else if w = 4 then RejInvalidHz
     else if w = 10 then RejHistoryTooOld
     else if w = 11 then RejReplayNotSupported
     else RejOther w)"

record decoded_response =
  dr_request_id :: u64
  dr_success :: bool
  dr_sdk_code :: error_code
  dr_message :: string
  dr_server_ts_ms :: u64
  dr_has_handshake :: bool
  dr_has_rpc :: bool
  dr_has_subscribe :: bool
  dr_protocol_version :: string
  dr_robot_sn :: string
  dr_robot_model :: string
  dr_session_token :: string
  dr_granted_capabilities :: capabilities
  dr_available_topics :: "topic_descriptor list"
  dr_rpc_id :: u64
  dr_rpc_code :: error_code
  dr_rpc_message :: string
  dr_rpc_payload :: bytes
  dr_sub_topic :: string
  dr_sub_accepted :: bool
  dr_sub_reject_reason :: subscribe_reject_reason
  dr_sub_next_seq :: u64
  dr_sub_message :: string

definition no_capabilities :: capabilities where
  "no_capabilities =
    \<lparr>chassis_control = False, telemetry_read = False, image_stream = False,
     map_read = False, map_write = False, task_control = False\<rparr>"

definition decoded_response_default :: decoded_response where
  "decoded_response_default =
    \<lparr>dr_request_id = 0, dr_success = False, dr_sdk_code = EcOk, dr_message = [],
     dr_server_ts_ms = 0, dr_has_handshake = False, dr_has_rpc = False, dr_has_subscribe = False,
     dr_protocol_version = [], dr_robot_sn = [], dr_robot_model = [], dr_session_token = [],
     dr_granted_capabilities = no_capabilities, dr_available_topics = [],
     dr_rpc_id = 0, dr_rpc_code = EcOk, dr_rpc_message = [], dr_rpc_payload = [],
     dr_sub_topic = [], dr_sub_accepted = False, dr_sub_reject_reason = RejNone,
     dr_sub_next_seq = 0, dr_sub_message = []\<rparr>"

definition convert_capabilities :: "capabilities \<Rightarrow> capabilities" where
  "convert_capabilities src =
    \<lparr>chassis_control = chassis_control src, telemetry_read = telemetry_read src,
     image_stream = image_stream src, map_read = map_read src, map_write = map_write src,
     task_control = task_control src\<rparr>"

definition convert_delivery_semantics :: "int \<Rightarrow> delivery_semantics" where
  "convert_delivery_semantics wire = (if wire = 1 then Event else Telemetry)"

definition convert_topic :: "topic_descriptor_pb \<Rightarrow> topic_descriptor" where
  "convert_topic t =
    \<lparr>td_name = tp_name t, td_description = tp_description t, td_default_hz = tp_default_hz t,
     td_max_hz = tp_max_hz t,
     td_delivery_semantics = convert_delivery_semantics (tp_delivery_semantics t)\<rparr>"

definition decode_response ::
  "protobuf \<Rightarrow> bytes \<Rightarrow> decoded_response \<Rightarrow> decoded_response option" where
  "decode_response pb data out =
    (case parse_response pb data of
       None \<Rightarrow> None
     | Some resp \<Rightarrow>
         let base = out\<lparr>dr_request_id := rp_request_id resp, dr_success := rp_success resp,
               dr_sdk_code := map_sdk_error_code (rp_error_code resp),
               dr_message := rp_message resp, dr_server_ts_ms := rp_server_timestamp_ms resp,
               dr_has_handshake := False, dr_has_rpc := False, dr_has_subscribe := False\<rparr>
         in Some (case rp_payload resp of
              PayHandshake hs \<Rightarrow>
                base\<lparr>dr_has_handshake := True, dr_protocol_version := hr_protocol_version hs,
                  dr_robot_sn := hr_robot_sn hs, dr_robot_model := hr_robot_model hs,
                  dr_session_token := hr_session_token hs,
                  dr_granted_capabilities := convert_capabilities (hr_granted_capabilities hs),
                  dr_available_topics := map convert_topic (hr_available_topics hs)\<rparr>
            | PayRpc r \<Rightarrow>
                base\<lparr>dr_has_rpc := True, dr_rpc_id := rr_id r,
                  dr_rpc_code := map_v1_error_code (rr_code r), dr_rpc_message := rr_message r,
                  dr_rpc_payload := rr_payload r\<rparr>
            | PaySubscribe a \<Rightarrow>
                base\<lparr>dr_has_subscribe := True, dr_sub_topic := sa_topic a,
                  dr_sub_accepted := sa_accepted a,
                  dr_sub_reject_reason := reject_reason_of_wire (sa_reject_reason a),
                  dr_sub_next_seq := sa_next_seq a, dr_sub_message := sa_message a\<rparr>
            | PayNone \<Rightarrow> base))"

record decoded_topic_push =
  push_topic :: string
  push_timestamp_ms :: u64
  push_seq :: u64
  push_payload :: bytes

definition decode_topic_push :: "protobuf \<Rightarrow> bytes \<Rightarrow> decoded_topic_push option" where
  "decode_topic_push pb data =
    (case parse_topic_push pb data of
       None \<Rightarrow> None
     | Some p \<Rightarrow>
         Some \<lparr>push_topic = pp_topic p, push_timestamp_ms = pp_timestamp_ms p,
               push_seq = pp_seq p, push_payload = pp_payload p\<rparr>)"

record decoded_cmd_vel_response =
  dcv_accepted :: bool
  dcv_device_timestamp_ms :: u64

definition decode_cmd_vel_response :: "protobuf \<Rightarrow> bytes \<Rightarrow> decoded_cmd_vel_response option" where
  "decode_cmd_vel_response pb payload =
    (case parse_cmd_vel_response pb payload of
       None \<Rightarrow> None
     | Some r \<Rightarrow> Some \<lparr>dcv_accepted = cr_accepted r,
                      dcv_device_timestamp_ms = cr_device_timestamp_ms r\<rparr>)"

record decoded_ping_response =
  dpg_client_timestamp_ms :: int
  dpg_server_timestamp_ms :: int
  dpg_protocol_version :: string
  dpg_device_sn :: string

definition decode_ping_response :: "protobuf \<Rightarrow> bytes \<Rightarrow> decoded_ping_response option" where
  "decode_ping_response pb payload =
    (case parse_ping_response pb payload of
       None \<Rightarrow> None
     | Some r \<Rightarrow>
         Some \<lparr>dpg_client_timestamp_ms = sint (pg_client_timestamp_ms r),
               dpg_server_timestamp_ms = sint (pg_server_timestamp_ms r),
               dpg_protocol_version = pg_protocol_version r, dpg_device_sn = pg_device_sn r\<rparr>)"

definition charge_type_of_wire :: "int \<Rightarrow> charge_type" where
  "charge_type_of_wire w =
    (if w = 0 then ChNone else if w = 1 then ChWire else if w = 2 then ChDock else ChOther w)"

definition service_state_of_wire :: "int \<Rightarrow> service_state" where
  "service_state_of_wire w =
    (if w = 0 then SvIdle else if w = 1 then SvTask else if w = 2 then SvMapping
     else if w = 3 then SvStarting else if w = 4 then SvShuttingDown
     else if w = 5 then SvUpgrading else if w = 6 then SvRemoteControl
     else if w = 7 then SvGotoCharging else SvOther w)"

text \<open>The caller fills in \<open>timestamp_ms\<close>, which the decoder leaves as it was in \<open>out\<close>.\<close>

definition decode_robot_status :: "protobuf \<Rightarrow> bytes \<Rightarrow> u64 \<Rightarrow> robot_status option" where
  "decode_robot_status pb payload ts =
    (case parse_robot_state pb payload of
       None \<Rightarrow> None
     | Some s \<Rightarrow>
         Some \<lparr>rs_robot_id = st_robot_id s, rs_sequence = st_sequence s, rs_timestamp_ms = ts,
           rs_health_score = st_health_score s, rs_battery_percent = st_battery_level s,
           rs_charge_type = charge_type_of_wire (st_charge_type s),
           rs_service_state = service_state_of_wire (st_service_state s),
           rs_is_estop = st_is_estop s, rs_is_hw_estop = st_is_hw_estop s,
           rs_is_sw_estop = st_is_sw_estop s, rs_active_map_id = st_active_map_id s,
           rs_active_map_name = st_active_map_name s, rs_active_floor = st_active_floor s,
           rs_current_task_id = st_current_task_id s, rs_uptime_seconds = st_uptime_seconds s,
           rs_idle_seconds = st_idle_seconds s, rs_charging_seconds = st_charging_seconds s,
           rs_error_codes = st_errors s\<rparr>)"

definition map_task_type :: "int \<Rightarrow> task_type" where
  "map_task_type wire =
    (if wire = 1 then TtNavigation else if wire = 2 then TtPatrol
     else if wire = 3 then TtGoBack else TtUnspecified)"

definition map_task_state :: "int \<Rightarrow> task_state" where
  "map_task_state wire =
    (if wire = 1 then TsPending else if wire = 2 then TsRunning else if wire = 3 then TsPaused
     else if wire = 4 then TsCancelling else if wire = 10 then TsSucceeded
     else if wire = 11 then TsFailed else if wire = 12 then TsCancelled else TsUnspecified)"

definition map_task_cancel_reason :: "int \<Rightarrow> task_cancel_reason" where
  "map_task_cancel_reason wire =
    (if wire = 1 then TcUser else if wire = 2 then TcEstop else if wire = 3 then TcTimeout
     else if wire = 4 then TcPauseTimeout else if wire = 5 then TcResumeFailed
     else if wire = 6 then TcError else TcUnspecified)"

definition map_task_pause_reason :: "int \<Rightarrow> task_pause_reason" where
  "map_task_pause_reason wire =
    (if wire = 1 then TpUser else if wire = 2 then TpEstop else TpUnspecified)"

text \<open>An absent \<open>task\<close> field reads as the default message, whose \<open>task_id\<close> is empty.\<close>

definition decode_create_task_response :: "protobuf \<Rightarrow> bytes \<Rightarrow> string option" where
  "decode_create_task_response pb payload =
    map_option tk_task_id (parse_create_task_response pb payload)"

definition flatten_task :: "task_pb \<Rightarrow> task_event \<Rightarrow> task_event" where
  "flatten_task t out =
    (let out1 = out\<lparr>te_task_id := tk_task_id t, te_task_type := map_task_type (tk_task_type t),
          te_state := map_task_state (tk_state t),
          te_cancel_reason := map_task_cancel_reason (tk_cancel_reason t),
          te_pause_reason := map_task_pause_reason (tk_pause_reason t),
          te_error_code := map_v1_error_code (tk_error_code t),
          te_error_message := tk_error_message t, te_created_at_ms := tk_created_at_ms t,
          te_started_at_ms := tk_started_at_ms t, te_completed_at_ms := tk_completed_at_ms t\<rparr>
     in case tk_move t of
          None \<Rightarrow> out1
        | Some m \<Rightarrow> out1\<lparr>te_marker_id := mv_marker_id m,
            te_planned_distance := mv_planned_distance m,
            te_traveled_distance := mv_distance_traveled m\<rparr>)"

definition task_event_default :: task_event where
  "task_event_default =
    \<lparr>te_task_id = [], te_task_type = TtUnspecified, te_state = TsUnspecified,
     te_cancel_reason = TcUnspecified, te_pause_reason = TpUnspecified, te_error_code = EcOk,
     te_error_message = [], te_marker_id = [], te_planned_distance = 0,
     te_traveled_distance = 0, te_created_at_ms = 0, te_started_at_ms = 0,
     te_completed_at_ms = 0, te_timestamp_ms = 0\<rparr>"

definition decode_task_event :: "protobuf \<Rightarrow> bytes \<Rightarrow> task_event \<Rightarrow> task_event option" where
  "decode_task_event pb payload out =
    (case parse_task_event pb payload of
       None \<Rightarrow> None
     | Some env \<Rightarrow>
         (case env of
            KindCreated t \<Rightarrow> Some (flatten_task t out)
          | KindUpdated t \<Rightarrow> Some (flatten_task t out)
          | _ \<Rightarrow> None))"

definition decode_safety_event :: "protobuf \<Rightarrow> bytes \<Rightarrow> u64 \<Rightarrow> safety_event option" where
  "decode_safety_event pb payload ts =
    (case parse_safety_state pb payload of
       None \<Rightarrow> None
     | Some s \<Rightarrow>
         Some \<lparr>se_code = sf_code s, se_level = sf_level s, se_severity = sf_severity s,
           se_mode = sf_mode s, se_active_source = sf_active_source s, se_timestamp_ms = ts\<rparr>)"

end
