(* ===== verification/WsClient.thy ===== *)
theory WsClient
  imports Errors
begin

text \<open>
  \<open>src/ws_client.hpp\<close> and \<open>src/ws_client.cpp\<close>: the WebSocket client over TLS. \<open>ConnectAttempt\<close> is
  the chain of asynchronous connect steps, \<open>WsClient::Impl\<close> the write queue, the disconnect path and
  the orderly close. Boost.Asio, Boost.Beast and OpenSSL are outside the repository: their
  asynchronous operations appear as the completion handlers the code gives them, called with the
  error (or none) the library reports, and the PEM loaders are a parameter. The client's own
  \<open>io_context\<close> is one thread with a queue of posted handlers, so every handler is a function of the
  state, and the interleavings are those of \<open>ws_step\<close>.
\<close>

section \<open>Errors of the transport\<close>

datatype io_error =
    IoClosed (io_message: string)
  | IoEof (io_message: string)
  | IoAborted (io_message: string)
  | IoOther (io_message: string)

section \<open>Endpoints\<close>

fun rfind :: "char \<Rightarrow> string \<Rightarrow> nat option" where
  "rfind c [] = None"
| "rfind c (x # xs) =
     (case rfind c xs of
        Some i \<Rightarrow> Some (Suc i)
      | None \<Rightarrow> if x = c then Some 0 else None)"

definition split_endpoint :: "string \<Rightarrow> sdk_exception + (string \<times> string)" where
  "split_endpoint ep =
    (case rfind (CHR '':'') ep of
       None \<Rightarrow> Inl (sdk_exn EcTransportFailure (''endpoint missing port: '' @ ep))
     | Some colon \<Rightarrow> Inr (take colon ep, drop (Suc colon) ep))"

lemma rfind_None_iff: "rfind c s = None \<longleftrightarrow> c \<notin> set s"
  by (induction s) (auto split: option.splits)

lemma rfind_append: "c \<notin> set t \<Longrightarrow> rfind c (s @ c # t) = Some (length s)"
  by (induction s) (auto simp: rfind_None_iff split: option.splits)

section \<open>\<open>ConnectAttempt\<close>\<close>

datatype attempt_stage = AtCreated | AtResolving | AtConnecting | AtTls | AtWs

record connect_attempt =
  at_host :: string
  at_port :: string
  at_stage :: attempt_stage
  at_timer_armed :: bool
  at_has_stream :: bool
  at_socket_closed :: bool
  at_timed_out :: bool
  at_completed :: bool
  at_done :: "sdk_exception option option"

definition attempt_new :: "string \<Rightarrow> string \<Rightarrow> connect_attempt" where
  "attempt_new h p =
    \<lparr>at_host = h, at_port = p, at_stage = AtCreated, at_timer_armed = False,
     at_has_stream = False, at_socket_closed = False, at_timed_out = False,
     at_completed = False, at_done = None\<rparr>"

definition attempt_start :: "connect_attempt \<Rightarrow> connect_attempt" where
  "attempt_start a = a\<lparr>at_timer_armed := True, at_stage := AtResolving\<rparr>"

text \<open>The deadline timer; a cancelled timer calls its handler with \<open>operation_aborted\<close>.\<close>

definition attempt_deadline :: "connect_attempt \<Rightarrow> connect_attempt" where
  "attempt_deadline a =
    (let a1 = a\<lparr>at_timed_out := True, at_timer_armed := False\<rparr>
     in if at_has_stream a1 then a1\<lparr>at_socket_closed := True\<rparr> else a1)"

definition attempt_finish :: "sdk_exception option \<Rightarrow> connect_attempt \<Rightarrow> connect_attempt" where
  "attempt_finish eptr a =
    (if at_completed a then a
     else a\<lparr>at_completed := True, at_timer_armed := False, at_done := Some eptr\<rparr>)"

definition map_error :: "io_error \<Rightarrow> string \<Rightarrow> connect_attempt \<Rightarrow> sdk_exception" where
  "map_error ec step_name a =
    (if at_timed_out a \<or> (case ec of IoAborted _ \<Rightarrow> True | _ \<Rightarrow> False)
     then sdk_exn EcTimeout (''connect timeout ('' @ step_name @ '')'')
     else sdk_exn EcTransportFailure (step_name @ '': '' @ io_message ec))"

text \<open>\<open>sni_ok\<close> is the result of \<open>SSL_set_tlsext_host_name\<close>.\<close>

definition step_connect :: "bool \<Rightarrow> connect_attempt \<Rightarrow> connect_attempt" where
  "step_connect sni_ok a =
    (let a1 = a\<lparr>at_has_stream := True\<rparr>
     in if \<not> sni_ok
        then attempt_finish (Some (sdk_exn EcTransportFailure ''SSL_set_tlsext_host_name failed'')) a1
        else a1\<lparr>at_stage := AtConnecting\<rparr>)"

definition on_resolved :: "io_error option \<Rightarrow> bool \<Rightarrow> connect_attempt \<Rightarrow> connect_attempt" where
  "on_resolved ec sni_ok a =
    (if at_completed a then a
     else case ec of
       Some e \<Rightarrow> attempt_finish (Some (map_error e ''resolve'' a)) a
     | None \<Rightarrow> step_connect sni_ok a)"

definition on_tcp_connected :: "io_error option \<Rightarrow> connect_attempt \<Rightarrow> connect_attempt" where
  "on_tcp_connected ec a =
    (if at_completed a then a
     else case ec of
       Some e \<Rightarrow> attempt_finish (Some (map_error e ''tcp connect'' a)) a
     | None \<Rightarrow> a\<lparr>at_stage := AtTls\<rparr>)"

definition on_tls_done :: "io_error option \<Rightarrow> connect_attempt \<Rightarrow> connect_attempt" where
  "on_tls_done ec a =
    (if at_completed a then a
     else case ec of
       Some e \<Rightarrow> attempt_finish (Some (map_error e ''tls handshake'' a)) a
     | None \<Rightarrow> a\<lparr>at_stage := AtWs\<rparr>)"

definition on_ws_done :: "io_error option \<Rightarrow> connect_attempt \<Rightarrow> connect_attempt" where
  "on_ws_done ec a =
    (if at_completed a then a
     else case ec of
       Some e \<Rightarrow> attempt_finish (Some (map_error e ''ws handshake'' a)) a
     | None \<Rightarrow> attempt_finish None a)"

inductive attempt_step :: "connect_attempt \<Rightarrow> connect_attempt \<Rightarrow> bool" where
  start: "at_stage a = AtCreated \<Longrightarrow> attempt_step a (attempt_start a)"
| deadline: "at_timer_armed a \<Longrightarrow> attempt_step a (attempt_deadline a)"
| resolved: "at_stage a = AtResolving \<Longrightarrow> attempt_step a (on_resolved ec sni a)"
| connected: "at_stage a = AtConnecting \<Longrightarrow> attempt_step a (on_tcp_connected ec a)"
| tls: "at_stage a = AtTls \<Longrightarrow> attempt_step a (on_tls_done ec a)"
| ws: "at_stage a = AtWs \<Longrightarrow> attempt_step a (on_ws_done ec a)"

inductive_cases attempt_stepE: "attempt_step a a'"

lemmas attempt_defs =
  attempt_start_def attempt_deadline_def attempt_finish_def step_connect_def on_resolved_def
  on_tcp_connected_def on_tls_done_def on_ws_done_def Let_def

definition attempt_begin :: "connect_attempt \<Rightarrow> bool" where
  "attempt_begin a \<longleftrightarrow> (\<exists>h p. a = attempt_new h p)"

definition attempt_inv :: "connect_attempt \<Rightarrow> bool" where
  "attempt_inv a \<longleftrightarrow>
    (at_done a \<noteq> None \<longleftrightarrow> at_completed a)
    \<and> (at_stage a \<in> {AtConnecting, AtTls, AtWs} \<longrightarrow> at_has_stream a)
    \<and> (at_done a = Some None \<longrightarrow> at_stage a = AtWs)
    \<and> (at_stage a = AtCreated \<longrightarrow> \<not> at_completed a)
    \<and> (at_completed a \<longrightarrow> \<not> at_timer_armed a)
    \<and> (\<forall>e. at_done a = Some (Some e) \<longrightarrow> exn_code e \<in> {EcTimeout, EcTransportFailure})"

lemma attempt_inv_step: "attempt_inv a \<Longrightarrow> attempt_step a a' \<Longrightarrow> attempt_inv a'"
  by (erule attempt_stepE)
    (auto simp: attempt_inv_def attempt_defs map_error_def split: option.splits if_splits)

lemma attempt_inv_begin: "attempt_begin a \<Longrightarrow> attempt_inv a"
  by (auto simp: attempt_begin_def attempt_new_def attempt_inv_def)

interpretation attempt: inductive_invariant attempt_begin attempt_step attempt_inv
  by unfold_locales (auto simp: attempt_inv_begin attempt_inv_step)

lemma attempt_done_stays:
  "attempt_step a a' \<Longrightarrow> at_done a = Some r \<Longrightarrow> attempt_inv a \<Longrightarrow> at_done a' = Some r"
  by (erule attempt_stepE) (auto simp: attempt_inv_def attempt_defs split: option.splits)

section \<open>The client\<close>

record ws_config =
  wc_endpoint :: string
  wc_path :: string
  wc_cert_pem :: string
  wc_key_pem :: string
  wc_ca_pem :: string
  wc_insecure_skip_verify :: bool
  wc_connect_timeout :: ms
  wc_write_timeout :: ms

text \<open>OpenSSL's PEM loaders: \<open>Some what\<close> when the call throws.\<close>

record ssl_lib =
  load_pem_ca :: "string \<Rightarrow> string option"
  load_pem_certificate :: "string \<Rightarrow> string option"
  load_pem_private_key :: "string \<Rightarrow> string option"

datatype verify_mode = VerifyNone | VerifyPeer

datatype trust_anchors = NoAnchors | SystemPaths | OwnCa string

text \<open>
  A queued write. \<open>pw_promise\<close> says whether the writer waits for the result (\<open>Send\<close>) or not
  (\<open>Post\<close>). The flags \<open>completed\<close> and \<open>timed_out\<close> are shared between the queue, the completion
  handler and the deadline timer, so they are kept by identity in the client.
\<close>

record pending_write =
  pw_id :: nat
  pw_buf :: bytes
  pw_promise :: bool

datatype ws_task = TaskEnqueue pending_write | TaskClose

record ws_client =
  ws_cfg :: ws_config
  ws_verify :: verify_mode
  ws_anchors :: trust_anchors
  has_stream :: bool
  socket_closed :: bool
  ws_open :: bool
  closing :: bool
  write_queue :: "pending_write list"
  write_in_flight :: bool
  ws_tasks :: "ws_task list"
  next_pw :: nat
  sends :: "nat list"
  pw_completed :: "nat list"
  pw_timed_out :: "nat list"
  outstanding :: "pending_write list"
  results :: "(nat \<times> sdk_exception option) list"
  async_closing :: bool
  draining :: bool
  close_calls :: "(error_code \<times> string) list"
  received :: "bytes list"
  taken :: "pending_write list"
  written :: "pending_write list"
  discarded :: "pending_write list"

definition ws_initial :: "ws_config \<Rightarrow> verify_mode \<Rightarrow> trust_anchors \<Rightarrow> ws_client" where
  "ws_initial cfg v a =
    \<lparr>ws_cfg = cfg, ws_verify = v, ws_anchors = a, has_stream = False, socket_closed = False,
     ws_open = False, closing = False, write_queue = [], write_in_flight = False, ws_tasks = [],
     next_pw = 0, sends = [], pw_completed = [], pw_timed_out = [], outstanding = [],
     results = [], async_closing = False, draining = False, close_calls = [], received = [],
     taken = [], written = [], discarded = []\<rparr>"

definition ws_client_new :: "ssl_lib \<Rightarrow> ws_config \<Rightarrow> sdk_exception + ws_client" where
  "ws_client_new ssl cfg =
    (let verified =
          (if wc_insecure_skip_verify cfg then Inr (VerifyNone, NoAnchors)
           else if wc_ca_pem cfg \<noteq> []
           then (case load_pem_ca ssl (wc_ca_pem cfg) of
                   Some e \<Rightarrow> Inl (sdk_exn EcAuthFailed (''invalid ca_pem: '' @ e))
                 | None \<Rightarrow> Inr (VerifyPeer, OwnCa (wc_ca_pem cfg)))
           else Inr (VerifyPeer, SystemPaths))
     in case verified of
          Inl e \<Rightarrow> Inl e
        | Inr (v, a) \<Rightarrow>
            if wc_cert_pem cfg \<noteq> []
            then (case load_pem_certificate ssl (wc_cert_pem cfg) of
                    Some e \<Rightarrow> Inl (sdk_exn EcAuthFailed (''invalid cert/key pem: '' @ e))
                  | None \<Rightarrow>
                      (case load_pem_private_key ssl (wc_key_pem cfg) of
                         Some e \<Rightarrow> Inl (sdk_exn EcAuthFailed (''invalid cert/key pem: '' @ e))
                       | None \<Rightarrow> Inr (ws_initial cfg v a)))
            else Inr (ws_initial cfg v a))"

text \<open>
  \<open>Connect\<close>: \<open>signalled\<close> is what the attempt put into its promise within the grace period, if it put
  anything (see \<open>at_done\<close>).
\<close>

definition ws_connect ::
  "sdk_exception option option \<Rightarrow> ws_client \<Rightarrow> sdk_exception + ws_client" where
  "ws_connect signalled w =
    (case split_endpoint (wc_endpoint (ws_cfg w)) of
       Inl e \<Rightarrow> Inl e
     | Inr _ \<Rightarrow>
         (case signalled of
            None \<Rightarrow> Inl (sdk_exn EcTimeout ''connect timeout (internal: chain did not signal)'')
          | Some (Some e) \<Rightarrow> Inl e
          | Some None \<Rightarrow> Inr (w\<lparr>has_stream := True, ws_open := True\<rparr>)))"

text \<open>Fulfil the promise of a write once: \<open>completed->exchange(true)\<close>.\<close>

definition complete_write ::
  "pending_write \<Rightarrow> sdk_exception option \<Rightarrow> ws_client \<Rightarrow> ws_client" where
  "complete_write pw r w =
    (if pw_id pw \<in> set (pw_completed w) then w
     else let w1 = w\<lparr>pw_completed := pw_id pw # pw_completed w\<rparr>
          in if pw_promise pw then w1\<lparr>results := results w1 @ [(pw_id pw, r)]\<rparr> else w1)"

fun drop_all :: "pending_write list \<Rightarrow> ws_client \<Rightarrow> ws_client" where
  "drop_all [] w = w"
| "drop_all (pw # pws) w =
     drop_all pws (complete_write pw (Some (sdk_exn EcTransportFailure ''ws not open''))
       (w\<lparr>discarded := discarded w @ [pw]\<rparr>))"

definition process_write_queue :: "ws_client \<Rightarrow> ws_client" where
  "process_write_queue w =
    (case write_queue w of
       [] \<Rightarrow> w\<lparr>write_in_flight := False\<rparr>
     | pw # pws \<Rightarrow>
         if \<not> has_stream w \<or> \<not> ws_open w
         then (drop_all (pw # pws) w)\<lparr>write_queue := [], write_in_flight := False\<rparr>
         else w\<lparr>write_in_flight := True, outstanding := outstanding w @ [pw]\<rparr>)"

definition enqueue_write :: "pending_write \<Rightarrow> ws_client \<Rightarrow> ws_client" where
  "enqueue_write pw w =
    (if closing w \<or> \<not> ws_open w \<or> \<not> has_stream w
     then complete_write pw (Some (sdk_exn EcTransportFailure ''ws closing or not open'')) w
     else let w1 = w\<lparr>write_queue := write_queue w @ [pw], taken := taken w @ [pw]\<rparr>
          in if \<not> write_in_flight w1 then process_write_queue w1 else w1)"

definition on_disconnect :: "error_code \<Rightarrow> string \<Rightarrow> ws_client \<Rightarrow> ws_client" where
  "on_disconnect reason msg w =
    (let was_open = ws_open w; w1 = w\<lparr>ws_open := False\<rparr>
     in if \<not> was_open then w1 else w1\<lparr>close_calls := close_calls w1 @ [(reason, msg)]\<rparr>)"

text \<open>The completion handler of \<open>async_write\<close> for the write at the head of the queue.\<close>

definition on_write_done :: "pending_write \<Rightarrow> io_error option \<Rightarrow> ws_client \<Rightarrow> ws_client" where
  "on_write_done pw ec w =
    (let w1 = (case write_queue w of
                 [] \<Rightarrow> w
               | p # ps \<Rightarrow> w\<lparr>write_queue := ps, written := written w @ [p]\<rparr>);
         late = (pw_id pw \<in> set (pw_timed_out w1));
         r = (if late then Some (sdk_exn EcTimeout ''send timeout'')
              else case ec of
                Some e \<Rightarrow> Some (sdk_exn EcTransportFailure (''send: '' @ io_message e))
              | None \<Rightarrow> None);
         fresh = (pw_id pw \<notin> set (pw_completed w1));
         w2 = complete_write pw r w1;
         w3 = (case ec of
                 Some e \<Rightarrow>
                   if fresh \<and> \<not> pw_promise pw \<and> \<not> late
                   then on_disconnect EcTransportFailure (io_message e) w2 else w2
               | None \<Rightarrow> w2)
     in process_write_queue w3)"

definition do_async_close :: "ws_client \<Rightarrow> ws_client" where
  "do_async_close w =
    (if \<not> has_stream w \<or> \<not> ws_open w then w else w\<lparr>async_closing := True\<rparr>)"

definition start_drain_and_close :: "ws_client \<Rightarrow> ws_client" where
  "start_drain_and_close w =
    (if write_queue w = [] \<and> \<not> write_in_flight w
     then do_async_close (w\<lparr>draining := False\<rparr>)
     else w\<lparr>draining := True\<rparr>)"

text \<open>Handlers the client's thread runs from its queue.\<close>

fun run_task :: "ws_task \<Rightarrow> ws_client \<Rightarrow> ws_client" where
  "run_task (TaskEnqueue pw) w = enqueue_write pw w"
| "run_task TaskClose w =
     (if \<not> has_stream w \<or> \<not> ws_open w then w
      else if write_in_flight w then start_drain_and_close w
      else do_async_close w)"

text \<open>The calls of other threads.\<close>

definition ws_post :: "bytes \<Rightarrow> ws_client \<Rightarrow> bool \<times> ws_client" where
  "ws_post buf w =
    (if \<not> ws_open w \<or> closing w then (False, w)
     else (True, w\<lparr>ws_tasks := ws_tasks w
                    @ [TaskEnqueue \<lparr>pw_id = next_pw w, pw_buf = buf, pw_promise = False\<rparr>],
                  next_pw := Suc (next_pw w)\<rparr>))"

definition ws_send :: "bytes \<Rightarrow> ws_client \<Rightarrow> sdk_exception + (nat \<times> ws_client)" where
  "ws_send buf w =
    (if \<not> ws_open w then Inl (sdk_exn EcTransportFailure ''ws not open'')
     else Inr (next_pw w, w\<lparr>ws_tasks := ws_tasks w
                    @ [TaskEnqueue \<lparr>pw_id = next_pw w, pw_buf = buf, pw_promise = True\<rparr>],
                  sends := next_pw w # sends w, next_pw := Suc (next_pw w)\<rparr>))"

text \<open>What \<open>Send\<close> returns or throws when its wait of \<open>write_timeout + 1s\<close> ends.\<close>

definition ws_send_result :: "nat \<Rightarrow> ws_client \<Rightarrow> sdk_exception option" where
  "ws_send_result i w =
    (case map_of (results w) i of
       None \<Rightarrow> Some (sdk_exn EcTimeout ''send timeout (internal: write chain did not signal)'')
     | Some r \<Rightarrow> r)"

definition ws_close :: "ws_client \<Rightarrow> ws_client" where
  "ws_close w =
    (if closing w then w
     else let w1 = w\<lparr>closing := True\<rparr>
          in if \<not> ws_open w1 then w1 else w1\<lparr>ws_tasks := ws_tasks w1 @ [TaskClose]\<rparr>)"

text \<open>The deadline timer of a \<open>Send\<close>.\<close>

definition on_send_deadline :: "nat \<Rightarrow> ws_client \<Rightarrow> ws_client" where
  "on_send_deadline i w =
    (if i \<in> set (pw_completed w) then w
     else let w1 = w\<lparr>pw_timed_out := i # pw_timed_out w\<rparr>
          in if has_stream w1 then w1\<lparr>socket_closed := True\<rparr> else w1)"

definition on_read :: "io_error + bytes \<Rightarrow> ws_client \<Rightarrow> ws_client" where
  "on_read r w =
    (case r of
       Inl ec \<Rightarrow>
         let reason = (case ec of IoClosed _ \<Rightarrow> EcCancelled | IoEof _ \<Rightarrow> EcCancelled
                       | _ \<Rightarrow> EcTransportFailure)
         in on_disconnect reason (io_message ec) w
     | Inr msg \<Rightarrow> w\<lparr>received := received w @ [msg]\<rparr>)"

text \<open>
  The destructor, on another thread than the client's own (on that one it ends the program): the socket is
  closed and the \<open>io_context\<close> stopped, so that the handlers still queued are destroyed without being run.
\<close>

definition ws_destroy :: "ws_client \<Rightarrow> ws_client" where
  "ws_destroy w =
    (let w1 = w\<lparr>closing := True, ws_open := False\<rparr>;
         w2 = (if has_stream w1 then w1\<lparr>socket_closed := True\<rparr> else w1)
     in w2\<lparr>ws_tasks := [], outstanding := [], draining := False, async_closing := False\<rparr>)"

section \<open>Interleavings\<close>

inductive ws_step :: "ws_client \<Rightarrow> ws_client \<Rightarrow> bool" where
  connected: "\<not> has_stream w \<Longrightarrow> ws_connect sig w = Inr w' \<Longrightarrow> ws_step w w'"
| post: "ws_step w (snd (ws_post buf w))"
| send: "ws_send buf w = Inr (i, w') \<Longrightarrow> ws_step w w'"
| close: "ws_step w (ws_close w)"
| task: "ws_tasks w = t # ts \<Longrightarrow> ws_step w (run_task t (w\<lparr>ws_tasks := ts\<rparr>))"
| write_done: "outstanding w = pw # rest \<Longrightarrow>
    ws_step w (on_write_done pw ec (w\<lparr>outstanding := rest\<rparr>))"
| deadline: "i \<in> set (sends w) \<Longrightarrow> ws_step w (on_send_deadline i w)"
| read: "has_stream w \<Longrightarrow> ws_open w \<Longrightarrow> ws_step w (on_read r w)"
| drain_tick: "draining w \<Longrightarrow> ws_step w (start_drain_and_close w)"
| close_done: "async_closing w \<Longrightarrow> ws_step w (w\<lparr>ws_open := False\<rparr>)"

inductive_cases ws_stepE: "ws_step w w'"

text \<open>A client that had connected and is destroyed reports, writes and answers nothing more.\<close>

lemma ws_destroyed_silent:
  assumes "has_stream w" "ws_step (ws_destroy w) w'"
  shows "close_calls w' = close_calls w \<and> written w' = written w \<and> results w' = results w \<and> ws_tasks w' = []"
  using assms(2)
  by (rule ws_stepE)
    (use assms(1) in \<open>auto simp: ws_destroy_def ws_post_def ws_send_def ws_close_def on_send_deadline_def Let_def\<close>)

definition ws_start :: "ws_client \<Rightarrow> bool" where
  "ws_start w \<longleftrightarrow> (\<exists>ssl cfg. ws_client_new ssl cfg = Inr w)"

definition flight_ok :: "ws_client \<Rightarrow> bool" where
  "flight_ok w \<longleftrightarrow>
    outstanding w = take 1 (write_queue w) \<and> (write_in_flight w \<longleftrightarrow> write_queue w \<noteq> [])"

definition results_ok :: "ws_client \<Rightarrow> bool" where
  "results_ok w \<longleftrightarrow>
    distinct (map fst (results w)) \<and> set (map fst (results w)) \<subseteq> set (pw_completed w)"

definition open_ok :: "ws_client \<Rightarrow> bool" where
  "open_ok w \<longleftrightarrow> (ws_open w \<longrightarrow> has_stream w \<and> discarded w = [] \<and> close_calls w = [])
    \<and> (\<not> has_stream w \<longrightarrow> discarded w = [] \<and> close_calls w = [] \<and> write_queue w = [])
    \<and> (discarded w \<noteq> [] \<longrightarrow> write_queue w = []) \<and> length (close_calls w) \<le> 1"

definition ws_inv :: "ws_client \<Rightarrow> bool" where
  "ws_inv w \<longleftrightarrow> flight_ok w \<and> open_ok w \<and> results_ok w"

lemma complete_write_frame [simp]:
  "write_queue (complete_write pw r w) = write_queue w"
  "write_in_flight (complete_write pw r w) = write_in_flight w"
  "outstanding (complete_write pw r w) = outstanding w"
  "ws_open (complete_write pw r w) = ws_open w"
  "has_stream (complete_write pw r w) = has_stream w"
  "closing (complete_write pw r w) = closing w"
  "close_calls (complete_write pw r w) = close_calls w"
  "discarded (complete_write pw r w) = discarded w"
  "written (complete_write pw r w) = written w"
  "taken (complete_write pw r w) = taken w"
  "ws_tasks (complete_write pw r w) = ws_tasks w"
  by (simp_all add: complete_write_def Let_def)

lemma results_ok_complete [simp]: "results_ok w \<Longrightarrow> results_ok (complete_write pw r w)"
  by (auto simp: results_ok_def complete_write_def Let_def)

lemma results_ok_cong:
  "results w' = results w \<Longrightarrow> pw_completed w' = pw_completed w \<Longrightarrow> results_ok w' = results_ok w"
  by (simp add: results_ok_def)

lemma drop_all_frame [simp]:
  "write_queue (drop_all pws w) = write_queue w"
  "write_in_flight (drop_all pws w) = write_in_flight w"
  "outstanding (drop_all pws w) = outstanding w"
  "ws_open (drop_all pws w) = ws_open w"
  "has_stream (drop_all pws w) = has_stream w"
  "closing (drop_all pws w) = closing w"
  "close_calls (drop_all pws w) = close_calls w"
  "discarded (drop_all pws w) = discarded w @ pws"
  "written (drop_all pws w) = written w"
  "taken (drop_all pws w) = taken w"
  by (induction pws arbitrary: w) simp_all

lemma results_ok_discard [simp]: "results_ok (w\<lparr>discarded := d\<rparr>) = results_ok w"
  by (simp add: results_ok_def)

lemma results_ok_drop_all [simp]: "results_ok w \<Longrightarrow> results_ok (drop_all pws w)"
  by (induction pws arbitrary: w) simp_all

lemma results_ok_upd [simp]:
  "results_ok (w\<lparr>write_queue := q\<rparr>) = results_ok w"
  "results_ok (w\<lparr>write_in_flight := b\<rparr>) = results_ok w"
  "results_ok (w\<lparr>outstanding := out\<rparr>) = results_ok w"
  "results_ok (w\<lparr>ws_open := b\<rparr>) = results_ok w"
  "results_ok (w\<lparr>written := ps\<rparr>) = results_ok w"
  "results_ok (w\<lparr>taken := ps\<rparr>) = results_ok w"
  "results_ok (w\<lparr>ws_tasks := ts\<rparr>) = results_ok w"
  "results_ok (w\<lparr>close_calls := cs\<rparr>) = results_ok w"
  "results_ok (w\<lparr>async_closing := b\<rparr>) = results_ok w"
  "results_ok (w\<lparr>draining := b\<rparr>) = results_ok w"
  "results_ok (w\<lparr>closing := b\<rparr>) = results_ok w"
  "results_ok (w\<lparr>sends := ns\<rparr>) = results_ok w"
  "results_ok (w\<lparr>next_pw := n\<rparr>) = results_ok w"
  "results_ok (w\<lparr>has_stream := b\<rparr>) = results_ok w"
  "results_ok (w\<lparr>socket_closed := b\<rparr>) = results_ok w"
  "results_ok (w\<lparr>pw_timed_out := ns\<rparr>) = results_ok w"
  "results_ok (w\<lparr>received := ms\<rparr>) = results_ok w"
  by (simp_all add: results_ok_def)

lemma flight_ok_upd [simp]:
  "flight_ok (w\<lparr>ws_open := b\<rparr>) = flight_ok w"
  "flight_ok (w\<lparr>written := ps\<rparr>) = flight_ok w"
  "flight_ok (w\<lparr>taken := ps\<rparr>) = flight_ok w"
  "flight_ok (w\<lparr>ws_tasks := ts\<rparr>) = flight_ok w"
  "flight_ok (w\<lparr>close_calls := cs\<rparr>) = flight_ok w"
  "flight_ok (w\<lparr>async_closing := b\<rparr>) = flight_ok w"
  "flight_ok (w\<lparr>draining := b\<rparr>) = flight_ok w"
  "flight_ok (w\<lparr>closing := b\<rparr>) = flight_ok w"
  "flight_ok (w\<lparr>sends := ns\<rparr>) = flight_ok w"
  "flight_ok (w\<lparr>next_pw := n\<rparr>) = flight_ok w"
  "flight_ok (w\<lparr>has_stream := b\<rparr>) = flight_ok w"
  "flight_ok (w\<lparr>socket_closed := b\<rparr>) = flight_ok w"
  "flight_ok (w\<lparr>pw_timed_out := ns\<rparr>) = flight_ok w"
  "flight_ok (w\<lparr>received := ms\<rparr>) = flight_ok w"
  "flight_ok (complete_write pw r w) = flight_ok w"
  by (simp_all add: flight_ok_def)

lemma open_ok_upd [simp]:
  "open_ok (w\<lparr>write_in_flight := b\<rparr>) = open_ok w"
  "open_ok (w\<lparr>outstanding := out\<rparr>) = open_ok w"
  "open_ok (w\<lparr>written := ps\<rparr>) = open_ok w"
  "open_ok (w\<lparr>taken := ps\<rparr>) = open_ok w"
  "open_ok (w\<lparr>ws_tasks := ts\<rparr>) = open_ok w"
  "open_ok (w\<lparr>async_closing := b\<rparr>) = open_ok w"
  "open_ok (w\<lparr>draining := b\<rparr>) = open_ok w"
  "open_ok (w\<lparr>closing := b\<rparr>) = open_ok w"
  "open_ok (w\<lparr>sends := ns\<rparr>) = open_ok w"
  "open_ok (w\<lparr>next_pw := n\<rparr>) = open_ok w"
  "open_ok (w\<lparr>socket_closed := b\<rparr>) = open_ok w"
  "open_ok (w\<lparr>pw_timed_out := ns\<rparr>) = open_ok w"
  "open_ok (w\<lparr>received := ms\<rparr>) = open_ok w"
  "open_ok (complete_write pw r w) = open_ok w"
  by (simp_all add: open_ok_def)

lemma ws_inv_upd [simp]:
  "ws_inv w \<Longrightarrow> ws_inv (w\<lparr>ws_tasks := ts\<rparr>)"
  "ws_inv w \<Longrightarrow> ws_inv (w\<lparr>ws_open := False\<rparr>)"
  "ws_inv w \<Longrightarrow> ws_inv (w\<lparr>async_closing := b\<rparr>)"
  "ws_inv w \<Longrightarrow> ws_inv (w\<lparr>draining := b\<rparr>)"
  "ws_inv w \<Longrightarrow> ws_inv (w\<lparr>closing := b\<rparr>)"
  "ws_inv w \<Longrightarrow> ws_inv (w\<lparr>sends := ns\<rparr>)"
  "ws_inv w \<Longrightarrow> ws_inv (w\<lparr>next_pw := n\<rparr>)"
  "ws_inv w \<Longrightarrow> ws_inv (w\<lparr>socket_closed := b\<rparr>)"
  "ws_inv w \<Longrightarrow> ws_inv (w\<lparr>pw_timed_out := ns\<rparr>)"
  "ws_inv w \<Longrightarrow> ws_inv (w\<lparr>received := ms\<rparr>)"
  "ws_inv w \<Longrightarrow> ws_inv (w\<lparr>written := ps\<rparr>)"
  "ws_inv w \<Longrightarrow> ws_inv (w\<lparr>taken := ps\<rparr>)"
  "ws_inv w \<Longrightarrow> ws_inv (complete_write pw r w)"
  by (simp_all add: ws_inv_def) (simp add: open_ok_def)

text \<open>\<open>ProcessWriteQueue\<close> restores the invariant once the completed write is out of the way.\<close>

definition between_writes :: "ws_client \<Rightarrow> bool" where
  "between_writes w \<longleftrightarrow> outstanding w = [] \<and> open_ok w \<and> results_ok w"

lemma ws_inv_process:
  assumes "between_writes w" "has_stream w"
  shows "ws_inv (process_write_queue w)"
proof (cases "write_queue w")
  case Nil
  then show ?thesis
    using assms by (simp add: between_writes_def process_write_queue_def ws_inv_def flight_ok_def)
next
  case (Cons p ps)
  show ?thesis
  proof (cases "ws_open w")
    case True
    with Cons show ?thesis
      using assms by (simp add: between_writes_def process_write_queue_def ws_inv_def flight_ok_def)
  next
    case False
    with Cons have "process_write_queue w
        = (drop_all (p # ps) w)\<lparr>write_queue := [], write_in_flight := False\<rparr>"
      by (simp add: process_write_queue_def)
    moreover have "results_ok (drop_all (p # ps) w)"
      using assms by (simp add: between_writes_def del: drop_all.simps)
    ultimately show ?thesis
      using assms False
      by (simp add: between_writes_def ws_inv_def flight_ok_def open_ok_def del: drop_all.simps)
  qed
qed

lemma ws_inv_enqueue:
  assumes "ws_inv w"
  shows "ws_inv (enqueue_write pw w)"
proof (cases "closing w \<or> \<not> ws_open w \<or> \<not> has_stream w")
  case True
  then show ?thesis using assms by (simp add: enqueue_write_def)
next
  case False
  let ?w = "w\<lparr>write_queue := write_queue w @ [pw], taken := taken w @ [pw]\<rparr>"
  have ok: "open_ok ?w" "results_ok ?w"
    using assms False by (simp_all add: ws_inv_def open_ok_def)
  show ?thesis
  proof (cases "write_in_flight w")
    case True
    then show ?thesis
      using assms False ok by (cases "write_queue w") (simp_all add: enqueue_write_def ws_inv_def flight_ok_def)
  next
    case idle: False
    then have "between_writes ?w"
      using assms ok by (simp add: between_writes_def ws_inv_def flight_ok_def)
    then show ?thesis
      using False idle ws_inv_process [of ?w] by (simp add: enqueue_write_def)
  qed
qed

lemma open_ok_disconnect: "open_ok w \<Longrightarrow> open_ok (on_disconnect reason msg w)"
  by (cases "ws_open w") (simp_all add: open_ok_def on_disconnect_def)

lemma on_disconnect_frame [simp]:
  "flight_ok (on_disconnect reason msg w) = flight_ok w"
  "results_ok (on_disconnect reason msg w) = results_ok w"
  "outstanding (on_disconnect reason msg w) = outstanding w"
  "has_stream (on_disconnect reason msg w) = has_stream w"
  "write_queue (on_disconnect reason msg w) = write_queue w"
  "taken (on_disconnect reason msg w) = taken w"
  "written (on_disconnect reason msg w) = written w"
  "discarded (on_disconnect reason msg w) = discarded w"
  by (simp_all add: on_disconnect_def Let_def)

lemma ws_inv_on_disconnect: "ws_inv w \<Longrightarrow> ws_inv (on_disconnect reason msg w)"
  by (simp add: ws_inv_def open_ok_disconnect)

text \<open>What the completion handler leaves for \<open>ProcessWriteQueue\<close>.\<close>

definition after_write :: "pending_write \<Rightarrow> io_error option \<Rightarrow> ws_client \<Rightarrow> ws_client \<Rightarrow> bool" where
  "after_write pw ec w w' \<longleftrightarrow>
     on_write_done pw ec w = process_write_queue w' \<and> between_writes w' \<and> has_stream w'
     \<and> write_queue w' = tl (write_queue w) \<and> written w' = written w @ take 1 (write_queue w)
     \<and> taken w' = taken w \<and> discarded w' = discarded w"

lemma on_write_done_split:
  assumes inv: "ws_inv w" and out: "outstanding w = pw # rest"
  shows "\<exists>w'. after_write pw ec (w\<lparr>outstanding := rest\<rparr>) w'"
proof -
  obtain ps where q: "write_queue w = pw # ps" "rest = []"
    using assms by (cases "write_queue w") (auto simp: ws_inv_def flight_ok_def)
  let ?w1 = "w\<lparr>outstanding := [], write_queue := ps, written := written w @ [pw]\<rparr>"
  have ok: "open_ok ?w1" "results_ok ?w1" "has_stream ?w1"
    using inv q by (auto simp: ws_inv_def open_ok_def)
  define late where "late \<longleftrightarrow> pw_id pw \<in> set (pw_timed_out w)"
  define fresh where "fresh \<longleftrightarrow> pw_id pw \<notin> set (pw_completed w)"
  define r where "r = (if late then Some (sdk_exn EcTimeout ''send timeout'')
    else case ec of
      Some e \<Rightarrow> Some (sdk_exn EcTransportFailure (''send: '' @ io_message e)) | None \<Rightarrow> None)"
  define w2 where "w2 = complete_write pw r ?w1"
  define w3 where "w3 = (case ec of
      Some e \<Rightarrow> if fresh \<and> \<not> pw_promise pw \<and> \<not> late
                then on_disconnect EcTransportFailure (io_message e) w2 else w2
    | None \<Rightarrow> w2)"
  have run: "on_write_done pw ec (w\<lparr>outstanding := rest\<rparr>) = process_write_queue w3"
    using q unfolding on_write_done_def w3_def w2_def r_def late_def fresh_def Let_def
    by (cases ec) simp_all
  have w2: "between_writes w2" "has_stream w2" "write_queue w2 = ps"
      "written w2 = written w @ [pw]" "taken w2 = taken w" "discarded w2 = discarded w"
    using ok by (simp_all add: w2_def between_writes_def)
  then have "between_writes w3 \<and> has_stream w3 \<and> write_queue w3 = ps
      \<and> written w3 = written w @ [pw] \<and> taken w3 = taken w \<and> discarded w3 = discarded w"
    by (simp add: w3_def between_writes_def open_ok_disconnect split: option.splits)
  then show ?thesis using run q unfolding after_write_def by (intro exI [of _ w3]) simp
qed

lemma ws_inv_write_done:
  "ws_inv w \<Longrightarrow> outstanding w = pw # rest \<Longrightarrow>
    ws_inv (on_write_done pw ec (w\<lparr>outstanding := rest\<rparr>))"
  using on_write_done_split [of w pw rest ec] ws_inv_process by (auto simp: after_write_def)

lemma ws_inv_close_async: "ws_inv w \<Longrightarrow> ws_inv (do_async_close w)"
  by (simp add: do_async_close_def)

lemma ws_inv_drain: "ws_inv w \<Longrightarrow> ws_inv (start_drain_and_close w)"
  by (simp add: start_drain_and_close_def ws_inv_close_async)

lemma ws_inv_run_task: "ws_inv w \<Longrightarrow> ws_inv (run_task t (w\<lparr>ws_tasks := ts\<rparr>))"
  by (cases t) (simp_all add: ws_inv_enqueue ws_inv_drain ws_inv_close_async)

lemma ws_inv_post: "ws_inv w \<Longrightarrow> ws_inv (snd (ws_post buf w))"
  by (simp add: ws_post_def)

lemma ws_inv_send: "ws_inv w \<Longrightarrow> ws_send buf w = Inr (i, w') \<Longrightarrow> ws_inv w'"
  by (auto simp: ws_send_def split: if_splits)

lemma ws_inv_close: "ws_inv w \<Longrightarrow> ws_inv (ws_close w)"
  by (simp add: ws_close_def Let_def)

lemma ws_inv_deadline: "ws_inv w \<Longrightarrow> ws_inv (on_send_deadline i w)"
  by (simp add: on_send_deadline_def Let_def)

lemma ws_inv_on_read: "ws_inv w \<Longrightarrow> ws_inv (on_read r w)"
  by (cases r) (simp_all add: on_read_def ws_inv_on_disconnect Let_def)

lemma ws_inv_connect:
  assumes "ws_inv w" "\<not> has_stream w" "ws_connect sig w = Inr w'"
  shows "ws_inv w'"
proof -
  have "w' = w\<lparr>has_stream := True, ws_open := True\<rparr>"
    using assms(3) by (auto simp: ws_connect_def split: sum.splits option.splits)
  then show ?thesis using assms(1,2) by (simp add: ws_inv_def open_ok_def)
qed

lemma ws_inv_step: "ws_inv w \<Longrightarrow> ws_step w w' \<Longrightarrow> ws_inv w'"
  by (erule ws_stepE)
    (blast intro: ws_inv_write_done ws_inv_run_task ws_inv_post ws_inv_send ws_inv_close
      ws_inv_deadline ws_inv_drain ws_inv_on_read ws_inv_connect ws_inv_upd)+

lemma ws_client_new_initial:
  "ws_client_new ssl cfg = Inr w \<Longrightarrow> \<exists>v a. w = ws_initial cfg v a"
  by (auto simp: ws_client_new_def Let_def split: sum.splits option.splits if_splits prod.splits)

lemma ws_start_fields:
  assumes "ws_start w"
  shows "ws_inv w" "taken w = []" "written w = []" "discarded w = []" "write_queue w = []"
proof -
  obtain cfg v a where "w = ws_initial cfg v a"
    using assms ws_client_new_initial unfolding ws_start_def by blast
  then show "ws_inv w" "taken w = []" "written w = []" "discarded w = []" "write_queue w = []"
    by (simp_all add: ws_initial_def ws_inv_def flight_ok_def open_ok_def results_ok_def)
qed

section \<open>The order of the writes\<close>

definition ws_history :: "ws_client \<Rightarrow> bool" where
  "ws_history w \<longleftrightarrow> taken w = written w @ discarded w @ write_queue w"

lemma ws_history_frame:
  "taken w' = taken w \<Longrightarrow> written w' = written w \<Longrightarrow> discarded w' = discarded w \<Longrightarrow>
    write_queue w' = write_queue w \<Longrightarrow> ws_history w \<Longrightarrow> ws_history w'"
  by (simp add: ws_history_def)

lemma ws_history_process: "ws_history w \<Longrightarrow> ws_history (process_write_queue w)"
  by (simp add: ws_history_def process_write_queue_def del: drop_all.simps split: list.splits)

lemma ws_history_enqueue:
  assumes "ws_history w" "ws_inv w"
  shows "ws_history (enqueue_write pw w)"
proof -
  have "ws_open w \<Longrightarrow> ws_history (w\<lparr>write_queue := write_queue w @ [pw], taken := taken w @ [pw]\<rparr>)"
    using assms by (simp add: ws_history_def)
  then show ?thesis
    using assms(1) by (auto simp: enqueue_write_def Let_def intro: ws_history_process ws_history_frame)
qed

lemma ws_history_write_done:
  assumes "ws_history w" "ws_inv w" "outstanding w = pw # rest"
  shows "ws_history (on_write_done pw ec (w\<lparr>outstanding := rest\<rparr>))"
proof -
  obtain w' where w': "after_write pw ec (w\<lparr>outstanding := rest\<rparr>) w'"
    using on_write_done_split [OF assms(2,3)] by blast
  obtain ps where q: "write_queue w = pw # ps"
    using assms by (cases "write_queue w") (auto simp: ws_inv_def flight_ok_def)
  then have "discarded w = []" using assms(2) by (auto simp: ws_inv_def open_ok_def)
  then have "ws_history w'" using w' q assms(1) by (simp add: after_write_def ws_history_def)
  then show ?thesis using w' ws_history_process by (simp add: after_write_def)
qed

lemma ws_history_async: "ws_history w \<Longrightarrow> ws_history (do_async_close w)"
  by (simp add: do_async_close_def ws_history_def)

lemma ws_history_drain: "ws_history w \<Longrightarrow> ws_history (start_drain_and_close w)"
  by (simp add: start_drain_and_close_def do_async_close_def ws_history_def)

lemma ws_history_run_task:
  assumes "ws_history w" "ws_inv w"
  shows "ws_history (run_task t (w\<lparr>ws_tasks := ts\<rparr>))"
proof -
  have h: "ws_history (w\<lparr>ws_tasks := ts\<rparr>)" using assms(1) by (simp add: ws_history_def)
  show ?thesis
  proof (cases t)
    case (TaskEnqueue pw)
    then show ?thesis using ws_history_enqueue [OF h] assms(2) by simp
  next
    case TaskClose
    then show ?thesis using h by (simp add: ws_history_drain ws_history_async)
  qed
qed

lemma ws_history_calls:
  "ws_history w \<Longrightarrow> ws_history (snd (ws_post buf w))"
  "ws_history w \<Longrightarrow> ws_history (ws_close w)"
  "ws_history w \<Longrightarrow> ws_history (on_send_deadline i w)"
  "ws_history w \<Longrightarrow> ws_history (w\<lparr>ws_open := b\<rparr>)"
  by (simp_all add: ws_history_def ws_post_def ws_close_def on_send_deadline_def Let_def)

lemma ws_history_send: "ws_history w \<Longrightarrow> ws_send buf w = Inr (i, w') \<Longrightarrow> ws_history w'"
  by (auto simp: ws_send_def ws_history_def split: if_splits)

lemma ws_history_read: "ws_history w \<Longrightarrow> ws_history (on_read r w)"
  by (cases r) (simp_all add: ws_history_def on_read_def Let_def)

lemma ws_history_connect: "ws_history w \<Longrightarrow> ws_connect sig w = Inr w' \<Longrightarrow> ws_history w'"
  by (auto simp: ws_connect_def ws_history_def split: sum.splits option.splits)

lemma ws_history_step: "ws_history w \<Longrightarrow> ws_inv w \<Longrightarrow> ws_step w w' \<Longrightarrow> ws_history w'"
  by (erule ws_stepE)
    (blast intro: ws_history_write_done ws_history_run_task ws_history_calls ws_history_send
      ws_history_drain ws_history_read ws_history_connect)+

interpretation ws: fifo_channel ws_start ws_step ws_inv taken written discarded write_queue
proof
  show "ws_inv w" if "ws_start w" for w using ws_start_fields(1) [OF that] .
  show "ws_inv w'" if "ws_inv w" "ws_step w w'" for w w' using ws_inv_step [OF that] .
  show "taken w = written w @ discarded w @ write_queue w" if "ws_start w" for w
    using ws_start_fields [OF that] by simp
  show "taken w' = written w' @ discarded w' @ write_queue w'"
    if "ws_inv w" "taken w = written w @ discarded w @ write_queue w" "ws_step w w'" for w w'
    using ws_history_step [of w w'] that by (simp add: ws_history_def)
qed

section \<open>What the client promises\<close>

text \<open>A client that connected and was given two frames; the witnesses below run it.\<close>

definition ws_demo_config :: ws_config where
  "ws_demo_config =
    \<lparr>wc_endpoint = ''10.0.0.7:4434'', wc_path = ''/sdk'', wc_cert_pem = [], wc_key_pem = [],
     wc_ca_pem = [], wc_insecure_skip_verify = True, wc_connect_timeout = 5000,
     wc_write_timeout = 5000\<rparr>"

definition ws_demo_open :: ws_client where
  "ws_demo_open = (ws_initial ws_demo_config VerifyNone NoAnchors)\<lparr>has_stream := True, ws_open := True\<rparr>"

definition ws_demo_frame :: "nat \<Rightarrow> bytes \<Rightarrow> pending_write" where
  "ws_demo_frame i b = \<lparr>pw_id = i, pw_buf = b, pw_promise = False\<rparr>"

definition ws_demo_queued :: "bytes \<Rightarrow> bytes \<Rightarrow> ws_client" where
  "ws_demo_queued a b =
    (let w = snd (ws_post b (snd (ws_post a ws_demo_open)));
         w = run_task (TaskEnqueue (ws_demo_frame 0 a)) (w\<lparr>ws_tasks := [TaskEnqueue (ws_demo_frame 1 b)]\<rparr>)
     in run_task (TaskEnqueue (ws_demo_frame 1 b)) (w\<lparr>ws_tasks := []\<rparr>))"

lemmas ws_demo_defs =
  ws_demo_queued_def ws_demo_frame_def ws_demo_open_def ws_initial_def ws_demo_config_def
  ws_post_def enqueue_write_def process_write_queue_def Let_def

lemma ws_demo_start: "ws_start (ws_initial ws_demo_config VerifyNone NoAnchors)"
  unfolding ws_start_def
  by (intro exI [of _ undefined] exI [of _ ws_demo_config])
    (simp add: ws_client_new_def ws_demo_config_def)

lemma ws_demo_open_reach: "reach ws_start ws_step ws_demo_open"
proof (rule reach_step [OF reach_start [of ws_start]])
  show "ws_start (ws_initial ws_demo_config VerifyNone NoAnchors)" by (rule ws_demo_start)
  have "ws_connect (Some None) (ws_initial ws_demo_config VerifyNone NoAnchors) = Inr ws_demo_open"
    by (simp add: ws_connect_def ws_demo_open_def ws_initial_def ws_demo_config_def split_endpoint_def)
  then show "ws_step (ws_initial ws_demo_config VerifyNone NoAnchors) ws_demo_open"
    by (intro ws_step.connected) (simp_all add: ws_initial_def)
qed

lemma ws_reach_post: "reach ws_start ws_step w \<Longrightarrow> reach ws_start ws_step (snd (ws_post buf w))"
  by (erule reach_step) (rule ws_step.post)

lemma ws_reach_write_done:
  "reach ws_start ws_step w \<Longrightarrow> outstanding w = [pw] \<Longrightarrow>
    reach ws_start ws_step (on_write_done pw ec (w\<lparr>outstanding := []\<rparr>))"
  by (erule reach_step) (erule ws_step.write_done)

lemma ws_demo_queued_reach: "reach ws_start ws_step (ws_demo_queued a b)"
proof -
  let ?w2 = "snd (ws_post b (snd (ws_post a ws_demo_open)))"
  let ?w3 = "run_task (TaskEnqueue (ws_demo_frame 0 a)) (?w2\<lparr>ws_tasks := [TaskEnqueue (ws_demo_frame 1 b)]\<rparr>)"
  have "reach ws_start ws_step ?w2" by (intro ws_reach_post ws_demo_open_reach)
  then have "reach ws_start ws_step ?w3"
    by (rule reach_step) (intro ws_step.task, simp add: ws_demo_defs)
  then show ?thesis
    unfolding ws_demo_queued_def Let_def
    by (rule reach_step) (intro ws_step.task, simp add: ws_demo_defs)
qed



text \<open>
  C31. Every disconnect is reported at most once, and only after the connection is marked as lost;
  and no \<open>Send\<close> is answered twice, whichever of the write's completion, its deadline and the
  discarding of the queue comes first.
\<close>

theorem ws_reports_once:
  assumes "reach ws_start ws_step w"
  shows "length (close_calls w) \<le> 1 \<and> (ws_open w \<longrightarrow> close_calls w = [])
    \<and> distinct (map fst (results w))"
  using ws.reach_inv [OF assms] by (auto simp: ws_inv_def open_ok_def results_ok_def)

theorem ws_reports_once_witness:
  "length (close_calls (on_write_done (ws_demo_frame 0 [1]) (Some (IoOther ''reset''))
      ((ws_demo_queued [1] [2])\<lparr>outstanding := []\<rparr>))) \<le> 1"
proof -
  have "reach ws_start ws_step (on_write_done (ws_demo_frame 0 [1]) (Some (IoOther ''reset''))
      ((ws_demo_queued [1] [2])\<lparr>outstanding := []\<rparr>))"
    by (rule ws_reach_write_done [OF ws_demo_queued_reach]) (simp add: ws_demo_defs)
  from ws_reports_once [OF this] show ?thesis by simp
qed

text \<open>
  C33. The answer of \<open>Post\<close> is not a promise to write: a frame it took (\<open>true\<close>) is dropped without a
  report when \<open>Close\<close> is called before the client's thread reaches the frame.
\<close>

theorem ws_post_then_close_drops:
  assumes "ws_open w" "\<not> closing w" "ws_tasks w = []"
  shows "fst (ws_post buf w)
    \<and> (\<exists>pw. ws_tasks (ws_close (snd (ws_post buf w))) = [TaskEnqueue pw, TaskClose] \<and> pw_buf pw = buf
        \<and> taken (run_task (TaskEnqueue pw) (ws_close (snd (ws_post buf w)))) = taken w
        \<and> results (run_task (TaskEnqueue pw) (ws_close (snd (ws_post buf w)))) = results w)"
  using assms
  by (simp add: ws_post_def ws_close_def enqueue_write_def complete_write_def)

theorem ws_post_then_close_drops_witness:
  "fst (ws_post [7] ws_demo_open) \<and> taken ws_demo_open = []"
  using ws_post_then_close_drops [of ws_demo_open "[7]"] by (simp add: ws_demo_open_def ws_initial_def)



text \<open>
  \<open>split_endpoint\<close> cuts at the last colon: a host with no port is refused with
  \<open>TransportFailure\<close>, and host and port are recovered whenever the port has no colon, IPv6 literals
  included.
\<close>

lemma split_endpoint_at_last_colon:
  assumes "CHR '':'' \<notin> set port"
  shows "split_endpoint (host @ '':'' @ port) = Inr (host, port)
    \<and> split_endpoint port = Inl (sdk_exn EcTransportFailure (''endpoint missing port: '' @ port))"
  using assms by (simp add: split_endpoint_def rfind_append rfind_None_iff [THEN iffD2])

end
