(* ===== verification/Log.thy ===== *)
theory Log
  imports Enums
begin

text \<open>
  \<open>src/log.hpp\<close> and \<open>src/log.cpp\<close>: the level parsed from \<open>KARO_SDK_LOG_LEVEL\<close>, the sink with its
  optional handler and its minimum level, and the default writer. A handler is an identifier: the
  model records which handler a line goes to, not what the user's code does with it. What the
  writer prints is returned, so that callers append it to their \<open>stderr\<close> trace.
\<close>

section \<open>Levels from the environment\<close>

definition tolower :: "char \<Rightarrow> char" where
  "tolower c = (let n = of_char c :: nat in if 65 \<le> n \<and> n \<le> 90 then char_of (n + 32) else c)"

text \<open>The level, and the warning line for a name it does not know.\<close>

definition parse_level :: "string \<Rightarrow> log_level \<times> string list" where
  "parse_level raw =
    (let s = map tolower raw in
     if s = ''trace'' then (LogTrace, [])
     else if s = ''debug'' then (LogDebug, [])
     else if s = ''info'' then (LogInfo, [])
     else if s = ''warn'' \<or> s = ''warning'' then (LogWarn, [])
     else if s = ''error'' then (LogError, [])
     else if s = ''off'' \<or> s = ''none'' then (LogOff, [])
     else (LogInfo, [''[karo-sdk] warning: unknown KARO_SDK_LOG_LEVEL='' @ raw
                       @ '', defaulting to info'' @ [CHR 10]]))"

text \<open>\<open>getenv\<close> gives no string when the variable is unset.\<close>

definition level_from_env :: "string option \<Rightarrow> log_level \<times> string list" where
  "level_from_env env =
    (case env of
       None \<Rightarrow> (LogInfo, [])
     | Some v \<Rightarrow> if v = [] then (LogInfo, []) else parse_level v)"

section \<open>The sink\<close>

record log_sink =
  ls_handler :: "nat option"
  ls_min_level :: log_level

definition log_sink_new :: "string option \<Rightarrow> log_sink" where
  "log_sink_new env = \<lparr>ls_handler = None, ls_min_level = fst (level_from_env env)\<rparr>"

definition set_handler :: "nat option \<Rightarrow> log_sink \<Rightarrow> log_sink" where
  "set_handler h l = l\<lparr>ls_handler := h\<rparr>"

definition take_handler :: "log_sink \<Rightarrow> nat option" where
  "take_handler l = ls_handler l"

definition set_min_level :: "log_level \<Rightarrow> log_sink \<Rightarrow> log_sink" where
  "set_min_level v l = l\<lparr>ls_min_level := v\<rparr>"

definition stderr_line :: "string \<Rightarrow> string \<Rightarrow> string" where
  "stderr_line lvl msg = ''[karo-sdk '' @ lvl @ ''] '' @ msg @ [CHR 10]"

fun default_stderr_write :: "log_level \<Rightarrow> string \<Rightarrow> string list" where
  "default_stderr_write LogTrace msg = [stderr_line ''trace'' msg]"
| "default_stderr_write LogDebug msg = [stderr_line ''debug'' msg]"
| "default_stderr_write LogInfo msg = [stderr_line ''info'' msg]"
| "default_stderr_write LogWarn msg = [stderr_line ''warn'' msg]"
| "default_stderr_write LogError msg = [stderr_line ''error'' msg]"
| "default_stderr_write LogOff msg = []"

lemma default_stderr_write_tag:
  "default_stderr_write l msg =
     (if l = LogOff then [] else [stderr_line (map tolower (log_level_name l)) msg])"
  by (cases l) (simp_all, code_simp+)

definition format_kv :: "string \<Rightarrow> string \<Rightarrow> string" where
  "format_kv key value = key @ ''='' @ value"

section \<open>Facts\<close>

lemma tolower_idem [simp]: "tolower (tolower c) = tolower c"
  by (simp add: tolower_def Let_def)

lemma map_tolower_idem [simp]: "map tolower (map tolower s) = map tolower s"
  by simp

lemma parse_level_level: "fst (parse_level (map tolower s)) = fst (parse_level s)"
  by (simp add: parse_level_def Let_def comp_def)

lemma level_from_env_unset [simp]: "level_from_env None = (LogInfo, [])" "level_from_env (Some []) = (LogInfo, [])"
  by (simp_all add: level_from_env_def)

lemma level_name_parses:
  "level_from_env (Some (log_level_name l)) = (l, [])"
  by (cases l; hypsubst; code_simp)

end
