(* ===== verification/RateLimiter.thy ===== *)
theory RateLimiter
  imports Prelude
begin

text \<open>
  \<open>src/rate_limiter.hpp\<close> and \<open>src/rate_limiter.cpp\<close>: the token bucket that limits \<open>CmdVel\<close>, and
  the watchdog. Times are readings of the steady clock in nanoseconds. The mutexes make each call
  atomic, so a call is a function of the state.
\<close>

section \<open>\<open>TokenBucket\<close>\<close>

record token_bucket =
  max_hz :: double
  burst :: double
  tokens :: double
  last :: int

definition token_bucket_new :: "double \<Rightarrow> double \<Rightarrow> int \<Rightarrow> token_bucket" where
  "token_bucket_new hz b now = \<lparr>max_hz = hz, burst = b, tokens = b, last = now\<rparr>"

definition elapsed_s :: "int \<Rightarrow> int \<Rightarrow> double" where
  "elapsed_s from until = real_of_int (until - from) / 1000000000"

definition kEpsilon :: double where
  "kEpsilon = 1 / 1000000000"

definition try_acquire_at :: "int \<Rightarrow> token_bucket \<Rightarrow> bool \<times> token_bucket" where
  "try_acquire_at now b =
    (let elapsed = elapsed_s (last b) now;
         t = min (burst b) (tokens b + elapsed * max_hz b)
     in if 1 - kEpsilon \<le> t
        then (True, b\<lparr>tokens := max 0 (t - 1), last := now\<rparr>)
        else (False, b\<lparr>tokens := t, last := now\<rparr>))"

text \<open>A run of calls: the answers, in order, and the bucket after them.\<close>

fun acquire_run :: "int list \<Rightarrow> token_bucket \<Rightarrow> bool list \<times> token_bucket" where
  "acquire_run [] b = ([], b)"
| "acquire_run (t # ts) b =
     (let (ok, b1) = try_acquire_at t b; (oks, b2) = acquire_run ts b1 in (ok # oks, b2))"

lemma acquire_run_Cons [simp]:
  "fst (acquire_run (t # ts) b) =
     fst (try_acquire_at t b) # fst (acquire_run ts (snd (try_acquire_at t b)))"
  "snd (acquire_run (t # ts) b) = snd (acquire_run ts (snd (try_acquire_at t b)))"
  by (simp_all split: prod.splits)

declare acquire_run.simps(2) [simp del]

definition bucket_ok :: "token_bucket \<Rightarrow> bool" where
  "bucket_ok b \<longleftrightarrow> 0 \<le> max_hz b \<and> 0 \<le> tokens b \<and> tokens b \<le> burst b"

text \<open>The calls come at readings of a monotonic clock.\<close>

definition monotonic_from :: "int \<Rightarrow> int list \<Rightarrow> bool" where
  "monotonic_from t0 ts \<longleftrightarrow> sorted (t0 # ts)"

lemma try_acquire_const [simp]:
  "max_hz (snd (try_acquire_at now b)) = max_hz b"
  "burst (snd (try_acquire_at now b)) = burst b"
  "last (snd (try_acquire_at now b)) = now"
  by (simp_all add: try_acquire_at_def Let_def)

lemma elapsed_nonneg: "s \<le> t \<Longrightarrow> 0 \<le> elapsed_s s t"
  by (simp add: elapsed_s_def)

lemma elapsed_refl [simp]: "elapsed_s t t = 0"
  by (simp add: elapsed_s_def)

lemma elapsed_add: "elapsed_s a b + elapsed_s b c = elapsed_s a c"
  by (simp add: elapsed_s_def add_divide_distrib [symmetric])

lemma try_acquire_ok:
  assumes "bucket_ok b" "last b \<le> now"
  shows "bucket_ok (snd (try_acquire_at now b))"
proof -
  have "0 \<le> tokens b + elapsed_s (last b) now * max_hz b"
    using assms by (simp add: bucket_ok_def elapsed_nonneg)
  with assms show ?thesis
    by (auto simp: bucket_ok_def try_acquire_at_def Let_def)
qed

text \<open>One call: what it takes from the bucket, beyond what has dripped in.\<close>

lemma try_acquire_spends:
  assumes "bucket_ok b" "last b \<le> now"
  shows "(if fst (try_acquire_at now b) then 1 - kEpsilon else 0)
          + tokens (snd (try_acquire_at now b))
        \<le> tokens b + elapsed_s (last b) now * max_hz b"
  by (simp add: try_acquire_at_def Let_def kEpsilon_def min_def max_def)

lemma acquire_run_budget:
  assumes "bucket_ok b" "monotonic_from (last b) ts"
  shows "real (length (filter (\<lambda>ok. ok) (fst (acquire_run ts b)))) * (1 - kEpsilon)
          + tokens (snd (acquire_run ts b))
        \<le> tokens b + elapsed_s (last b) (last (snd (acquire_run ts b))) * max_hz b
      \<and> 0 \<le> tokens (snd (acquire_run ts b))
      \<and> last (snd (acquire_run ts b)) = (if ts = [] then last b else List.last ts)"
  using assms
proof (induction ts arbitrary: b)
  case Nil
  then show ?case by (simp add: bucket_ok_def)
next
  case (Cons t ts)
  define b1 where "b1 = snd (try_acquire_at t b)"
  have le: "last b \<le> t" and mono: "monotonic_from t ts"
    using Cons.prems(2) by (auto simp: monotonic_from_def)
  have ok1: "bucket_ok b1" unfolding b1_def by (rule try_acquire_ok [OF Cons.prems(1) le])
  have b1: "last b1 = t" "max_hz b1 = max_hz b" by (simp_all add: b1_def)
  note IH = Cons.IH [OF ok1, unfolded b1, OF mono]
  note spends = try_acquire_spends [OF Cons.prems(1) le, folded b1_def]
  define b2 where "b2 = snd (acquire_run ts b1)"
  have split: "fst (acquire_run (t # ts) b) = fst (try_acquire_at t b) # fst (acquire_run ts b1)"
    "snd (acquire_run (t # ts) b) = b2"
    by (simp_all add: b1_def b2_def)
  have sum: "elapsed_s (last b) t * max_hz b + elapsed_s t (last b2) * max_hz b
      = elapsed_s (last b) (last b2) * max_hz b"
    by (simp add: elapsed_add ring_distribs(2) [symmetric])
  have grants: "real (length (filter (\<lambda>ok. ok) (fst (acquire_run (t # ts) b)))) * (1 - kEpsilon)
      = (if fst (try_acquire_at t b) then 1 - kEpsilon else 0)
        + real (length (filter (\<lambda>ok. ok) (fst (acquire_run ts b1)))) * (1 - kEpsilon)"
    unfolding split by (simp add: algebra_simps)
  show ?case
    unfolding grants using IH spends sum by (auto simp: b2_def b1_def split: if_splits)
qed

lemma first_call_budget:
  "(if fst (try_acquire_at now b) then 1 - kEpsilon else 0) + tokens (snd (try_acquire_at now b))
    \<le> burst b"
  by (simp add: try_acquire_at_def Let_def kEpsilon_def min_def max_def)

primrec spaced :: "double \<Rightarrow> int \<Rightarrow> int list \<Rightarrow> bool" where
  "spaced hz t0 [] = True"
| "spaced hz t0 (t # ts) = (t0 \<le> t \<and> 1 \<le> elapsed_s t0 t * hz \<and> spaced hz t ts)"

lemma try_acquire_refilled:
  assumes "bucket_ok b" "1 \<le> burst b" "1 \<le> elapsed_s (last b) now * max_hz b"
  shows "fst (try_acquire_at now b)"
  using assms by (auto simp: try_acquire_at_def Let_def bucket_ok_def kEpsilon_def min_def)

section \<open>What the limiter promises\<close>

text \<open>
  C39. In any run of calls at readings of a monotonic clock, the calls that get a token number
  at most the burst plus the rate times the length of the run (up to the slack \<open>kEpsilon\<close> per
  grant). For the bucket of \<open>CmdVel\<close> (20 Hz, burst 1) that is 21 commands in a window of one second.
\<close>

theorem cmdvel_window_bound:
  assumes ok: "bucket_ok b" and mono: "monotonic_from (last b) (t # ts)"
  shows "real (length (filter (\<lambda>ok. ok) (fst (acquire_run (t # ts) b)))) * (1 - kEpsilon)
    \<le> burst b + elapsed_s t (List.last (t # ts)) * max_hz b"
proof -
  define b1 where "b1 = snd (try_acquire_at t b)"
  have b1: "bucket_ok b1" "last b1 = t" "max_hz b1 = max_hz b" "monotonic_from t ts"
    using ok mono by (auto simp: b1_def monotonic_from_def intro!: try_acquire_ok)
  have "real (length (filter (\<lambda>ok. ok) (fst (acquire_run ts b1)))) * (1 - kEpsilon)
      \<le> tokens b1 + elapsed_s t (List.last (t # ts)) * max_hz b"
    using acquire_run_budget [OF b1(1), of ts] b1 by (auto split: if_splits)
  moreover have "real (length (filter (\<lambda>ok. ok) (fst (acquire_run (t # ts) b)))) * (1 - kEpsilon)
      = (if fst (try_acquire_at t b) then 1 - kEpsilon else 0)
        + real (length (filter (\<lambda>ok. ok) (fst (acquire_run ts b1)))) * (1 - kEpsilon)"
    by (simp add: b1_def algebra_simps)
  ultimately show ?thesis
    using first_call_budget [of t b, folded b1_def] by simp
qed

theorem cmdvel_window_bound_witness:
  "real (length (filter (\<lambda>ok. ok) (fst (acquire_run [0, 10000000] (token_bucket_new 20 1 0))))) * (1 - kEpsilon)
    \<le> 1 + elapsed_s 0 10000000 * 20"
  using cmdvel_window_bound [of "token_bucket_new 20 1 0" 0 "[10000000]"]
  by (simp add: bucket_ok_def token_bucket_new_def monotonic_from_def del: acquire_run_Cons)

text \<open>
  A caller that leaves at least one period between its calls is never refused: the limiter
  costs a well-behaved client nothing.
\<close>

lemma spaced_calls_pass:
  assumes "bucket_ok b" "1 \<le> burst b" "spaced (max_hz b) (last b) ts"
  shows "fst (acquire_run ts b) = replicate (length ts) True"
  using assms
proof (induction ts arbitrary: b)
  case Nil
  then show ?case by simp
next
  case (Cons t ts)
  then have "fst (try_acquire_at t b)" and "bucket_ok (snd (try_acquire_at t b))"
    by (auto intro: try_acquire_refilled try_acquire_ok)
  with Cons show ?case by simp
qed

section \<open>\<open>Watchdog\<close>\<close>

record watchdog =
  timeout :: ms
  last_feed :: int
  fired :: bool

definition watchdog_new :: "ms \<Rightarrow> int \<Rightarrow> watchdog" where
  "watchdog_new t now = \<lparr>timeout = t, last_feed = now, fired = False\<rparr>"

definition feed_at :: "int \<Rightarrow> watchdog \<Rightarrow> watchdog" where
  "feed_at now w = w\<lparr>last_feed := now, fired := False\<rparr>"

definition check_at :: "int \<Rightarrow> watchdog \<Rightarrow> bool \<times> watchdog" where
  "check_at now w =
    (if fired w then (False, w)
     else if timeout w * 1000000 \<le> now - last_feed w then (True, w\<lparr>fired := True\<rparr>)
     else (False, w))"

fun check_run :: "int list \<Rightarrow> watchdog \<Rightarrow> bool list \<times> watchdog" where
  "check_run [] w = ([], w)"
| "check_run (t # ts) w =
     (let (hit, w1) = check_at t w; (hits, w2) = check_run ts w1 in (hit # hits, w2))"

lemma check_run_fired: "fired w \<Longrightarrow> check_run ts w = (replicate (length ts) False, w)"
  by (induction ts) (simp_all add: check_at_def)

text \<open>
  However often it is polled, an unfed watchdog fires at the first poll past its timeout and at
  no other poll.
\<close>

lemma watchdog_fires_once:
  assumes "\<not> fired w"
  shows "fst (check_run ts w) =
    map (\<lambda>i. timeout w * 1000000 \<le> ts ! i - last_feed w
             \<and> (\<forall>j < i. \<not> timeout w * 1000000 \<le> ts ! j - last_feed w)) [0 ..< length ts]"
  using assms
proof (induction ts)
  case Nil
  then show ?case by simp
next
  case (Cons t ts)
  let ?late = "\<lambda>u. timeout w * 1000000 \<le> u - last_feed w"
  have upt: "[0 ..< length (t # ts)] = 0 # map Suc [0 ..< length ts]"
    by (simp add: upt_conv_Cons map_Suc_upt del: upt_Suc)
  show ?case
  proof (cases "?late t")
    case True
    have "fst (check_run (t # ts) w) = True # replicate (length ts) False"
      using True Cons.prems by (simp add: check_at_def check_run_fired)
    also have "replicate (length ts) False
        = map (\<lambda>i. ?late ((t # ts) ! Suc i) \<and> (\<forall>j < Suc i. \<not> ?late ((t # ts) ! j))) [0 ..< length ts]"
      using True by (auto simp: All_less_Suc2 intro!: nth_equalityI)
    finally show ?thesis using True unfolding upt by simp
  next
    case False
    then have "fst (check_run (t # ts) w) = False # fst (check_run ts w)"
      using Cons.prems by (simp add: check_at_def split: prod.splits)
    then show ?thesis
      using False Cons.IH [OF Cons.prems] unfolding upt
      by (simp add: All_less_Suc2)
  qed
qed

end
