(* ===== verification/Dispatcher.thy ===== *)
theory Dispatcher
  imports Prelude
begin

text \<open>
  \<open>src/dispatcher.hpp\<close> and \<open>src/dispatcher.cpp\<close>: the single worker thread that runs the user's
  callbacks. The state is the mutex-protected part (\<open>running_\<close>, \<open>queue_\<close>), whether the worker has
  returned, and two history variables: the tasks \<open>Post\<close> took in, and the tasks the worker ran.
  Tasks are of any type \<open>'t\<close>; running one is an entry in the history (an exception of the task is
  swallowed by the worker, so a task cannot end the loop).
\<close>

section \<open>State and operations\<close>

record 't dispatcher =
  running :: bool
  queue :: "'t list"
  worker_done :: bool
  accepted :: "'t list"
  executed :: "'t list"

definition dispatcher_new :: "'t dispatcher" where
  "dispatcher_new =
    \<lparr>running = True, queue = [], worker_done = False, accepted = [], executed = []\<rparr>"

text \<open>\<open>Post\<close>: an empty function is ignored, a stopped dispatcher takes nothing in.\<close>

definition disp_post :: "'t option \<Rightarrow> 't dispatcher \<Rightarrow> 't dispatcher" where
  "disp_post task d =
    (case task of
       None \<Rightarrow> d
     | Some t \<Rightarrow>
         if \<not> running d then d
         else d\<lparr>queue := queue d @ [t], accepted := accepted d @ [t]\<rparr>)"

text \<open>
  \<open>Shutdown\<close> clears \<open>running_\<close>; it then joins the worker, or detaches it when the worker itself
  calls. \<open>must_join\<close> says which.
\<close>

definition disp_shutdown :: "'t dispatcher \<Rightarrow> 't dispatcher" where
  "disp_shutdown d = (if \<not> running d then d else d\<lparr>running := False\<rparr>)"

definition must_join :: "bool \<Rightarrow> 't dispatcher \<Rightarrow> bool" where
  "must_join on_worker d = (running d \<and> \<not> on_worker)"

text \<open>One round of \<open>WorkerLoop\<close>; \<open>None\<close> while it waits on the condition variable.\<close>

definition worker_round :: "'t dispatcher \<Rightarrow> 't dispatcher option" where
  "worker_round d =
    (if worker_done d then None
     else if queue d = [] \<and> running d then None
     else (case queue d of
             [] \<Rightarrow> Some (d\<lparr>worker_done := True\<rparr>)
           | t # ts \<Rightarrow> Some (d\<lparr>queue := ts, executed := executed d @ [t]\<rparr>)))"

text \<open>The worker until it waits or returns: what a joining thread waits for.\<close>

function worker_run :: "'t dispatcher \<Rightarrow> 't dispatcher" where
  "worker_run d = (case worker_round d of None \<Rightarrow> d | Some d' \<Rightarrow> worker_run d')"
  by pat_completeness auto

termination
  by (relation "measure (\<lambda>d. length (queue d) + (if worker_done d then 0 else 1))")
    (auto simp: worker_round_def split: if_splits list.splits)

declare worker_run.simps [simp del]

section \<open>Interleavings\<close>

inductive disp_step :: "'t dispatcher \<Rightarrow> 't dispatcher \<Rightarrow> bool" where
  post: "disp_step d (disp_post t d)"
| shutdown: "disp_step d (disp_shutdown d)"
| work: "worker_round d = Some d' \<Longrightarrow> disp_step d d'"

inductive_cases disp_stepE: "disp_step d d'"

definition disp_start :: "'t dispatcher \<Rightarrow> bool" where
  "disp_start d \<longleftrightarrow> d = dispatcher_new"

lemmas disp_defs = disp_post_def disp_shutdown_def worker_round_def

lemma disp_history_step:
  "accepted d = executed d @ [] @ queue d \<Longrightarrow> disp_step d d' \<Longrightarrow>
    accepted d' = executed d' @ [] @ queue d'"
  by (erule disp_stepE) (auto simp: disp_defs split: option.splits if_splits list.splits)

interpretation disp: fifo_channel disp_start disp_step
  "\<lambda>d. worker_done d \<longrightarrow> \<not> running d \<and> queue d = []" accepted executed "\<lambda>_. []" queue
proof unfold_locales
  fix d d' :: "'a dispatcher"
  show "disp_start d \<Longrightarrow> worker_done d \<longrightarrow> \<not> running d \<and> queue d = []"
    by (simp add: disp_start_def dispatcher_new_def)
  show "(worker_done d \<longrightarrow> \<not> running d \<and> queue d = []) \<Longrightarrow> disp_step d d' \<Longrightarrow>
      worker_done d' \<longrightarrow> \<not> running d' \<and> queue d' = []"
    by (erule disp_stepE) (auto simp: disp_defs split: option.splits if_splits list.splits)
qed (auto simp: disp_start_def dispatcher_new_def intro: disp_history_step [simplified])

lemma worker_run_reach: "reach disp_start disp_step d \<Longrightarrow> reach disp_start disp_step (worker_run d)"
proof (induction d rule: worker_run.induct)
  case (1 d)
  show ?case
  proof (cases "worker_round d")
    case None
    then show ?thesis using "1.prems" by (simp add: worker_run.simps [of d])
  next
    case (Some d')
    then have "reach disp_start disp_step d'"
      using "1.prems" by (auto intro: reach_step disp_step.work)
    then show ?thesis using "1.IH" Some by (simp add: worker_run.simps [of d])
  qed
qed

lemma worker_run_idle: "worker_round d = None \<Longrightarrow> worker_run d = d"
  by (subst worker_run.simps) simp

lemma worker_run_busy: "worker_round d = Some d' \<Longrightarrow> worker_run d = worker_run d'"
  by (subst worker_run.simps) simp

lemma worker_run_stopped:
  "\<not> running d \<Longrightarrow> \<not> worker_done d \<Longrightarrow>
    worker_run d = d\<lparr>queue := [], executed := executed d @ queue d, worker_done := True\<rparr>"
proof (induction "queue d" arbitrary: d)
  case Nil
  then have "worker_round d = Some (d\<lparr>worker_done := True\<rparr>)"
    by (simp add: worker_round_def)
  moreover have "worker_round (d\<lparr>worker_done := True\<rparr>) = None"
    by (simp add: worker_round_def)
  ultimately have "worker_run d = d\<lparr>worker_done := True\<rparr>"
    by (simp add: worker_run_busy worker_run_idle)
  with Nil.hyps show ?case by simp
next
  case (Cons t ts)
  let ?d = "d\<lparr>queue := ts, executed := executed d @ [t]\<rparr>"
  have "worker_round d = Some ?d"
    using Cons.prems by (simp add: worker_round_def Cons.hyps(2) [symmetric])
  then have "worker_run d = worker_run ?d" by (rule worker_run_busy)
  also have "\<dots> = ?d\<lparr>queue := [], executed := executed ?d @ queue ?d, worker_done := True\<rparr>"
    by (rule Cons.hyps(1)) (use Cons.prems in simp_all)
  finally show ?case by (simp add: Cons.hyps(2) [symmetric])
qed

section \<open>What the dispatcher promises\<close>

text \<open>
  C37. Under every interleaving of posts, shutdowns and worker rounds, the callbacks run in the
  order of their posts, each at most once: what has run and what is queued is exactly what was
  accepted, and once the worker has returned nothing accepted was left behind.
\<close>

theorem dispatcher_fifo:
  assumes "reach disp_start disp_step d"
  shows "accepted d = executed d @ queue d \<and> (worker_done d \<longrightarrow> executed d = accepted d)"
  using disp.history [OF assms] disp.reach_inv [OF assms] by auto

lemma reach_post: "reach disp_start disp_step d \<Longrightarrow> reach disp_start disp_step (disp_post t d)"
  by (erule reach_step) (rule disp_step.post)

lemma reach_three_posts:
  "reach disp_start disp_step (disp_post (Some c) (disp_post (Some b) (disp_post (Some a) dispatcher_new)))"
  by (intro reach_post reach_start) (simp add: disp_start_def)

theorem dispatcher_fifo_witness:
  "executed (worker_run (disp_shutdown
      (disp_post (Some 3) (disp_post (Some 2) (disp_post (Some (1::nat)) dispatcher_new))))) = [1, 2, 3]"
proof -
  let ?d = "disp_shutdown (disp_post (Some 3) (disp_post (Some 2) (disp_post (Some (1::nat)) dispatcher_new)))"
  have "reach disp_start disp_step (worker_run ?d)"
    by (intro worker_run_reach reach_step [OF reach_three_posts disp_step.shutdown])
  from dispatcher_fifo [OF this] show ?thesis
    by (simp add: worker_run_stopped disp_defs dispatcher_new_def)
qed

text \<open>
  C38. \<open>Shutdown\<close> returns: after it no post is taken in, and the worker it joins runs every queued
  callback and returns.
\<close>

theorem shutdown_drains:
  assumes "reach disp_start disp_step d" "\<not> worker_done d"
  shows "worker_done (worker_run (disp_shutdown d))
    \<and> executed (worker_run (disp_shutdown d)) = accepted d
    \<and> disp_post t (disp_shutdown d) = disp_shutdown d"
proof -
  have "\<not> running (disp_shutdown d)" "\<not> worker_done (disp_shutdown d)"
    using assms(2) by (simp_all add: disp_shutdown_def)
  from worker_run_stopped [OF this] show ?thesis
    using disp.history [OF assms(1)]
    by (auto simp: disp_shutdown_def disp_post_def split: option.splits)
qed

theorem shutdown_drains_witness:
  "worker_done (worker_run (disp_shutdown
      (disp_post (Some 3) (disp_post (Some 2) (disp_post (Some (1::nat)) dispatcher_new)))))"
  using shutdown_drains [OF reach_three_posts, of "3::nat" 2 1]
  by (simp add: disp_defs dispatcher_new_def)

end
