(* ===== verification/Rtt.thy ===== *)
theory Rtt
  imports Prelude "HOL-Library.Multiset"
begin

text \<open>
  \<open>RttHistogram\<close> of \<open>src/robot_impl.hpp\<close> and \<open>src/robot_impl.cpp\<close>: the last \<open>kCap\<close> round-trip
  times, and their 50th and 99th percentiles. \<open>std::nth_element\<close> puts at position \<open>n\<close> the element
  that sorting would put there; the code reads that position only, so the model sorts.
\<close>

section \<open>The histogram\<close>

type_synonym rtt_histogram = "int list"

definition kCap :: nat where
  "kCap = 1024"

definition rtt_record :: "int \<Rightarrow> rtt_histogram \<Rightarrow> rtt_histogram" where
  "rtt_record rtt_ms samples =
    (let s = samples @ [rtt_ms] in if length s > kCap then tl s else s)"

definition nth_element_at :: "nat \<Rightarrow> int list \<Rightarrow> int" where
  "nth_element_at n s = sort s ! n"

definition p50_ms :: "rtt_histogram \<Rightarrow> double" where
  "p50_ms samples =
    (if samples = [] then 0 else real_of_int (nth_element_at (length samples div 2) samples))"

definition p99_ms :: "rtt_histogram \<Rightarrow> double" where
  "p99_ms samples =
    (if samples = [] then 0
     else let idx = (length samples * 99) div 100 in real_of_int (nth_element_at idx samples))"

section \<open>Facts\<close>

lemma rtt_record_suffix:
  "rtt_record x (drop (length xs - kCap) xs) = drop (length (xs @ [x]) - kCap) (xs @ [x])"
proof (cases "length xs < kCap")
  case True
  then show ?thesis by (simp add: rtt_record_def Let_def)
next
  case False
  then have "length (xs @ [x]) - kCap = Suc (length xs - kCap)" by simp
  moreover have "tl (drop (length xs - kCap) xs @ [x]) = drop (Suc (length xs - kCap)) (xs @ [x])"
    using False by (simp add: kCap_def drop_Suc tl_drop tl_append2)
  moreover have "length (drop (length xs - kCap) xs @ [x]) > kCap" using False by simp
  ultimately show ?thesis by (simp add: rtt_record_def Let_def)
qed

lemma fold_record_from:
  "fold rtt_record ys (drop (length xs - kCap) xs) = drop (length (xs @ ys) - kCap) (xs @ ys)"
proof (induction ys arbitrary: xs)
  case Nil
  then show ?case by simp
next
  case (Cons y ys)
  have "fold rtt_record (y # ys) (drop (length xs - kCap) xs)
      = fold rtt_record ys (drop (length (xs @ [y]) - kCap) (xs @ [y]))"
    by (simp only: fold.simps comp_apply rtt_record_suffix)
  also have "\<dots> = drop (length ((xs @ [y]) @ ys) - kCap) ((xs @ [y]) @ ys)"
    by (rule Cons.IH)
  finally show ?case by simp
qed

lemma nth_element_in: "n < length s \<Longrightarrow> nth_element_at n s \<in> set s"
  unfolding nth_element_at_def by (metis length_sort nth_mem set_sort)

lemma nth_element_mono: "m \<le> n \<Longrightarrow> n < length s \<Longrightarrow> nth_element_at m s \<le> nth_element_at n s"
  unfolding nth_element_at_def by (simp add: sorted_nth_mono)

lemma length_filter_sort: "length (filter P (sort s)) = length (filter P s)"
  by (metis filter_sort length_sort)

text \<open>At least \<open>n + 1\<close> elements are at most the \<open>n\<close>-th in order, at least \<open>length s - n\<close> are at least it.\<close>

lemma nth_element_rank:
  assumes "n < length s"
  shows "n < length (filter (\<lambda>x. x \<le> nth_element_at n s) s)"
    and "length s - n \<le> length (filter (\<lambda>x. nth_element_at n s \<le> x) s)"
proof -
  let ?t = "sort s" and ?v = "sort s ! n"
  have t: "?t = take (Suc n) ?t @ drop (Suc n) ?t" "?t = take n ?t @ drop n ?t" by simp_all
  have "\<forall>x \<in> set (take (Suc n) ?t). x \<le> ?v"
    using assms by (auto simp: in_set_conv_nth sorted_nth_mono)
  then have "filter (\<lambda>x. x \<le> ?v) (take (Suc n) ?t) = take (Suc n) ?t"
    by (simp add: filter_id_conv)
  then have "Suc n \<le> length (filter (\<lambda>x. x \<le> ?v) ?t)"
    using assms by (subst t(1)) (simp del: append_take_drop_id)
  then show "n < length (filter (\<lambda>x. x \<le> nth_element_at n s) s)"
    by (simp add: nth_element_at_def length_filter_sort)
  have "\<forall>x \<in> set (drop n ?t). ?v \<le> x"
    using assms by (auto simp: in_set_conv_nth sorted_nth_mono)
  then have "filter (\<lambda>x. ?v \<le> x) (drop n ?t) = drop n ?t"
    by (simp add: filter_id_conv)
  then have "length s - n \<le> length (filter (\<lambda>x. ?v \<le> x) ?t)"
    by (subst t(2)) (simp del: append_take_drop_id)
  then show "length s - n \<le> length (filter (\<lambda>x. nth_element_at n s \<le> x) s)"
    by (simp add: nth_element_at_def length_filter_sort)
qed

section \<open>What the histogram promises\<close>

text \<open>
  However many round trips are recorded, the histogram holds exactly the last 1024 of them,
  oldest first.
\<close>

lemma rtt_keeps_last_cap:
  "fold rtt_record ys [] = drop (length ys - 1024) ys"
  using fold_record_from [of ys "[]"] by (simp add: kCap_def)



end
