(* ===== verification/Diagnostics.thy ===== *)
theory Diagnostics
  imports Enums
begin

text \<open>
  The \<open>Diagnostics\<close> struct of \<open>include/karo/sdk/diagnostics.hpp\<close>, with the defaults of its members.
\<close>

record diag_connection =
  dc_state :: conn_state
  dc_last_state_change_ms :: ms
  dc_reconnect_count :: u64
  dc_last_error_code :: error_code
  dc_last_error_message :: string
  dc_server_protocol_version :: string

record diag_transport =
  dt_rtt_p50_ms :: double
  dt_rtt_p99_ms :: double
  dt_bytes_sent :: u64
  dt_bytes_received :: u64
  dt_last_ping_age_ms :: ms

record diag_subscription =
  dsub_topic :: string
  dsub_state :: sub_state
  dsub_configured_hz :: double
  dsub_received_hz_1min :: double
  dsub_drop_count :: u64
  dsub_last_seq :: u64
  dsub_last_message_age_ms :: ms

record diag_rpc =
  drpc_name :: string
  drpc_count :: u64
  drpc_error_count :: u64
  drpc_p99_latency_ms :: double

record diagnostics =
  dg_connection :: diag_connection
  dg_transport :: diag_transport
  dg_subscriptions :: "diag_subscription list"
  dg_rpcs :: "diag_rpc list"

definition diag_connection_default :: diag_connection where
  "diag_connection_default =
    \<lparr>dc_state = CsIdle, dc_last_state_change_ms = 0, dc_reconnect_count = 0,
     dc_last_error_code = EcOk, dc_last_error_message = [], dc_server_protocol_version = []\<rparr>"

definition diag_transport_default :: diag_transport where
  "diag_transport_default =
    \<lparr>dt_rtt_p50_ms = 0, dt_rtt_p99_ms = 0, dt_bytes_sent = 0, dt_bytes_received = 0,
     dt_last_ping_age_ms = -1\<rparr>"

definition diagnostics_default :: diagnostics where
  "diagnostics_default =
    \<lparr>dg_connection = diag_connection_default, dg_transport = diag_transport_default,
     dg_subscriptions = [], dg_rpcs = []\<rparr>"

end
