(* ===== verification/RobotState.thy ===== *)
theory RobotState
  imports Codec WsClient Log RateLimiter Dispatcher Rtt Diagnostics
begin

text \<open>
  The data of \<open>src/robot_impl.hpp\<close>, \<open>src/subscription_impl.hpp\<close> and of the options and results in
  \<open>include/karo/sdk/robot.hpp\<close>, and the small operations of \<open>src/robot_impl.cpp\<close> the others are
  built from: option checks, logging, state callbacks, sending, the backoff delay. All of
  \<open>RobotImpl\<close> runs on one control thread with a queue of handlers (\<open>r_ioc\<close>); a handler is a function
  of the state. What another thread or the network decides is read from the context \<open>ctx\<close>: the
  result of each connect, whether the WebSocket is open at each look, and the random draws.

  Subscription slots are shared objects (the facade, the map of subscriptions and posted handlers
  hold them), so they live in a store \<open>r_slots\<close> indexed by identity. A \<open>std::promise\<close> is a number,
  and \<open>r_answers\<close> records what was set. \<open>r_history\<close> (the state changes), \<open>r_requests\<close> (how many request
  ids were drawn) and \<open>r_wire\<close> are history variables no operation reads. Lambdas stored in the maps are values of \<open>completion\<close>, one
  constructor per lambda with what it captures; handlers in the queue are values of \<open>event\<close>.
\<close>

section \<open>Options\<close>

record connect_options =
  co_host :: string
  co_cert_pem :: string
  co_key_pem :: string
  co_ca_pem :: string
  co_insecure_skip_verify :: bool
  co_access_token :: bytes
  co_client_id :: string
  co_sdk_version :: string
  co_connect_timeout :: ms
  co_heartbeat_interval :: ms
  co_ping_timeout :: ms
  co_max_missed_pings :: u32
  co_reconnect_max_attempts :: int
  co_reconnect_base_delay :: ms
  co_reconnect_max_delay :: ms
  co_reconnect_jitter_ratio :: double
  co_reconnect_replay_history :: bool
  co_history_limit :: u32
  co_subscribe_ack_timeout :: ms
  co_subscription_queue_size :: u32
  co_drop_policy :: drop_policy
  co_callback_mode :: callback_mode
  co_cmdvel_rpc_timeout :: ms
  co_estop_rpc_timeout :: ms

definition connect_options_default :: connect_options where
  "connect_options_default =
    \<lparr>co_host = ''192.168.10.10'', co_cert_pem = [], co_key_pem = [], co_ca_pem = [],
     co_insecure_skip_verify = False, co_access_token = [], co_client_id = ''karo-sdk-cpp'',
     co_sdk_version = [], co_connect_timeout = 5000, co_heartbeat_interval = 10000,
     co_ping_timeout = 3000, co_max_missed_pings = 3, co_reconnect_max_attempts = -1,
     co_reconnect_base_delay = 500, co_reconnect_max_delay = 30000,
     co_reconnect_jitter_ratio = 3 / 10, co_reconnect_replay_history = True,
     co_history_limit = 1000, co_subscribe_ack_timeout = 5000, co_subscription_queue_size = 100,
     co_drop_policy = DropOldest, co_callback_mode = Dispatched, co_cmdvel_rpc_timeout = 200,
     co_estop_rpc_timeout = 2000\<rparr>"

text \<open>\<open>ValidateOpts\<close>: the exception it throws, if any.\<close>

definition validate_opts :: "connect_options \<Rightarrow> sdk_exception option" where
  "validate_opts opts =
    (if co_host opts = []
     then Some (sdk_exn EcTransportFailure ''ConnectOptions.host is empty'')
     else if CHR '':'' \<in> set (co_host opts)
     then Some (sdk_exn EcTransportFailure
       ''ConnectOptions.host must not contain port; SDK uses fixed port 4434'')
     else if co_cert_pem opts = [] \<and> co_access_token opts = []
     then Some (sdk_exn EcAuthFailed ''neither CertCredentials nor AccessTokenCredentials provided'')
     else if co_cert_pem opts \<noteq> [] \<and> co_key_pem opts = []
     then Some (sdk_exn EcAuthFailed ''CertCredentials.cert_pem provided but key_pem empty'')
     else if co_heartbeat_interval opts < 0
     then Some (sdk_exn EcInternalError ''heartbeat_interval must be >= 0'')
     else if co_reconnect_max_delay opts < co_reconnect_base_delay opts
     then Some (sdk_exn EcInternalError ''reconnect_max_delay < reconnect_base_delay'')
     else if co_reconnect_jitter_ratio opts < 0 \<or> 1 < co_reconnect_jitter_ratio opts
     then Some (sdk_exn EcInternalError ''reconnect_jitter_ratio out of [0, 1]'')
     else if co_subscription_queue_size opts = 0
     then Some (sdk_exn EcInternalError ''subscription_queue_size must be >= 1'')
     else None)"

text \<open>
  OpenSSL's X.509 functions as \<open>pem_to_der\<close> uses them: a certificate is a number, and each call says
  whether it failed.
\<close>

record x509_lib =
  bio_new_mem_buf :: "string \<Rightarrow> bool"
  pem_read_x509 :: "string \<Rightarrow> nat option"
  i2d_x509 :: "nat \<Rightarrow> bytes"

definition pem_to_der :: "x509_lib \<Rightarrow> string \<Rightarrow> sdk_exception + bytes" where
  "pem_to_der lib pem =
    (if pem = [] then Inr []
     else if \<not> bio_new_mem_buf lib pem
     then Inl (sdk_exn EcInternalError ''BIO_new_mem_buf failed'')
     else case pem_read_x509 lib pem of
       None \<Rightarrow> Inl (sdk_exn EcAuthFailed ''PEM_read_bio_X509 failed'')
     | Some x \<Rightarrow>
         if i2d_x509 lib x = []
         then Inl (sdk_exn EcInternalError ''i2d_X509 failed'')
         else Inr (i2d_x509 lib x))"

text \<open>What the model takes from outside the repository and from other threads.\<close>

record ctx =
  cx_opts :: connect_options
  cx_pb :: protobuf
  cx_ssl :: ssl_lib
  cx_x509 :: x509_lib
  cx_connect :: "nat \<Rightarrow> sdk_exception option option"
  cx_open :: "nat \<Rightarrow> bool"
  cx_random :: "nat \<Rightarrow> double"

section \<open>Subscription slots\<close>

datatype frame_dispatcher = FdRobotStatus | FdTaskEvents | FdSafetyEvents

record slot =
  sl_topic :: string
  sl_desired_hz :: double
  sl_semantics :: delivery_semantics
  sl_callback_mode :: callback_mode
  sl_drop_policy :: drop_policy
  sl_queue_size :: u32
  sl_frame_dispatcher :: frame_dispatcher
  sl_status_callback :: bool
  sl_state :: sub_state
  sl_last_seq :: u64
  sl_drop_count :: u64
  sl_error_code :: error_code
  sl_pending_buffer :: "decoded_topic_push list"
  sl_inflight_request :: u64
  sl_fresh_retry_done :: bool
  sl_expected_resume_seq :: u64
  sl_ever_active :: bool
  sl_user_closed :: bool
  sl_is_reconnect_resume :: bool
  sl_unsubscribe_sent :: bool
  sl_last_message_at :: "int option"
  sl_messages_received :: u64
  sl_hz_buckets :: "u32 list"
  sl_hz_bucket_epoch_ms :: ms

definition sub_slot_new ::
  "connect_options \<Rightarrow> string \<Rightarrow> double \<Rightarrow> frame_dispatcher \<Rightarrow> bool \<Rightarrow> delivery_semantics \<Rightarrow> slot" where
  "sub_slot_new opts topic hz fd cb sem =
    \<lparr>sl_topic = topic, sl_desired_hz = hz, sl_semantics = sem,
     sl_callback_mode = co_callback_mode opts, sl_drop_policy = co_drop_policy opts,
     sl_queue_size = co_subscription_queue_size opts, sl_frame_dispatcher = fd,
     sl_status_callback = cb, sl_state = SubPending, sl_last_seq = 0, sl_drop_count = 0,
     sl_error_code = EcOk, sl_pending_buffer = [], sl_inflight_request = 0,
     sl_fresh_retry_done = False, sl_expected_resume_seq = 0, sl_ever_active = False,
     sl_user_closed = False, sl_is_reconnect_resume = False, sl_unsubscribe_sent = False,
     sl_last_message_at = None, sl_messages_received = 0, sl_hz_buckets = replicate 60 0,
     sl_hz_bucket_epoch_ms = 0\<rparr>"

section \<open>Results, promises, handlers\<close>

record cmdvel_result =
  cvr_accepted :: bool
  cvr_code :: error_code
  cvr_message :: string
  cvr_rtt :: ms

record estop_result =
  er_ok :: bool
  er_code :: error_code
  er_message :: string

record rpc_outcome =
  ro_code :: error_code
  ro_message :: string
  ro_payload :: bytes

datatype answer =
    AnsUnsubscribe error_code
  | AnsCmdVel cmdvel_result
  | AnsEStop estop_result
  | AnsRpc rpc_outcome
  | AnsPing ms
  | AnsDiagnostics diagnostics

text \<open>The \<open>on_complete\<close> lambdas; \<open>CNone\<close> is an empty \<open>std::function\<close>.\<close>

datatype completion =
    CNone
  | CHandshake bool
  | CEStopReplay
  | CHeartbeat int
  | CUnsubscribe string nat
  | CCmdVel int nat
  | CEStop bool string int nat
  | CInvoke nat
  | CPing int nat

record inflight_rpc =
  ir_request_id :: u64
  ir_method :: string
  ir_enqueued_at :: int
  ir_on_complete :: completion
  ir_timeout :: "int option"

datatype rpc_encoder =
    EncMarker string
  | EncPose double double double
  | EncCancel string
  | EncPause string
  | EncResume string

datatype event =
    EvConnect
  | EvClose
  | EvInbound bytes
  | EvTransportClose error_code string
  | EvSubscribe nat
  | EvUnsubAsync string
  | EvUnsubSync string nat
  | EvCmdVel double double double u64 int nat
  | EvEStop bool string int nat
  | EvInvoke string ms rpc_encoder nat
  | EvPing int nat
  | EvDiagnostics nat
  | EvIdleTimer
  | EvPingDeadline
  | EvReconnect u32
  | EvRpcTimeout u64
  | EvSubAckTimeout nat u64

text \<open>What the dispatcher thread is given to run.\<close>

datatype task =
    TaskState nat conn_state conn_state state_change_info
  | TaskLog nat log_level string
  | TaskStatus nat stream_status
  | TaskData nat decoded_topic_push

datatype ws_call = WsPost bytes | WsClose

section \<open>The robot\<close>

record heartbeat =
  hb_last_inbound_at :: int
  hb_last_ping_sent_at :: int
  hb_last_ping_request_id :: u64
  hb_ping_deadline_active :: bool
  hb_miss_count :: u32

record rpc_stat =
  rst_count :: u64
  rst_error_count :: u64
  rst_latency_hist :: rtt_histogram

record metrics =
  mt_last_state_change_ms :: ms
  mt_last_error_code :: error_code
  mt_last_error_msg :: string
  mt_bytes_sent :: u64
  mt_bytes_received :: u64
  mt_last_ping_sent_ms :: ms
  mt_rtt_hist :: rtt_histogram
  mt_cmdvel :: rpc_stat
  mt_estop :: rpc_stat
  mt_ping :: rpc_stat

record robot =
  r_state :: conn_state
  r_ioc :: "event list"
  r_work_guard :: bool
  r_loop_done :: bool
  r_shutdown_requested :: bool
  r_dispatcher :: "task dispatcher"
  r_log_sink :: log_sink
  r_state_handler :: "nat option"
  r_ws :: "nat option"
  r_next_conn :: nat
  r_robot_info :: "robot_info option"
  r_next_request_id :: u64
  r_requests :: nat
  r_inflight :: "(u64 \<times> inflight_rpc) list"
  r_active_subs :: "(string \<times> nat) list"
  r_slots :: "nat \<Rightarrow> slot"
  r_next_slot :: nat
  r_inflight_sub :: "(u64 \<times> string) list"
  r_sub_ack_timers :: "(u64 \<times> (nat \<times> int)) list"
  r_heartbeat :: heartbeat
  r_idle_timer :: "int option"
  r_ping_timer :: "int option"
  r_reconnect_attempt :: u32
  r_reconnect_total :: u64
  r_reconnect_timer :: "(int \<times> u32) option"
  r_estop_engaged :: bool
  r_estop_reason :: string
  r_subs_pending :: u64
  r_estop_pending :: bool
  r_failure_code :: error_code
  r_failure_message :: string
  r_cmdvel_limiter :: token_bucket
  r_cmdvel_seq :: u64
  r_metrics :: metrics
  r_next_promise :: nat
  r_answers :: "(nat \<times> answer) list"
  r_wire :: "(nat \<times> ws_call) list"
  r_inline_calls :: "(nat \<times> decoded_topic_push) list"
  r_stderr :: "string list"
  r_history :: "(conn_state \<times> conn_state) list"
  r_looks :: nat
  r_draws :: nat
  r_now :: int
  r_epoch_ms :: ms

definition rpc_stat_new :: rpc_stat where
  "rpc_stat_new = \<lparr>rst_count = 0, rst_error_count = 0, rst_latency_hist = []\<rparr>"

definition heartbeat_new :: heartbeat where
  "heartbeat_new =
    \<lparr>hb_last_inbound_at = 0, hb_last_ping_sent_at = 0, hb_last_ping_request_id = 0,
     hb_ping_deadline_active = False, hb_miss_count = 0\<rparr>"

definition metrics_new :: "ms \<Rightarrow> metrics" where
  "metrics_new epoch =
    \<lparr>mt_last_state_change_ms = epoch, mt_last_error_code = EcOk, mt_last_error_msg = [],
     mt_bytes_sent = 0, mt_bytes_received = 0, mt_last_ping_sent_ms = -1, mt_rtt_hist = [],
     mt_cmdvel = rpc_stat_new, mt_estop = rpc_stat_new, mt_ping = rpc_stat_new\<rparr>"

text \<open>The constructor, at a reading of both clocks and with the value of \<open>KARO_SDK_LOG_LEVEL\<close>.\<close>

definition robot_new :: "connect_options \<Rightarrow> string option \<Rightarrow> int \<Rightarrow> ms \<Rightarrow> robot" where
  "robot_new opts env now epoch =
    \<lparr>r_state = CsIdle, r_ioc = [], r_work_guard = False, r_loop_done = False,
     r_shutdown_requested = False, r_dispatcher = dispatcher_new, r_log_sink = log_sink_new env,
     r_state_handler = None, r_ws = None, r_next_conn = 0, r_robot_info = None,
     r_next_request_id = 1, r_requests = 0, r_inflight = [], r_active_subs = [],
     r_slots = (\<lambda>_. sub_slot_new opts [] 0 FdRobotStatus False Telemetry), r_next_slot = 0,
     r_inflight_sub = [], r_sub_ack_timers = [], r_heartbeat = heartbeat_new,
     r_idle_timer = None, r_ping_timer = None, r_reconnect_attempt = 0, r_reconnect_total = 0,
     r_reconnect_timer = None, r_estop_engaged = False, r_estop_reason = [],
     r_subs_pending = 0, r_estop_pending = False, r_failure_code = EcOk,
     r_failure_message = [], r_cmdvel_limiter = token_bucket_new 20 1 now, r_cmdvel_seq = 0,
     r_metrics = metrics_new epoch, r_next_promise = 0, r_answers = [], r_wire = [],
     r_inline_calls = [], r_stderr = snd (level_from_env env), r_history = [],
     r_looks = 0, r_draws = 0, r_now = now, r_epoch_ms = epoch\<rparr>"

text \<open>\<open>Create\<close>: the constructor, the checks, and the control loop with its work guard.\<close>

definition robot_create ::
  "connect_options \<Rightarrow> string option \<Rightarrow> int \<Rightarrow> ms \<Rightarrow> sdk_exception + robot" where
  "robot_create opts env now epoch =
    (case validate_opts opts of
       Some e \<Rightarrow> Inl e
     | None \<Rightarrow> Inr ((robot_new opts env now epoch)\<lparr>r_work_guard := True\<rparr>))"

end
