(* ===== verification/RobotCore.thy ===== *)
theory RobotCore
  imports RobotState
begin

text \<open>
  The parts of \<open>src/robot_impl.cpp\<close> every other operation uses: logging, state callbacks and
  \<open>TransitionTo\<close>, \<open>FireStatus\<close>, \<open>SendOrFail\<close>, \<open>NextBackoff\<close>, and the cluster \<open>OnTransportClose\<close>,
  \<open>AbortToFatal\<close>, \<open>DoReconnect\<close>. These call the completion lambdas of the inflight calls, and one of
  the lambdas calls back into the cluster; the parameter \<open>oc\<close> is what calling a lambda does, and
  the knot is tied in \<open>RobotRpc\<close>.
\<close>

section \<open>Slots, promises, timers\<close>

definition upd_slot :: "nat \<Rightarrow> (slot \<Rightarrow> slot) \<Rightarrow> robot \<Rightarrow> robot" where
  "upd_slot i f r = r\<lparr>r_slots := (r_slots r)(i := f (r_slots r i))\<rparr>"

definition upd_metrics :: "(metrics \<Rightarrow> metrics) \<Rightarrow> robot \<Rightarrow> robot" where
  "upd_metrics f r = r\<lparr>r_metrics := f (r_metrics r)\<rparr>"

definition upd_heartbeat :: "(heartbeat \<Rightarrow> heartbeat) \<Rightarrow> robot \<Rightarrow> robot" where
  "upd_heartbeat f r = r\<lparr>r_heartbeat := f (r_heartbeat r)\<rparr>"

text \<open>\<open>promise->set_value\<close>; the second call throws.\<close>

definition set_value :: "nat \<Rightarrow> answer \<Rightarrow> robot \<Rightarrow> robot outcome" where
  "set_value p a r =
    (if map_of (r_answers r) p = None then Inr (r\<lparr>r_answers := (p, a) # r_answers r\<rparr>)
     else Inl PromiseSatisfied)"

text \<open>\<open>expires_after\<close>: the deadline on the steady clock, in nanoseconds.\<close>

definition after_ms :: "ms \<Rightarrow> robot \<Rightarrow> int" where
  "after_ms d r = r_now r + d * 1000000"

definition next_request_id :: "robot \<Rightarrow> u64 \<times> robot" where
  "next_request_id r =
    (r_next_request_id r,
     r\<lparr>r_next_request_id := r_next_request_id r + 1, r_requests := Suc (r_requests r)\<rparr>)"

section \<open>Callbacks and logging\<close>

definition post_task :: "task \<Rightarrow> robot \<Rightarrow> robot" where
  "post_task t r = r\<lparr>r_dispatcher := disp_post (Some t) (r_dispatcher r)\<rparr>"

definition post_state_callback :: "conn_state \<Rightarrow> conn_state \<Rightarrow> state_change_info \<Rightarrow> robot \<Rightarrow> robot" where
  "post_state_callback old_s new_s info r =
    (case r_state_handler r of
       None \<Rightarrow> r
     | Some h \<Rightarrow> post_task (TaskState h old_s new_s info) r)"

definition post_log :: "log_level \<Rightarrow> string \<Rightarrow> robot \<Rightarrow> robot" where
  "post_log level msg r =
    (if level < ls_min_level (r_log_sink r) then r
     else case take_handler (r_log_sink r) of
       Some h \<Rightarrow> post_task (TaskLog h level msg) r
     | None \<Rightarrow> r\<lparr>r_stderr := r_stderr r @ default_stderr_write level msg\<rparr>)"

definition fire_status ::
  "nat \<Rightarrow> stream_status_kind \<Rightarrow> u64 option \<Rightarrow> error_code \<Rightarrow> string \<Rightarrow> robot \<Rightarrow> robot" where
  "fire_status i k gap err reason r =
    (if \<not> sl_status_callback (r_slots r i) then r
     else post_task (TaskStatus i
       \<lparr>ss_kind = k, ss_reason = reason, ss_gap_count = gap, ss_error_code = err\<rparr>) r)"

definition change_info ::
  "string \<Rightarrow> error_code \<Rightarrow> string \<Rightarrow> ms \<Rightarrow> u32 \<Rightarrow> string \<Rightarrow> state_change_info" where
  "change_info reason code msg retry attempt action =
    \<lparr>ch_reason = reason, ch_error_code = code, ch_error_message = msg,
     ch_next_retry_in_ms = retry, ch_reconnect_attempt = attempt, ch_last_action = action\<rparr>"

definition transition_to :: "conn_state \<Rightarrow> state_change_info \<Rightarrow> robot \<Rightarrow> robot" where
  "transition_to new_s info r =
    (let old = r_state r
     in if old = new_s then r
        else
          let r1 = r\<lparr>r_state := new_s, r_history := r_history r @ [(old, new_s)]\<rparr>;
              r2 = upd_metrics (\<lambda>m. m\<lparr>mt_last_state_change_ms := r_epoch_ms r\<rparr>) r1;
              r3 = (if ch_error_code info \<noteq> EcOk
                    then upd_metrics (\<lambda>m. m\<lparr>mt_last_error_code := ch_error_code info,
                           mt_last_error_msg := ch_error_message info\<rparr>) r2
                    else r2);
              r4 = post_log LogInfo
                     (''state transition '' @ conn_state_name old @ '' -> '' @ conn_state_name new_s
                      @ (if ch_reason info = [] then [] else '' ('' @ ch_reason info @ '')'')) r3
          in post_state_callback old new_s
               (info\<lparr>ch_reconnect_attempt := r_reconnect_attempt r4\<rparr>) r4)"

section \<open>The WebSocket of the robot\<close>

text \<open>
  \<open>ws_->Post\<close> and \<open>ws_->IsOpen\<close> read an atomic another thread writes; each call is one look, and the
  context says what it finds. \<open>r_wire\<close> records the calls the client took, with the connection they
  went to.
\<close>

definition ws_post_call :: "ctx \<Rightarrow> nat \<Rightarrow> bytes \<Rightarrow> robot \<Rightarrow> bool \<times> robot" where
  "ws_post_call c n b r =
    (let r1 = r\<lparr>r_looks := Suc (r_looks r)\<rparr>
     in if \<not> cx_open c (r_looks r) then (False, r1)
        else (True, r1\<lparr>r_wire := r_wire r1 @ [(n, WsPost b)]\<rparr>))"

definition count_bytes_sent :: "bytes \<Rightarrow> robot \<Rightarrow> robot" where
  "count_bytes_sent b =
    upd_metrics (\<lambda>m. m\<lparr>mt_bytes_sent := mt_bytes_sent m + of_nat (length b)\<rparr>)"

definition send_or_fail :: "ctx \<Rightarrow> bytes \<Rightarrow> robot \<Rightarrow> bool \<times> robot" where
  "send_or_fail c b r =
    (case r_ws r of
       None \<Rightarrow> (False, r)
     | Some n \<Rightarrow>
         let (ok, r1) = ws_post_call c n b r
         in if \<not> ok then (False, r1) else (True, count_bytes_sent b r1))"

definition ws_is_open :: "ctx \<Rightarrow> robot \<Rightarrow> bool \<times> robot" where
  "ws_is_open c r =
    (case r_ws r of
       None \<Rightarrow> (False, r)
     | Some n \<Rightarrow> (cx_open c (r_looks r), r\<lparr>r_looks := Suc (r_looks r)\<rparr>))"

text \<open>\<open>if (ws_) ws_->Close(); ws_.reset();\<close>\<close>

definition ws_close_reset :: "robot \<Rightarrow> robot" where
  "ws_close_reset r =
    (case r_ws r of
       None \<Rightarrow> r
     | Some n \<Rightarrow> r\<lparr>r_wire := r_wire r @ [(n, WsClose)], r_ws := None\<rparr>)"

section \<open>Backoff\<close>

text \<open>The loop that doubles the delay, \<open>n\<close> times at most.\<close>

fun backoff_exp :: "nat \<Rightarrow> double \<Rightarrow> double \<Rightarrow> double" where
  "backoff_exp 0 exp_ms max_ms = exp_ms"
| "backoff_exp (Suc n) exp_ms max_ms =
     (if exp_ms < max_ms then backoff_exp n (exp_ms * 2) max_ms else exp_ms)"

definition backoff_ms :: "connect_options \<Rightarrow> u32 \<Rightarrow> double \<Rightarrow> ms" where
  "backoff_ms opts attempt draw =
    (let base_ms = real_of_int (co_reconnect_base_delay opts);
         max_ms = real_of_int (co_reconnect_max_delay opts);
         exp1 = backoff_exp (unat attempt) base_ms max_ms;
         exp_ms = (if exp1 > max_ms then max_ms else exp1);
         jr = max (5 / 100) (co_reconnect_jitter_ratio opts);
         j = exp_ms * jr * draw;
         actual = exp_ms - j
     in \<lfloor>if actual < 0 then 0 else actual\<rfloor>)"

definition next_backoff :: "ctx \<Rightarrow> u32 \<Rightarrow> robot \<Rightarrow> ms \<times> robot" where
  "next_backoff c attempt r =
    (backoff_ms (cx_opts c) attempt (cx_random c (r_draws r)), r\<lparr>r_draws := Suc (r_draws r)\<rparr>)"

section \<open>Giving up, losing the connection, reconnecting\<close>

type_synonym on_complete_fn =
  "completion \<Rightarrow> decoded_response \<Rightarrow> error_code \<Rightarrow> robot \<Rightarrow> robot outcome"

text \<open>
  The loop over \<open>inflight_rpc_\<close> that calls every lambda that is not empty. The iterator steps on from
  the current entry, so the lambda must have left the entry in the map.
\<close>

fun complete_all ::
  "on_complete_fn \<Rightarrow> decoded_response \<Rightarrow> error_code \<Rightarrow> (u64 \<times> inflight_rpc) list \<Rightarrow> robot \<Rightarrow> robot outcome"
where
  "complete_all oc resp err [] r = Inr r"
| "complete_all oc resp err ((rid, rpc) # ps) r =
     (if ir_on_complete rpc = CNone then complete_all oc resp err ps r
      else obind (oc (ir_on_complete rpc) resp err r)
             (\<lambda>r1. if map_of (r_inflight r1) rid = None then Inl IteratorInvalidated
                   else complete_all oc resp err ps r1))"

definition fake_response :: "error_code \<Rightarrow> string \<Rightarrow> decoded_response" where
  "fake_response code msg = decoded_response_default\<lparr>dr_sdk_code := code, dr_message := msg\<rparr>"

text \<open>Close one subscription with an error, as \<open>AbortToFatal\<close> and \<open>Close\<close> do for each.\<close>

definition close_slot :: "error_code \<Rightarrow> string \<Rightarrow> nat \<Rightarrow> robot \<Rightarrow> robot" where
  "close_slot code reason i r =
    (let prev = sl_state (r_slots r i);
         r1 = upd_slot i (\<lambda>s. s\<lparr>sl_state := SubClosed\<rparr>) r
     in if prev \<noteq> SubClosed
        then fire_status i StClosed None code reason
               (upd_slot i (\<lambda>s. s\<lparr>sl_error_code := code\<rparr>) r1)
        else r1)"

definition abort_to_fatal :: "on_complete_fn \<Rightarrow> error_code \<Rightarrow> string \<Rightarrow> robot \<Rightarrow> robot outcome" where
  "abort_to_fatal oc code msg r =
    (let r1 = fold (\<lambda>(topic, i). close_slot code (if msg = [] then ''Fatal'' else msg) i)
                (r_active_subs r) r;
         r2 = r1\<lparr>r_active_subs := []\<rparr>
     in obind (complete_all oc (fake_response code msg) code (r_inflight r2) r2)
          (\<lambda>r3.
             let r4 = r3\<lparr>r_inflight := [], r_sub_ack_timers := [], r_inflight_sub := [],
                         r_idle_timer := None, r_ping_timer := None, r_reconnect_timer := None\<rparr>;
                 r5 = upd_heartbeat (\<lambda>h. h\<lparr>hb_ping_deadline_active := False\<rparr>) r4;
                 r6 = ws_close_reset r5
             in Inr (transition_to CsFatal
                  (change_info msg code msg 0 (r_reconnect_attempt r6) []) r6)))"

definition do_reconnect :: "ctx \<Rightarrow> on_complete_fn \<Rightarrow> u32 \<Rightarrow> robot \<Rightarrow> robot outcome" where
  "do_reconnect c oc attempt r =
    (if r_state r = CsFatal \<or> r_state r = CsShutdown then Inr r
     else if 0 \<le> co_reconnect_max_attempts (cx_opts c)
             \<and> co_reconnect_max_attempts (cx_opts c) < sint attempt
     then abort_to_fatal oc EcTransportFailure ''reconnect_max_attempts reached'' r
     else
       let (delay, r1) = next_backoff c (attempt - 1) r;
           r2 = r1\<lparr>r_reconnect_attempt := attempt - 1\<rparr>
       in Inr (r2\<lparr>r_reconnect_timer := Some (after_ms delay r2, attempt)\<rparr>))"

definition pause_slot :: "error_code \<Rightarrow> string \<Rightarrow> nat \<Rightarrow> robot \<Rightarrow> robot" where
  "pause_slot reason msg i r =
    (let prev = sl_state (r_slots r i);
         r1 = upd_slot i (\<lambda>s. s\<lparr>sl_state := SubPaused\<rparr>) r;
         r2 = (if prev = SubActive \<or> prev = SubPending
               then fire_status i StPaused None reason msg r1 else r1)
     in upd_slot i (\<lambda>s. s\<lparr>sl_pending_buffer := [], sl_inflight_request := 0\<rparr>) r2)"

definition pause_all_subs :: "error_code \<Rightarrow> string \<Rightarrow> robot \<Rightarrow> robot" where
  "pause_all_subs reason msg r = fold (\<lambda>(topic, i). pause_slot reason msg i) (r_active_subs r) r"

text \<open>From the end of the loop over the inflight calls to the call of \<open>DoReconnect\<close>.\<close>

definition mark_lost :: "ctx \<Rightarrow> error_code \<Rightarrow> string \<Rightarrow> robot \<Rightarrow> robot" where
  "mark_lost c reason msg r =
    (let r1 = r\<lparr>r_inflight := [], r_sub_ack_timers := [], r_idle_timer := None,
               r_ping_timer := None\<rparr>;
         r2 = upd_heartbeat (\<lambda>h. h\<lparr>hb_ping_deadline_active := False, hb_miss_count := 0\<rparr>) r1;
         (retry, r3) = next_backoff c (r_reconnect_attempt r2) r2;
         r4 = transition_to CsTransientFailure
                (change_info (if msg = [] then ''transport closed'' else msg) reason msg
                   retry (r_reconnect_attempt r3) []) r3
     in ws_close_reset r4)"

definition on_transport_close ::
  "ctx \<Rightarrow> on_complete_fn \<Rightarrow> error_code \<Rightarrow> string \<Rightarrow> robot \<Rightarrow> robot outcome" where
  "on_transport_close c oc reason msg r =
    (if r_state r = CsShutdown \<or> r_state r = CsFatal then Inr r
     else
       let r1 = pause_all_subs reason msg r
       in obind (complete_all oc (fake_response reason msg) reason (r_inflight r1) r1)
            (\<lambda>r2.
               let r3 = mark_lost c reason msg r2
               in do_reconnect c oc (r_reconnect_attempt r3 + 1) r3))"

text \<open>
  \<open>TransitionTo(TransientFailure)\<close> and \<open>DoReconnect\<close>, the tail that the failures of the connect path
  share; \<open>reset\<close> says whether the branch also closes and drops the client.
\<close>

definition fail_and_reconnect ::
  "ctx \<Rightarrow> on_complete_fn \<Rightarrow> string \<Rightarrow> error_code \<Rightarrow> string \<Rightarrow> bool \<Rightarrow> robot \<Rightarrow> robot outcome" where
  "fail_and_reconnect c oc what code msg reset r =
    (let (retry, r1) = next_backoff c (r_reconnect_attempt r) r;
         r2 = transition_to CsTransientFailure (change_info what code msg retry 0 []) r1;
         r3 = (if reset then ws_close_reset r2 else r2)
     in do_reconnect c oc (r_reconnect_attempt r3 + 1) r3)"

end
