(* ===== verification/RobotSubs.thy ===== *)
theory RobotSubs
  imports RobotCore
begin

text \<open>
  The subscription path of \<open>src/robot_impl.cpp\<close>: pushes (pending buffer, sequence numbers, the
  one-minute rate buckets), subscribe requests and their acknowledgements, resubscription after a
  reconnect, unsubscription, and the facade object of \<open>src/subscription_impl.hpp\<close>.
\<close>

section \<open>Rate buckets\<close>

text \<open>The loop that clears the buckets of the seconds that went by.\<close>

definition clear_buckets :: "int \<Rightarrow> int \<Rightarrow> u32 list \<Rightarrow> u32 list" where
  "clear_buckets last_sec gap bs =
    fold (\<lambda>i b. b[nat ((last_sec + i) mod 60) := 0]) [1..gap] bs"

definition slide_slot :: "ms \<Rightarrow> slot \<Rightarrow> slot" where
  "slide_slot epoch_ms s =
    (let cur_sec = epoch_ms div 1000;
         last_epoch_ms = sl_hz_bucket_epoch_ms s;
         last_sec = last_epoch_ms div 1000
     in if cur_sec = last_sec \<and> last_epoch_ms > 0 then s
        else if last_epoch_ms = 0 then s\<lparr>sl_hz_bucket_epoch_ms := epoch_ms\<rparr>
        else
          let gap = (if cur_sec - last_sec > 60 then 60 else cur_sec - last_sec)
          in s\<lparr>sl_hz_buckets := clear_buckets last_sec gap (sl_hz_buckets s),
               sl_hz_bucket_epoch_ms := epoch_ms\<rparr>)"

definition slide_hz_buckets :: "nat \<Rightarrow> robot \<Rightarrow> int \<times> robot" where
  "slide_hz_buckets i r = (r_epoch_ms r div 1000, upd_slot i (slide_slot (r_epoch_ms r)) r)"

definition bump_bucket :: "int \<Rightarrow> slot \<Rightarrow> slot" where
  "bump_bucket cur_sec s =
    (let k = nat (cur_sec mod 60)
     in s\<lparr>sl_hz_buckets := (sl_hz_buckets s)[k := sl_hz_buckets s ! k + 1]\<rparr>)"

section \<open>Delivering pushes\<close>

datatype user_message = UserStatus robot_status | UserTask task_event | UserSafety safety_event

text \<open>
  The frame dispatchers the three typed subscribe calls build: decode the payload, stamp it, and call
  the user's callback with the result (\<open>None\<close>: the payload did not decode, nothing is called).
\<close>

fun run_frame_dispatcher :: "protobuf \<Rightarrow> frame_dispatcher \<Rightarrow> decoded_topic_push \<Rightarrow> user_message option" where
  "run_frame_dispatcher pb FdRobotStatus push =
     map_option (\<lambda>rs. UserStatus (rs\<lparr>rs_timestamp_ms := push_timestamp_ms push\<rparr>))
       (decode_robot_status pb (push_payload push) (push_timestamp_ms push))"
| "run_frame_dispatcher pb FdTaskEvents push =
     map_option (\<lambda>ev. UserTask (ev\<lparr>te_timestamp_ms := push_timestamp_ms push\<rparr>))
       (decode_task_event pb (push_payload push) task_event_default)"
| "run_frame_dispatcher pb FdSafetyEvents push =
     map_option (\<lambda>ev. UserSafety (ev\<lparr>se_timestamp_ms := push_timestamp_ms push\<rparr>))
       (decode_safety_event pb (push_payload push) (push_timestamp_ms push))"

definition hand_over :: "nat \<Rightarrow> decoded_topic_push \<Rightarrow> robot \<Rightarrow> robot" where
  "hand_over i push r =
    (let r1 = upd_slot i (\<lambda>s. s\<lparr>sl_messages_received := sl_messages_received s + 1,
                               sl_last_message_at := Some (r_now r)\<rparr>) r;
         (cur_sec, r2) = slide_hz_buckets i r1;
         r3 = upd_slot i (bump_bucket cur_sec) r2
     in if sl_callback_mode (r_slots r3 i) = Inline
        then r3\<lparr>r_inline_calls := r_inline_calls r3 @ [(i, push)]\<rparr>
        else post_task (TaskData i push) r3)"

definition deliver_push :: "nat \<Rightarrow> decoded_topic_push \<Rightarrow> robot \<Rightarrow> robot" where
  "deliver_push i push r =
    (let s = r_slots r i; new_seq = push_seq push; last_seq = sl_last_seq s;
         store = (\<lambda>r. upd_slot i (\<lambda>s. s\<lparr>sl_last_seq := new_seq\<rparr>) r)
     in if sl_semantics s = Event
        then
          if new_seq = 0
          then hand_over i push (post_log LogTrace
                 (''EVENT push seq=0 for '' @ sl_topic s @ '' (gap detection off)'') r)
          else if last_seq = 0 then hand_over i push (store r)
          else if new_seq = last_seq + 1 then hand_over i push (store r)
          else if new_seq > last_seq + 1
          then hand_over i push (fire_status i StGap (Some (new_seq - last_seq - 1)) EcOk [] (store r))
          else if new_seq = last_seq
          then post_log LogDebug (''duplicate envelope seq, dropping: '' @ sl_topic s) r
          else post_log LogWarn
                 (''envelope seq regression in-session for '' @ sl_topic s @ '' new=''
                  @ dec_u64 new_seq @ '' last='' @ dec_u64 last_seq) r
        else hand_over i push r)"

definition drop_one :: "nat \<Rightarrow> robot \<Rightarrow> robot" where
  "drop_one i = upd_slot i (\<lambda>s. s\<lparr>sl_drop_count := sl_drop_count s + 1\<rparr>)"

text \<open>\<open>pending_buffer\<close> while the acknowledgement is awaited.\<close>

definition buffer_push :: "nat \<Rightarrow> decoded_topic_push \<Rightarrow> robot \<Rightarrow> robot" where
  "buffer_push i push r =
    (let s = r_slots r i
     in if unat (sl_queue_size s) \<le> length (sl_pending_buffer s)
        then
          if sl_drop_policy s = DropNewest then drop_one i r
          else upd_slot i (\<lambda>s. s\<lparr>sl_pending_buffer := sl_pending_buffer s @ [push]\<rparr>)
                 (drop_one i (upd_slot i (\<lambda>s. s\<lparr>sl_pending_buffer := tl (sl_pending_buffer s)\<rparr>) r))
        else upd_slot i (\<lambda>s. s\<lparr>sl_pending_buffer := sl_pending_buffer s @ [push]\<rparr>) r)"

definition handle_sdk_topic_push :: "decoded_topic_push \<Rightarrow> robot \<Rightarrow> robot" where
  "handle_sdk_topic_push push r =
    (case map_of (r_active_subs r) (push_topic push) of
       None \<Rightarrow> post_log LogDebug (''topic push for unknown sub: '' @ push_topic push) r
     | Some i \<Rightarrow>
         (case sl_state (r_slots r i) of
            SubClosed \<Rightarrow> r
          | SubPending \<Rightarrow> buffer_push i push r
          | SubPaused \<Rightarrow> drop_one i r
          | SubActive \<Rightarrow> deliver_push i push r))"

text \<open>The loop of \<open>DrainPendingBuffer\<close>, over the frames it takes off the buffer.\<close>

fun drain_frames :: "nat \<Rightarrow> u64 \<Rightarrow> decoded_topic_push list \<Rightarrow> robot \<Rightarrow> robot" where
  "drain_frames i next_seq [] r = r"
| "drain_frames i next_seq (front # rest) r =
     (let r1 = upd_slot i (\<lambda>s. s\<lparr>sl_pending_buffer := rest\<rparr>) r
      in if sl_semantics (r_slots r1 i) = Event \<and> next_seq > 0 \<and> push_seq front \<noteq> 0
            \<and> push_seq front < next_seq
         then drain_frames i next_seq rest (drop_one i r1)
         else drain_frames i next_seq rest (deliver_push i front r1))"

definition drain_pending_buffer :: "nat \<Rightarrow> u64 \<Rightarrow> robot \<Rightarrow> robot" where
  "drain_pending_buffer i next_seq r =
    drain_frames i next_seq (sl_pending_buffer (r_slots r i)) r"

section \<open>Subscribing\<close>

definition resolve_semantics_from_info :: "robot_info option \<Rightarrow> string \<Rightarrow> delivery_semantics" where
  "resolve_semantics_from_info info topic =
    (case info of
       None \<Rightarrow> Telemetry
     | Some ri \<Rightarrow>
         (case find (\<lambda>d. td_name d = topic) (ri_available_topics ri) of
            None \<Rightarrow> Telemetry
          | Some d \<Rightarrow> td_delivery_semantics d))"

text \<open>\<open>SubscribeInternal\<close> on the caller's thread: the slot, and the handler posted to the loop.\<close>

definition subscribe_internal ::
  "ctx \<Rightarrow> string \<Rightarrow> double \<Rightarrow> frame_dispatcher \<Rightarrow> bool \<Rightarrow> robot \<Rightarrow> nat \<times> robot" where
  "subscribe_internal c topic hz fd cb r =
    (let i = r_next_slot r;
         s = sub_slot_new (cx_opts c) topic hz fd cb
               (resolve_semantics_from_info (r_robot_info r) topic)
     in (i, r\<lparr>r_slots := (r_slots r)(i := s), r_next_slot := Suc i,
              r_ioc := r_ioc r @ [EvSubscribe i]\<rparr>))"

definition subscribe_robot_status :: "ctx \<Rightarrow> double \<Rightarrow> bool \<Rightarrow> robot \<Rightarrow> nat \<times> robot" where
  "subscribe_robot_status c hz cb = subscribe_internal c ''robot.state'' hz FdRobotStatus cb"

definition subscribe_task_events :: "ctx \<Rightarrow> bool \<Rightarrow> robot \<Rightarrow> nat \<times> robot" where
  "subscribe_task_events c cb = subscribe_internal c ''tasks.events'' 0 FdTaskEvents cb"

definition subscribe_safety_events :: "ctx \<Rightarrow> bool \<Rightarrow> robot \<Rightarrow> nat \<times> robot" where
  "subscribe_safety_events c cb = subscribe_internal c ''robot.safety'' 0 FdSafetyEvents cb"

definition close_and_drop :: "nat \<Rightarrow> error_code \<Rightarrow> string \<Rightarrow> robot \<Rightarrow> robot" where
  "close_and_drop i err reason r =
    (let r1 = fire_status i StClosed None err reason
                (upd_slot i (\<lambda>s. s\<lparr>sl_state := SubClosed, sl_error_code := err\<rparr>) r)
     in r1\<lparr>r_active_subs := std_map_erase (sl_topic (r_slots r1 i)) (r_active_subs r1)\<rparr>)"

definition effective_since :: "slot \<Rightarrow> u64 \<Rightarrow> u64" where
  "effective_since s since_seq = (if sl_semantics s = Telemetry then 0 else since_seq)"

text \<open>The request enters the slot and the two maps; and leaves them when it cannot be sent.\<close>

definition register_subscribe :: "ctx \<Rightarrow> u64 \<Rightarrow> nat \<Rightarrow> u64 \<Rightarrow> robot \<Rightarrow> robot" where
  "register_subscribe c rid i since r =
    (let r1 = upd_slot i (\<lambda>s. s\<lparr>sl_expected_resume_seq := since,
                sl_is_reconnect_resume := (sl_state s = SubPaused)
                  \<or> (sl_ever_active s \<and> r_state r = CsReconnecting),
                sl_state := SubPending, sl_inflight_request := rid\<rparr>) r
     in r1\<lparr>r_inflight_sub := AList.update rid (sl_topic (r_slots r1 i)) (r_inflight_sub r1),
           r_sub_ack_timers := AList.update rid
             (i, after_ms (co_subscribe_ack_timeout (cx_opts c)) r1) (r_sub_ack_timers r1)\<rparr>)"

definition unregister_subscribe :: "u64 \<Rightarrow> nat \<Rightarrow> robot \<Rightarrow> robot" where
  "unregister_subscribe rid i r =
    upd_slot i (\<lambda>s. s\<lparr>sl_inflight_request := 0\<rparr>)
      (r\<lparr>r_sub_ack_timers := AList.delete rid (r_sub_ack_timers r),
         r_inflight_sub := AList.delete rid (r_inflight_sub r)\<rparr>)"

definition send_subscribe ::
  "ctx \<Rightarrow> on_complete_fn \<Rightarrow> nat \<Rightarrow> u64 \<Rightarrow> robot \<Rightarrow> robot outcome" where
  "send_subscribe c oc i since_seq r =
    (let (rid, r1) = next_request_id r;
         s = r_slots r1 i;
         since = effective_since s since_seq
     in case encode_subscribe (cx_pb c) rid (sl_topic s) (sl_desired_hz s) since
               (if since > 0 then co_history_limit (cx_opts c) else 0) of
          Inl e \<Rightarrow> Inr (close_and_drop i EcInternalError (exn_what e) r1)
        | Inr b \<Rightarrow>
            let (ok, r2) = send_or_fail c b (register_subscribe c rid i since r1)
            in if ok then Inr r2
               else on_transport_close c oc EcTransportFailure ''SendSubscribe failed''
                      (unregister_subscribe rid i r2))"

text \<open>
  The range-\<open>for\<close> loops over \<open>active_subs_\<close> whose body sends: after each round the iterator steps on
  from the current element, so the element must still be in the map.
\<close>

fun for_each_sub ::
  "(nat \<Rightarrow> robot \<Rightarrow> robot outcome) \<Rightarrow> (string \<times> nat) list \<Rightarrow> robot \<Rightarrow> robot outcome" where
  "for_each_sub body [] r = Inr r"
| "for_each_sub body ((topic, i) # rest) r =
     obind (body i r)
       (\<lambda>r1. if map_of (r_active_subs r1) topic = None then Inl IteratorInvalidated
             else for_each_sub body rest r1)"

definition resubscribe_one :: "ctx \<Rightarrow> on_complete_fn \<Rightarrow> nat \<Rightarrow> robot \<Rightarrow> robot outcome" where
  "resubscribe_one c oc i r =
    (let r1 = upd_slot i (\<lambda>s. s\<lparr>sl_fresh_retry_done := False\<rparr>) r;
         s = r_slots r1 i;
         since = (if sl_semantics s = Event \<and> co_reconnect_replay_history (cx_opts c)
                     \<and> sl_last_seq s > 0
                  then sl_last_seq s + 1 else 0)
     in send_subscribe c oc i since r1)"

definition resubscribe_all :: "ctx \<Rightarrow> on_complete_fn \<Rightarrow> robot \<Rightarrow> robot outcome" where
  "resubscribe_all c oc r = for_each_sub (resubscribe_one c oc) (r_active_subs r) r"

text \<open>The loop after the first handshake.\<close>

definition subscribe_pending :: "ctx \<Rightarrow> on_complete_fn \<Rightarrow> nat \<Rightarrow> robot \<Rightarrow> robot outcome" where
  "subscribe_pending c oc i r =
    (if sl_state (r_slots r i) = SubPending \<and> sl_inflight_request (r_slots r i) = 0
     then send_subscribe c oc i 0 r else Inr r)"

text \<open>The handler \<open>SubscribeInternal\<close> posts.\<close>

definition handle_subscribe :: "ctx \<Rightarrow> on_complete_fn \<Rightarrow> nat \<Rightarrow> robot \<Rightarrow> robot outcome" where
  "handle_subscribe c oc i r =
    (let s = r_slots r i
     in if sl_user_closed s then Inr (upd_slot i (\<lambda>s. s\<lparr>sl_state := SubClosed\<rparr>) r)
        else if map_of (r_active_subs r) (sl_topic s) \<noteq> None
        then Inr (fire_status i StClosed None EcTopicAlreadySubscribed ''already subscribed''
                (upd_slot i (\<lambda>s. s\<lparr>sl_state := SubClosed,
                                   sl_error_code := EcTopicAlreadySubscribed\<rparr>) r))
        else
          let r1 = r\<lparr>r_active_subs := std_map_put (sl_topic s) i (r_active_subs r)\<rparr>
          in if r_state r1 \<noteq> CsReady then Inr r1 else send_subscribe c oc i 0 r1)"

end
