(* ===== verification/RobotAck.thy ===== *)
theory RobotAck
  imports RobotSubs
begin

text \<open>
  \<open>HandleSubscribeAck\<close>, \<open>UnsubscribeRequest\<close> and the facade of \<open>src/robot_impl.cpp\<close>: what an
  acknowledgement does to the slot and to the progress of a reconnect, and how a subscription ends.
\<close>

section \<open>Acknowledgements\<close>

definition reject_reason_to_error :: "subscribe_reject_reason \<Rightarrow> error_code" where
  "reject_reason_to_error r =
    (case r of
       RejNone \<Rightarrow> EcOk
     | RejTopicNotFound \<Rightarrow> EcTopicNotFound
     | RejCapabilityDenied \<Rightarrow> EcCapabilityDenied
     | RejAlreadySubscribed \<Rightarrow> EcTopicAlreadySubscribed
     | RejInvalidHz \<Rightarrow> EcControlInvalidTwist
     | RejHistoryTooOld \<Rightarrow> EcInternalError
     | RejReplayNotSupported \<Rightarrow> EcInternalError
     | RejOther _ \<Rightarrow> EcInternalError)"

text \<open>The block every outcome of an acknowledgement ends with while reconnecting.\<close>

definition reconnect_sub_done :: "robot \<Rightarrow> robot" where
  "reconnect_sub_done r =
    (if r_state r = CsReconnecting \<and> r_subs_pending r > 0
     then
       let r1 = r\<lparr>r_subs_pending := r_subs_pending r - 1\<rparr>
       in if r_subs_pending r1 = 0 \<and> \<not> r_estop_pending r1
          then transition_to CsReady (change_info ''reconnect ok'' EcOk [] 0 0 [])
                 (r1\<lparr>r_reconnect_attempt := 0, r_reconnect_total := r_reconnect_total r1 + 1\<rparr>)
          else r1
     else r)"

text \<open>
  The accepted acknowledgement of an event topic: the status to report, its gap count, and the new
  \<open>last_seq\<close>, from the next sequence number \<open>k\<close> of the server and the one that was asked for.
\<close>

definition resume_decision ::
  "u64 \<Rightarrow> u64 \<Rightarrow> bool \<Rightarrow> u64 \<Rightarrow> stream_status_kind \<times> u64 option \<times> u64" where
  "resume_decision k expected is_resume last_seq =
    (if expected = 0
     then (if is_resume then StResumed else StStarted, None, if k \<ge> 1 then k - 1 else 0)
     else if k = expected then (StResumed, Some 0, last_seq)
     else if k > expected then (StResumed, Some (k - expected), k - 1)
     else (StResumed, None, if k \<ge> 1 then k - 1 else 0))"

definition activate ::
  "nat \<Rightarrow> stream_status_kind \<Rightarrow> u64 option \<Rightarrow> u64 \<Rightarrow> u64 \<Rightarrow> robot \<Rightarrow> robot" where
  "activate i kind gap new_last next_seq r =
    (let r1 = upd_slot i (\<lambda>s. s\<lparr>sl_last_seq := new_last, sl_state := SubActive\<rparr>) r;
         r2 = fire_status i kind gap EcOk [] r1;
         r3 = drain_pending_buffer i next_seq r2;
         r4 = upd_slot i (\<lambda>s. s\<lparr>sl_ever_active := True, sl_is_reconnect_resume := False\<rparr>) r3
     in reconnect_sub_done r4)"

definition ack_failed ::
  "ctx \<Rightarrow> on_complete_fn \<Rightarrow> nat \<Rightarrow> decoded_response \<Rightarrow> robot \<Rightarrow> robot outcome" where
  "ack_failed c oc i resp r =
    (case classify (dr_sdk_code resp) of
       CatFatal \<Rightarrow> abort_to_fatal oc (dr_sdk_code resp) (''subscribe fatal: '' @ dr_message resp) r
     | CatTransient \<Rightarrow>
         if r_state r = CsReconnecting
         then on_transport_close c oc (dr_sdk_code resp) (dr_message resp)
                (r\<lparr>r_failure_code := dr_sdk_code resp, r_failure_message := dr_message resp\<rparr>)
         else Inr (close_and_drop i (dr_sdk_code resp) (dr_message resp) r)
     | _ \<Rightarrow> Inr (reconnect_sub_done (close_and_drop i (dr_sdk_code resp) (dr_message resp) r)))"

definition ack_telemetry :: "nat \<Rightarrow> decoded_response \<Rightarrow> robot \<Rightarrow> robot" where
  "ack_telemetry i resp r =
    (if \<not> dr_sub_accepted resp
     then reconnect_sub_done (close_and_drop i
            (reject_reason_to_error (dr_sub_reject_reason resp)) (dr_sub_message resp) r)
     else activate i (if sl_is_reconnect_resume (r_slots r i) then StResumed else StStarted)
            None 0 0 r)"

definition ack_event ::
  "ctx \<Rightarrow> on_complete_fn \<Rightarrow> nat \<Rightarrow> decoded_response \<Rightarrow> robot \<Rightarrow> robot outcome" where
  "ack_event c oc i resp r =
    (if \<not> dr_sub_accepted resp
     then
       if dr_sub_reject_reason resp = RejHistoryTooOld
          \<or> dr_sub_reject_reason resp = RejReplayNotSupported
       then
         if sl_fresh_retry_done (r_slots r i)
         then Inr (reconnect_sub_done (close_and_drop i EcInternalError
                ''fresh subscribe rejected after replay fallback'' r))
         else send_subscribe c oc i 0
                (upd_slot i (\<lambda>s. s\<lparr>sl_last_seq := 0, sl_fresh_retry_done := True\<rparr>) r)
       else Inr (reconnect_sub_done (close_and_drop i
              (reject_reason_to_error (dr_sub_reject_reason resp)) (dr_sub_message resp) r))
     else
       let s = r_slots r i;
           (kind, gap, new_last) = resume_decision (dr_sub_next_seq resp)
              (sl_expected_resume_seq s) (sl_is_reconnect_resume s) (sl_last_seq s)
       in Inr (activate i kind gap new_last (dr_sub_next_seq resp) r))"

definition handle_subscribe_ack ::
  "ctx \<Rightarrow> on_complete_fn \<Rightarrow> decoded_response \<Rightarrow> robot \<Rightarrow> robot outcome" where
  "handle_subscribe_ack c oc resp r =
    (let rid = dr_request_id resp
     in case map_of (r_inflight_sub r) rid of
          None \<Rightarrow> Inr (post_log LogDebug
                    (''SubscribeAck for unknown request_id='' @ dec_u64 rid) r)
        | Some topic \<Rightarrow>
            let r1 = r\<lparr>r_inflight_sub := AList.delete rid (r_inflight_sub r),
                       r_sub_ack_timers := AList.delete rid (r_sub_ack_timers r)\<rparr>
            in case map_of (r_active_subs r1) topic of
                 None \<Rightarrow> Inr r1
               | Some i \<Rightarrow>
                   if sl_inflight_request (r_slots r1 i) \<noteq> rid then Inr r1
                   else
                     let r2 = upd_slot i (\<lambda>s. s\<lparr>sl_inflight_request := 0\<rparr>) r1
                     in if \<not> dr_success resp then ack_failed c oc i resp r2
                        else if sl_semantics (r_slots r2 i) = Telemetry
                        then Inr (ack_telemetry i resp r2)
                        else ack_event c oc i resp r2)"

text \<open>The timer of \<open>SendSubscribe\<close>.\<close>

definition on_sub_ack_timeout ::
  "ctx \<Rightarrow> on_complete_fn \<Rightarrow> nat \<Rightarrow> u64 \<Rightarrow> robot \<Rightarrow> robot outcome" where
  "on_sub_ack_timeout c oc i rid r =
    (if sl_inflight_request (r_slots r i) \<noteq> rid then Inr r
     else on_transport_close c oc EcTimeout ''SubscribeAck timeout''
            (post_log LogWarn (''SubscribeAck timeout for '' @ sl_topic (r_slots r i)) r))"

section \<open>Unsubscribing\<close>

text \<open>The handler of \<open>UnsubscribeRequest(topic, false)\<close>: what dropping the facade posts.\<close>

definition em_dash :: string where
  "em_dash = [CHR 0xE2, CHR 0x80, CHR 0x94]"

definition handle_unsub_async :: "ctx \<Rightarrow> string \<Rightarrow> robot \<Rightarrow> robot" where
  "handle_unsub_async c topic r =
    (case map_of (r_active_subs r) topic of
       None \<Rightarrow> r
     | Some i \<Rightarrow>
         let (can_send, r1) = (if r_state r = CsReady then ws_is_open c r else (False, r));
             r2 = (if can_send \<and> \<not> sl_unsubscribe_sent (r_slots r1 i)
                   then
                     let (rid, r1a) = next_request_id r1
                     in case encode_unsubscribe (cx_pb c) rid topic of
                          Inl e \<Rightarrow> r1a
                        | Inr b \<Rightarrow>
                            let r1b = count_bytes_sent b r1a;
                                r1c = (case r_ws r1b of
                                         None \<Rightarrow> r1b
                                       | Some n \<Rightarrow> snd (ws_post_call c n b r1b))
                            in upd_slot i (\<lambda>s. s\<lparr>sl_unsubscribe_sent := True\<rparr>) r1c
                   else r1);
             prev = sl_state (r_slots r2 i);
             r3 = upd_slot i (\<lambda>s. s\<lparr>sl_state := SubClosed\<rparr>) r2;
             r4 = (if prev \<noteq> SubClosed
                   then fire_status i StClosed None EcOk ''Unsubscribe()'' r3 else r3);
             r5 = r4\<lparr>r_active_subs := std_map_erase topic (r_active_subs r4)\<rparr>
         in post_log LogWarn
              (''subscription dropped without explicit Unsubscribe() '' @ em_dash @ '' topic='' @ topic) r5)"

text \<open>The handler of \<open>UnsubscribeRequest(topic, true)\<close>, with the promise the caller waits on.\<close>

definition handle_unsub_sync :: "ctx \<Rightarrow> string \<Rightarrow> nat \<Rightarrow> robot \<Rightarrow> robot outcome" where
  "handle_unsub_sync c topic p r =
    (case map_of (r_active_subs r) topic of
       None \<Rightarrow> set_value p (AnsUnsubscribe EcOk) r
     | Some i \<Rightarrow>
         let (up, r1) = (if r_state r \<noteq> CsReady then (False, r) else ws_is_open c r)
         in if \<not> up
            then
              let r2 = fire_status i StClosed None EcDisconnected ''Unsubscribe() while disconnected''
                         (upd_slot i (\<lambda>s. s\<lparr>sl_state := SubClosed, sl_error_code := EcDisconnected\<rparr>) r1)
              in set_value p (AnsUnsubscribe EcDisconnected)
                   (r2\<lparr>r_active_subs := std_map_erase topic (r_active_subs r2)\<rparr>)
            else
              let (rid, r2) = next_request_id r1;
                  rpc = \<lparr>ir_request_id = rid, ir_method = ''unsubscribe'', ir_enqueued_at = r_now r2,
                         ir_on_complete = CUnsubscribe topic p,
                         ir_timeout = Some (after_ms (co_subscribe_ack_timeout (cx_opts c)) r2)\<rparr>;
                  r3 = r2\<lparr>r_inflight := AList.update rid rpc (r_inflight r2)\<rparr>
              in case encode_unsubscribe (cx_pb c) rid topic of
                   Inl e \<Rightarrow>
                     obind (set_value p (AnsUnsubscribe EcTransportFailure)
                              (r3\<lparr>r_inflight := AList.delete rid (r_inflight r3)\<rparr>))
                       (\<lambda>r4. Inr (post_log LogError (''Unsubscribe send: '' @ exn_what e) r4))
                 | Inr b \<Rightarrow>
                     let (ok, r4) = send_or_fail c b r3
                     in if \<not> ok
                        then set_value p (AnsUnsubscribe EcTransportFailure)
                               (r4\<lparr>r_inflight := AList.delete rid (r_inflight r4)\<rparr>)
                        else Inr (upd_slot i (\<lambda>s. s\<lparr>sl_unsubscribe_sent := True\<rparr>) r4))"

section \<open>The facade\<close>

text \<open>
  A call either returns at once or waits on a promise. \<open>on_dispatcher\<close>: the caller is the
  dispatcher's thread.
\<close>

datatype 'a call = Returns 'a | WaitsFor nat

definition new_promise :: "robot \<Rightarrow> nat \<times> robot" where
  "new_promise r = (r_next_promise r, r\<lparr>r_next_promise := Suc (r_next_promise r)\<rparr>)"

definition post_event :: "event \<Rightarrow> robot \<Rightarrow> robot" where
  "post_event e r = r\<lparr>r_ioc := r_ioc r @ [e]\<rparr>"

definition unsubscribe_request ::
  "bool \<Rightarrow> string \<Rightarrow> bool \<Rightarrow> robot \<Rightarrow> error_code call \<times> robot" where
  "unsubscribe_request on_dispatcher topic sync_wait r =
    (if \<not> sync_wait then (Returns EcOk, post_event (EvUnsubAsync topic) r)
     else if on_dispatcher then (Returns EcWouldDeadlock, r)
     else
       let (p, r1) = new_promise r
       in (WaitsFor p, post_event (EvUnsubSync topic p) r1))"

text \<open>\<open>robot_alive\<close>: the weak pointer of the facade still locks.\<close>

definition facade_unsubscribe ::
  "bool \<Rightarrow> bool \<Rightarrow> nat \<Rightarrow> robot \<Rightarrow> error_code call \<times> robot" where
  "facade_unsubscribe robot_alive on_dispatcher i r =
    (if \<not> robot_alive
     then (Returns EcDisconnected,
           upd_slot i (\<lambda>s. s\<lparr>sl_state := SubClosed, sl_error_code := EcDisconnected\<rparr>) r)
     else unsubscribe_request on_dispatcher (sl_topic (r_slots r i)) True r)"

definition facade_destroy :: "bool \<Rightarrow> nat \<Rightarrow> robot \<Rightarrow> robot" where
  "facade_destroy robot_alive i r =
    (let r1 = upd_slot i (\<lambda>s. s\<lparr>sl_user_closed := True\<rparr>) r
     in if robot_alive \<and> sl_state (r_slots r1 i) \<noteq> SubClosed
        then snd (unsubscribe_request False (sl_topic (r_slots r1 i)) False r1)
        else r1)"

end
