(* ===== verification/RobotRpc.thy ===== *)
theory RobotRpc
  imports RobotAck
begin

text \<open>
  The remote calls of \<open>src/robot_impl.cpp\<close>: the handshake and \<open>EstablishConnection\<close>, the replay of
  the emergency stop, the heartbeat, \<open>CmdVel\<close>, \<open>EmergencyStop\<close>, the task calls, \<open>Ping\<close>, and what
  their \<open>on_complete\<close> lambdas and their timers do. \<open>call_on_complete\<close> ties the knot left open in
  \<open>RobotCore\<close>: its first number is the stack that is left, and a call that finds none is
  \<open>StackOverflow\<close>.
\<close>

section \<open>Heartbeat\<close>

definition start_heartbeat :: "ctx \<Rightarrow> robot \<Rightarrow> robot" where
  "start_heartbeat c r =
    (let r1 = upd_heartbeat (\<lambda>h. h\<lparr>hb_last_inbound_at := r_now r, hb_miss_count := 0,
                                    hb_ping_deadline_active := False\<rparr>) r
     in if co_heartbeat_interval (cx_opts c) \<le> 0 then r1
        else r1\<lparr>r_idle_timer := Some (after_ms (co_heartbeat_interval (cx_opts c)) r1)\<rparr>)"

definition reset_liveness_on_inbound :: "robot \<Rightarrow> robot" where
  "reset_liveness_on_inbound r =
    (let r1 = upd_heartbeat (\<lambda>h. h\<lparr>hb_last_inbound_at := r_now r, hb_miss_count := 0\<rparr>) r
     in if hb_ping_deadline_active (r_heartbeat r1)
        then upd_heartbeat (\<lambda>h. h\<lparr>hb_ping_deadline_active := False\<rparr>) (r1\<lparr>r_ping_timer := None\<rparr>)
        else r1)"

definition now_steady_ms :: "robot \<Rightarrow> u64" where
  "now_steady_ms r = of_int (r_now r div 1000000)"

definition elapsed_ms :: "int \<Rightarrow> robot \<Rightarrow> ms" where
  "elapsed_ms since r = (r_now r - since) div 1000000"

definition put_inflight :: "u64 \<Rightarrow> inflight_rpc \<Rightarrow> robot \<Rightarrow> robot" where
  "put_inflight rid rpc r = r\<lparr>r_inflight := AList.update rid rpc (r_inflight r)\<rparr>"

definition erase_inflight :: "u64 \<Rightarrow> robot \<Rightarrow> robot" where
  "erase_inflight rid r = r\<lparr>r_inflight := AList.delete rid (r_inflight r)\<rparr>"

text \<open>Sending a ping of the heartbeat: the request, the deadline timer, the frame.\<close>

definition send_heartbeat_ping ::
  "ctx \<Rightarrow> u64 \<Rightarrow> completion \<Rightarrow> robot \<Rightarrow> bool \<times> robot" where
  "send_heartbeat_ping c rid lam r =
    (let r1 = upd_heartbeat (\<lambda>h. h\<lparr>hb_last_ping_request_id := rid, hb_last_ping_sent_at := r_now r,
                                    hb_ping_deadline_active := True\<rparr>) r;
         r2 = put_inflight rid \<lparr>ir_request_id = rid, ir_method = ''ping'', ir_enqueued_at = r_now r1,
                                ir_on_complete = lam, ir_timeout = None\<rparr> r1;
         r3 = r2\<lparr>r_ping_timer := Some (after_ms (co_ping_timeout (cx_opts c)) r2)\<rparr>
     in case encode_ping (cx_pb c) rid (now_steady_ms r3) of
          Inl e \<Rightarrow> (False, r3)
        | Inr b \<Rightarrow> send_or_fail c b r3)"

definition on_idle_timer :: "ctx \<Rightarrow> on_complete_fn \<Rightarrow> robot \<Rightarrow> robot outcome" where
  "on_idle_timer c oc r =
    (if r_state r \<noteq> CsReady then Inr r
     else
       let idle = elapsed_ms (hb_last_inbound_at (r_heartbeat r)) r;
           interval = co_heartbeat_interval (cx_opts c)
       in if idle < interval
          then Inr (r\<lparr>r_idle_timer := Some (after_ms (interval - idle) r)\<rparr>)
          else
            let (up, r1) = ws_is_open c r
            in if \<not> up then Inr r1
               else
                 let (rid, r2) = next_request_id r1;
                     (ok, r3) = send_heartbeat_ping c rid (CHeartbeat (r_now r2)) r2
                 in if \<not> ok
                    then on_transport_close c oc EcTransportFailure ''heartbeat send failed'' r3
                    else
                      let r4 = upd_metrics (\<lambda>m. m\<lparr>mt_last_ping_sent_ms := r_epoch_ms r3\<rparr>) r3
                      in Inr (r4\<lparr>r_idle_timer := Some (after_ms interval r4)\<rparr>))"

definition on_ping_deadline :: "ctx \<Rightarrow> on_complete_fn \<Rightarrow> robot \<Rightarrow> robot outcome" where
  "on_ping_deadline c oc r =
    (if r_state r \<noteq> CsReady then Inr r
     else if \<not> hb_ping_deadline_active (r_heartbeat r) then Inr r
     else
       let r1 = upd_heartbeat (\<lambda>h. h\<lparr>hb_ping_deadline_active := False,
                                       hb_miss_count := hb_miss_count h + 1\<rparr>) r;
           misses = hb_miss_count (r_heartbeat r1)
       in if co_max_missed_pings (cx_opts c) \<le> misses
          then on_transport_close c oc EcTransportFailure ''heartbeat dead''
                 (post_log LogWarn (''heartbeat miss_count='' @ dec_nat (unat misses)
                    @ '' >= max_missed_pings, declaring dead'') r1)
          else
            let (up, r2) = ws_is_open c r1
            in if \<not> up then Inr r2
               else
                 let (rid, r3) = next_request_id r2;
                     (ok, r4) = send_heartbeat_ping c rid CNone r3
                 in if \<not> ok
                    then on_transport_close c oc EcTransportFailure ''heartbeat resend failed'' r4
                    else Inr r4)"

section \<open>The emergency stop replayed after a reconnect\<close>

definition replay_suffix :: string where
  "replay_suffix = '' [auto-replayed after reconnect]''"

definition do_estop_replay :: "ctx \<Rightarrow> on_complete_fn \<Rightarrow> robot \<Rightarrow> robot outcome" where
  "do_estop_replay c oc r =
    (let (rid, r1) = next_request_id r;
         r2 = put_inflight rid
                \<lparr>ir_request_id = rid, ir_method = ''safety.emergency_stop.replay'',
                 ir_enqueued_at = r_now r1, ir_on_complete = CEStopReplay,
                 ir_timeout = Some (after_ms (co_estop_rpc_timeout (cx_opts c)) r1)\<rparr> r1;
         give_up = (\<lambda>msg r. on_transport_close c oc EcTransportFailure msg
                              ((erase_inflight rid r)\<lparr>r_estop_pending := False\<rparr>))
     in case encode_emergency_stop (cx_pb c) rid True (r_estop_reason r2 @ replay_suffix) of
          Inl e \<Rightarrow> give_up (exn_what e) r2
        | Inr b \<Rightarrow>
            let (ok, r3) = send_or_fail c b r2
            in if \<not> ok then give_up ''estop replay send failed'' r3 else Inr r3)"

definition complete_estop_replay ::
  "ctx \<Rightarrow> on_complete_fn \<Rightarrow> decoded_response \<Rightarrow> error_code \<Rightarrow> robot \<Rightarrow> robot outcome" where
  "complete_estop_replay c oc resp err r =
    (let ok = (err = EcOk \<and> dr_success resp \<and> (\<not> dr_has_rpc resp \<or> dr_rpc_code resp = EcOk));
         r1 = r\<lparr>r_estop_pending := False\<rparr>
     in if \<not> ok
        then on_transport_close c oc
               (if err \<noteq> EcOk then err
                else if dr_success resp then dr_rpc_code resp else dr_sdk_code resp)
               ''estop replay failed'' r1
        else if r_subs_pending r1 = 0
        then Inr (transition_to CsReady
               (change_info ''reconnect ok (estop replayed)'' EcOk [] 0 0 ''estop_replay_ok'')
               (r1\<lparr>r_reconnect_attempt := 0, r_reconnect_total := r_reconnect_total r1 + 1\<rparr>))
        else Inr r1)"

section \<open>The handshake\<close>

definition robot_info_of_response :: "decoded_response \<Rightarrow> robot_info" where
  "robot_info_of_response resp =
    \<lparr>ri_sn = dr_robot_sn resp, ri_model = dr_robot_model resp,
     ri_protocol_version = dr_protocol_version resp,
     ri_granted_capabilities = dr_granted_capabilities resp,
     ri_available_topics = dr_available_topics resp\<rparr>"

text \<open>The tail of the handshake of a reconnect.\<close>

definition resume_session :: "ctx \<Rightarrow> on_complete_fn \<Rightarrow> robot \<Rightarrow> robot outcome" where
  "resume_session c oc r =
    (let r1 = r\<lparr>r_subs_pending := of_nat (length (r_active_subs r)),
               r_estop_pending := r_estop_engaged r, r_failure_code := EcOk\<rparr>
     in if r_subs_pending r1 = 0 \<and> \<not> r_estop_pending r1
        then Inr (transition_to CsReady (change_info ''reconnect ok'' EcOk [] 0 0 [])
               (r1\<lparr>r_reconnect_attempt := 0, r_reconnect_total := r_reconnect_total r1 + 1\<rparr>))
        else obind (resubscribe_all c oc r1)
               (\<lambda>r2. if r_estop_pending r2 then do_estop_replay c oc r2 else Inr r2))"

definition complete_handshake ::
  "ctx \<Rightarrow> on_complete_fn \<Rightarrow> bool \<Rightarrow> decoded_response \<Rightarrow> error_code \<Rightarrow> robot \<Rightarrow> robot outcome" where
  "complete_handshake c oc is_reconnect resp err r =
    (if err \<noteq> EcOk then Inr r
     else if \<not> dr_success resp \<or> \<not> dr_has_handshake resp
     then
       let code = (if dr_success resp then EcInternalError else dr_sdk_code resp)
       in if classify code = CatFatal
          then abort_to_fatal oc code (''handshake rejected: '' @ dr_message resp) r
          else fail_and_reconnect c oc ''handshake failed'' code (dr_message resp) True r
     else
       let r1 = start_heartbeat c (r\<lparr>r_robot_info := Some (robot_info_of_response resp)\<rparr>)
       in if \<not> is_reconnect
          then
            let r2 = transition_to CsReady (change_info ''handshake ok'' EcOk [] 0 0 []) r1
            in for_each_sub (subscribe_pending c oc) (r_active_subs r2) r2
          else resume_session c oc r1)"

section \<open>Completion of the calls of the user\<close>

definition upd_cmdvel_stat :: "(rpc_stat \<Rightarrow> rpc_stat) \<Rightarrow> robot \<Rightarrow> robot" where
  "upd_cmdvel_stat f = upd_metrics (\<lambda>m. m\<lparr>mt_cmdvel := f (mt_cmdvel m)\<rparr>)"

definition upd_estop_stat :: "(rpc_stat \<Rightarrow> rpc_stat) \<Rightarrow> robot \<Rightarrow> robot" where
  "upd_estop_stat f = upd_metrics (\<lambda>m. m\<lparr>mt_estop := f (mt_estop m)\<rparr>)"

definition count_call :: "rpc_stat \<Rightarrow> rpc_stat" where
  "count_call s = s\<lparr>rst_count := rst_count s + 1\<rparr>"

definition count_error :: "rpc_stat \<Rightarrow> rpc_stat" where
  "count_error s = s\<lparr>rst_error_count := rst_error_count s + 1\<rparr>"

definition record_latency :: "ms \<Rightarrow> rpc_stat \<Rightarrow> rpc_stat" where
  "record_latency rtt s = s\<lparr>rst_latency_hist := rtt_record rtt (rst_latency_hist s)\<rparr>"

definition cmdvel_failed :: "error_code \<Rightarrow> string \<Rightarrow> ms \<Rightarrow> answer" where
  "cmdvel_failed code msg rtt =
    AnsCmdVel \<lparr>cvr_accepted = False, cvr_code = code, cvr_message = msg, cvr_rtt = rtt\<rparr>"

definition complete_cmd_vel ::
  "int \<Rightarrow> nat \<Rightarrow> decoded_response \<Rightarrow> error_code \<Rightarrow> robot \<Rightarrow> robot outcome" where
  "complete_cmd_vel t0 p resp err r =
    (if err \<noteq> EcOk
     then set_value p (cmdvel_failed err ''transport error'' 0) (upd_cmdvel_stat count_error r)
     else
       let rtt = elapsed_ms t0 r;
           r1 = upd_cmdvel_stat (record_latency rtt) r
       in if \<not> dr_success resp
          then set_value p (cmdvel_failed (dr_sdk_code resp) (dr_message resp) rtt)
                 (upd_cmdvel_stat count_error r1)
          else if dr_has_rpc resp \<and> dr_rpc_code resp \<noteq> EcOk
          then set_value p (cmdvel_failed (dr_rpc_code resp) (dr_rpc_message resp) rtt)
                 (upd_cmdvel_stat count_error r1)
          else set_value p (AnsCmdVel \<lparr>cvr_accepted = True, cvr_code = EcOk, cvr_message = [],
                                       cvr_rtt = rtt\<rparr>) r1)"

definition estop_failed :: "error_code \<Rightarrow> string \<Rightarrow> answer" where
  "estop_failed code msg = AnsEStop \<lparr>er_ok = False, er_code = code, er_message = msg\<rparr>"

definition complete_estop ::
  "bool \<Rightarrow> string \<Rightarrow> int \<Rightarrow> nat \<Rightarrow> decoded_response \<Rightarrow> error_code \<Rightarrow> robot \<Rightarrow> robot outcome" where
  "complete_estop engage reason t0 p resp err r =
    (let r0 = upd_estop_stat count_call r
     in if err \<noteq> EcOk
        then set_value p (estop_failed err ''transport error'') (upd_estop_stat count_error r0)
        else
          let r1 = upd_estop_stat (record_latency (elapsed_ms t0 r)) r0
          in if \<not> dr_success resp
             then set_value p (estop_failed (dr_sdk_code resp) (dr_message resp))
                    (upd_estop_stat count_error r1)
             else if dr_has_rpc resp \<and> dr_rpc_code resp \<noteq> EcOk
             then set_value p (estop_failed (dr_rpc_code resp) (dr_rpc_message resp))
                    (upd_estop_stat count_error r1)
             else set_value p (AnsEStop \<lparr>er_ok = True, er_code = EcOk, er_message = []\<rparr>)
                    (r1\<lparr>r_estop_engaged := engage, r_estop_reason := reason\<rparr>))"

definition rpc_failed :: "error_code \<Rightarrow> string \<Rightarrow> rpc_outcome" where
  "rpc_failed code msg = \<lparr>ro_code = code, ro_message = msg, ro_payload = []\<rparr>"

definition invoke_outcome :: "decoded_response \<Rightarrow> error_code \<Rightarrow> rpc_outcome" where
  "invoke_outcome resp err =
    (if err \<noteq> EcOk then rpc_failed err ''transport error''
     else if \<not> dr_success resp then rpc_failed (dr_sdk_code resp) (dr_message resp)
     else if \<not> dr_has_rpc resp then rpc_failed EcInternalError ''missing rpc payload in response''
     else if dr_rpc_code resp \<noteq> EcOk then rpc_failed (dr_rpc_code resp) (dr_rpc_message resp)
     else \<lparr>ro_code = EcOk, ro_message = [], ro_payload = dr_rpc_payload resp\<rparr>)"

definition record_rtt :: "ms \<Rightarrow> robot \<Rightarrow> robot" where
  "record_rtt rtt = upd_metrics (\<lambda>m. m\<lparr>mt_rtt_hist := rtt_record rtt (mt_rtt_hist m)\<rparr>)"

definition complete_unsubscribe ::
  "string \<Rightarrow> nat \<Rightarrow> decoded_response \<Rightarrow> error_code \<Rightarrow> robot \<Rightarrow> robot outcome" where
  "complete_unsubscribe topic p resp err r =
    (if err \<noteq> EcOk then set_value p (AnsUnsubscribe err) r
     else
       let code = (if dr_success resp then EcOk else dr_sdk_code resp);
           r1 = (case map_of (r_active_subs r) topic of
                   None \<Rightarrow> r
                 | Some i \<Rightarrow>
                     let ra = fire_status i StClosed None code (dr_message resp)
                           (upd_slot i (\<lambda>s. s\<lparr>sl_state := SubClosed, sl_error_code := code\<rparr>) r)
                     in ra\<lparr>r_active_subs := std_map_erase topic (r_active_subs ra)\<rparr>)
       in set_value p (AnsUnsubscribe code) r1)"

definition on_complete_body :: "ctx \<Rightarrow> on_complete_fn \<Rightarrow> on_complete_fn" where
  "on_complete_body c oc lam resp err r =
    (case lam of
       CNone \<Rightarrow> Inr r
     | CHandshake is_reconnect \<Rightarrow> complete_handshake c oc is_reconnect resp err r
     | CEStopReplay \<Rightarrow> complete_estop_replay c oc resp err r
     | CHeartbeat sent \<Rightarrow>
         if err = EcOk \<and> dr_has_rpc resp
            \<and> dr_rpc_id resp = hb_last_ping_request_id (r_heartbeat r)
         then Inr (record_rtt (elapsed_ms sent r) r) else Inr r
     | CUnsubscribe topic p \<Rightarrow> complete_unsubscribe topic p resp err r
     | CCmdVel t0 p \<Rightarrow> complete_cmd_vel t0 p resp err r
     | CEStop engage reason t0 p \<Rightarrow> complete_estop engage reason t0 p resp err r
     | CInvoke p \<Rightarrow> set_value p (AnsRpc (invoke_outcome resp err)) r
     | CPing t0 p \<Rightarrow>
         if err \<noteq> EcOk then set_value p (AnsPing (-1)) r
         else set_value p (AnsPing (elapsed_ms t0 r)) (record_rtt (elapsed_ms t0 r) r))"

primrec call_on_complete :: "ctx \<Rightarrow> nat \<Rightarrow> on_complete_fn" where
  "call_on_complete c 0 = (\<lambda>lam resp err r. Inl StackOverflow)"
| "call_on_complete c (Suc depth) = on_complete_body c (call_on_complete c depth)"

end
