(* ===== verification/RobotCalls.thy ===== *)
theory RobotCalls
  imports RobotRpc
begin

text \<open>
  \<open>EstablishConnection\<close>, and the synchronous calls of \<open>src/robot_impl.cpp\<close> in their two halves: the
  gates and the posting on the caller's thread, and the handler the control thread runs.
\<close>

section \<open>Connecting\<close>

definition sdk_version :: string where
  "sdk_version = ''3.3.1''"

definition ws_config_of :: "connect_options \<Rightarrow> ws_config" where
  "ws_config_of opts =
    \<lparr>wc_endpoint = co_host opts @ '':4434'', wc_path = ''/'', wc_cert_pem = co_cert_pem opts,
     wc_key_pem = co_key_pem opts, wc_ca_pem = co_ca_pem opts,
     wc_insecure_skip_verify = co_insecure_skip_verify opts,
     wc_connect_timeout = co_connect_timeout opts, wc_write_timeout = 2000\<rparr>"

definition encode_handshake :: "ctx \<Rightarrow> u64 \<Rightarrow> sdk_exception + bytes" where
  "encode_handshake c rid =
    (let opts = cx_opts c;
         version = (if co_sdk_version opts = [] then sdk_version else co_sdk_version opts)
     in if co_cert_pem opts \<noteq> []
        then (case pem_to_der (cx_x509 c) (co_cert_pem opts) of
                Inl e \<Rightarrow> Inl e
              | Inr der \<Rightarrow> encode_handshake_cert (cx_pb c) rid version (co_client_id opts) der)
        else encode_handshake_token (cx_pb c) rid version (co_client_id opts) (co_access_token opts))"

text \<open>From the connected client on: the handshake request and its timer.\<close>

definition send_handshake :: "ctx \<Rightarrow> on_complete_fn \<Rightarrow> bool \<Rightarrow> robot \<Rightarrow> robot outcome" where
  "send_handshake c oc is_reconnect r =
    (let (rid, r1) = next_request_id r
     in case encode_handshake c rid of
          Inl e \<Rightarrow> abort_to_fatal oc (exn_code e) (''handshake encode: '' @ exn_what e) r1
        | Inr b \<Rightarrow>
            let r2 = put_inflight rid
                  \<lparr>ir_request_id = rid, ir_method = ''handshake'', ir_enqueued_at = r_now r1,
                   ir_on_complete = CHandshake is_reconnect,
                   ir_timeout = Some (after_ms (co_connect_timeout (cx_opts c)) r1)\<rparr> r1;
                (ok, r3) = send_or_fail c b r2
            in if ok then Inr r3
               else fail_and_reconnect c oc ''handshake send failed'' EcTransportFailure
                      ''ws not open'' True (erase_inflight rid r3))"

definition connect_ws :: "ctx \<Rightarrow> on_complete_fn \<Rightarrow> bool \<Rightarrow> robot \<Rightarrow> robot outcome" where
  "connect_ws c oc is_reconnect r =
    (case ws_client_new (cx_ssl c) (ws_config_of (cx_opts c)) of
       Inl e \<Rightarrow>
         if classify (exn_code e) = CatFatal
         then abort_to_fatal oc (exn_code e) (''ws_client setup fatal: '' @ exn_what e) r
         else fail_and_reconnect c oc ''ws_client setup failed'' (exn_code e) (exn_what e) False r
     | Inr w \<Rightarrow>
         let n = r_next_conn r; r1 = r\<lparr>r_next_conn := Suc n\<rparr>
         in case ws_connect (cx_connect c n) w of
              Inl e \<Rightarrow>
                if classify (exn_code e) = CatFatal
                then abort_to_fatal oc (exn_code e) (''ws connect fatal: '' @ exn_what e) r1
                else fail_and_reconnect c oc ''ws connect failed'' (exn_code e) (exn_what e) False r1
            | Inr w' \<Rightarrow>
                let r2 = r1\<lparr>r_ws := Some n\<rparr>;
                    r3 = (if is_reconnect then r2
                          else upd_metrics (\<lambda>m. m\<lparr>mt_bytes_sent := 0, mt_bytes_received := 0\<rparr>) r2)
                in send_handshake c oc is_reconnect r3)"

definition establish_connection :: "ctx \<Rightarrow> on_complete_fn \<Rightarrow> bool \<Rightarrow> robot \<Rightarrow> robot outcome" where
  "establish_connection c oc is_reconnect r =
    (if \<not> is_reconnect
     then
       if r_state r \<noteq> CsIdle then Inr r
       else connect_ws c oc False
              (transition_to CsConnecting (change_info ''Connect()'' EcOk [] 0 0 []) r)
     else if r_state r \<noteq> CsReconnecting then Inr r
     else connect_ws c oc True r)"

definition on_reconnect_timer :: "ctx \<Rightarrow> on_complete_fn \<Rightarrow> u32 \<Rightarrow> robot \<Rightarrow> robot outcome" where
  "on_reconnect_timer c oc attempt r =
    (if r_state r \<noteq> CsTransientFailure then Inr r
     else establish_connection c oc True
            (transition_to CsReconnecting (change_info ''reconnecting'' EcOk [] 0 attempt [])
               (r\<lparr>r_reconnect_attempt := attempt\<rparr>)))"

section \<open>Closing\<close>

text \<open>The handler of \<open>Close()\<close>.\<close>

definition handle_close :: "ctx \<Rightarrow> on_complete_fn \<Rightarrow> robot \<Rightarrow> robot outcome" where
  "handle_close c oc r =
    (let r1 = transition_to CsShutdown
                (change_info ''user Close()'' EcCancelled [] 0 (r_reconnect_attempt r) []) r;
         r2 = r1\<lparr>r_idle_timer := None, r_ping_timer := None, r_reconnect_timer := None,
                r_sub_ack_timers := []\<rparr>
     in obind (complete_all oc decoded_response_default EcCancelled (r_inflight r2) r2)
          (\<lambda>r3.
             let r4 = r3\<lparr>r_inflight := []\<rparr>;
                 r5 = fold (\<lambda>(topic, i). close_slot EcCancelled ''Robot::Close()'' i)
                        (r_active_subs r4) r4;
                 r6 = ws_close_reset (r5\<lparr>r_active_subs := []\<rparr>)
             in Inr (r6\<lparr>r_work_guard := False\<rparr>)))"

text \<open>\<open>Close\<close> on the caller's thread, up to the joins.\<close>

definition close_call :: "robot \<Rightarrow> robot" where
  "close_call r =
    (if r_shutdown_requested r then r
     else post_event EvClose (r\<lparr>r_shutdown_requested := True\<rparr>))"

section \<open>The handlers of the synchronous calls\<close>

text \<open>
  \<open>register_call\<close> is what the posted handlers of \<open>CmdVel\<close>, \<open>EmergencyStop\<close>, \<open>InvokeRpc\<close> and \<open>Ping\<close>
  share: the check of the state, the inflight entry with its timer, the encoding and the sending.
  \<open>failed\<close> is the answer for an error, \<open>on_error\<close> what is counted when sending fails, \<open>sent\<close> what is done after it.
\<close>

definition register_call ::
  "ctx \<Rightarrow> string \<Rightarrow> int \<Rightarrow> ms \<Rightarrow> completion \<Rightarrow> (u64 \<Rightarrow> sdk_exception + bytes) \<Rightarrow>
    (error_code \<Rightarrow> string \<Rightarrow> answer) \<Rightarrow> (robot \<Rightarrow> robot) \<Rightarrow> (robot \<Rightarrow> robot) \<Rightarrow> nat \<Rightarrow> robot \<Rightarrow> robot outcome"
where
  "register_call c mname enqueued deadline lam encode failed on_error sent p r =
    (if r_state r \<noteq> CsReady \<or> r_ws r = None
     then set_value p (failed EcDisconnected ''not Ready'') r
     else
       let (rid, r1) = next_request_id r;
           r2 = put_inflight rid
                  \<lparr>ir_request_id = rid, ir_method = mname, ir_enqueued_at = enqueued,
                   ir_on_complete = lam, ir_timeout = Some (after_ms deadline r1)\<rparr> r1
       in case encode rid of
            Inl e \<Rightarrow>
              obind (set_value p (failed EcTransportFailure (exn_what e)) (erase_inflight rid r2))
                (\<lambda>r3. Inr (on_error r3))
          | Inr b \<Rightarrow>
              let (ok, r3) = send_or_fail c b r2
              in if \<not> ok
                 then obind (set_value p (failed EcTransportFailure ''ws not open'')
                               (erase_inflight rid r3)) (\<lambda>r4. Inr (on_error r4))
                 else Inr (sent r3))"

definition handle_cmd_vel ::
  "ctx \<Rightarrow> double \<Rightarrow> double \<Rightarrow> double \<Rightarrow> u64 \<Rightarrow> int \<Rightarrow> nat \<Rightarrow> robot \<Rightarrow> robot outcome" where
  "handle_cmd_vel c vx vy wz sq t0 p r =
    register_call c ''control.cmd_vel'' t0 (co_cmdvel_rpc_timeout (cx_opts c)) (CCmdVel t0 p)
      (\<lambda>rid. encode_cmd_vel (cx_pb c) rid vx vy wz sq (now_steady_ms r))
      (\<lambda>code msg. cmdvel_failed code msg 0) (upd_cmdvel_stat count_error) (\<lambda>r. r) p r"

definition handle_estop ::
  "ctx \<Rightarrow> bool \<Rightarrow> string \<Rightarrow> int \<Rightarrow> nat \<Rightarrow> robot \<Rightarrow> robot outcome" where
  "handle_estop c engage reason t0 p r =
    register_call c ''safety.emergency_stop'' t0 (co_estop_rpc_timeout (cx_opts c))
      (CEStop engage reason t0 p) (\<lambda>rid. encode_emergency_stop (cx_pb c) rid engage reason)
      estop_failed (upd_estop_stat count_error) (\<lambda>r. r) p r"

fun run_encoder :: "protobuf \<Rightarrow> rpc_encoder \<Rightarrow> u64 \<Rightarrow> sdk_exception + bytes" where
  "run_encoder pb (EncMarker m) rid = encode_create_nav_task_marker pb rid m"
| "run_encoder pb (EncPose x y theta) rid = encode_create_nav_task_pose pb rid x y theta"
| "run_encoder pb (EncCancel t) rid = encode_cancel_task pb rid t"
| "run_encoder pb (EncPause t) rid = encode_pause_task pb rid t"
| "run_encoder pb (EncResume t) rid = encode_resume_task pb rid t"

definition handle_invoke ::
  "ctx \<Rightarrow> string \<Rightarrow> ms \<Rightarrow> rpc_encoder \<Rightarrow> nat \<Rightarrow> robot \<Rightarrow> robot outcome" where
  "handle_invoke c mname deadline enc p r =
    register_call c mname (r_now r) deadline (CInvoke p) (run_encoder (cx_pb c) enc)
      (\<lambda>code msg. AnsRpc (rpc_failed code msg)) (\<lambda>r. r) (\<lambda>r. r) p r"

definition handle_ping :: "ctx \<Rightarrow> int \<Rightarrow> nat \<Rightarrow> robot \<Rightarrow> robot outcome" where
  "handle_ping c t0 p r =
    register_call c ''ping'' t0 (co_ping_timeout (cx_opts c)) (CPing t0 p)
      (\<lambda>rid. encode_ping (cx_pb c) rid (now_steady_ms r))
      (\<lambda>code msg. AnsPing (-1)) (\<lambda>r. r)
      (\<lambda>r. upd_metrics (\<lambda>m. m\<lparr>mt_last_ping_sent_ms := r_epoch_ms r\<rparr>) r) p r"

text \<open>
  The timers of the inflight calls. The lambda of each timer erases the entry it was made for and
  answers with \<open>Timeout\<close>; which lambda it is follows from the entry.
\<close>

definition on_rpc_timeout :: "ctx \<Rightarrow> on_complete_fn \<Rightarrow> u64 \<Rightarrow> robot \<Rightarrow> robot outcome" where
  "on_rpc_timeout c oc rid r =
    (case map_of (r_inflight r) rid of
       None \<Rightarrow> Inr r
     | Some rpc \<Rightarrow>
         let r1 = erase_inflight rid r
         in case ir_on_complete rpc of
              CHandshake b \<Rightarrow>
                obind (oc (CHandshake b) (fake_response EcTimeout ''handshake timeout'') EcTimeout r1)
                  (\<lambda>r2. Inr (ws_close_reset r2))
            | CEStopReplay \<Rightarrow>
                on_transport_close c oc EcTimeout ''estop replay timeout'' (r1\<lparr>r_estop_pending := False\<rparr>)
            | CUnsubscribe topic p \<Rightarrow> set_value p (AnsUnsubscribe EcTimeout) r1
            | CCmdVel t0 p \<Rightarrow>
                obind (set_value p (cmdvel_failed EcTimeout ''cmd_vel timeout'' 0) r1)
                  (\<lambda>r2. Inr (upd_cmdvel_stat count_error r2))
            | CEStop engage reason t0 p \<Rightarrow>
                obind (set_value p (estop_failed EcTimeout ''estop timeout'') r1)
                  (\<lambda>r2. Inr (upd_estop_stat count_error r2))
            | CInvoke p \<Rightarrow> set_value p (AnsRpc (rpc_failed EcTimeout ''rpc timeout'')) r1
            | CPing t0 p \<Rightarrow> set_value p (AnsPing (-1)) r1
            | CHeartbeat _ \<Rightarrow> Inr r1
            | CNone \<Rightarrow> Inr r1)"

section \<open>The calls on the caller's thread\<close>

definition cmd_vel_call ::
  "bool \<Rightarrow> double \<Rightarrow> double \<Rightarrow> double \<Rightarrow> robot \<Rightarrow> cmdvel_result call \<times> robot" where
  "cmd_vel_call on_dispatcher vx vy wz r =
    (let fail = (\<lambda>code msg. \<lparr>cvr_accepted = False, cvr_code = code, cvr_message = msg, cvr_rtt = 0\<rparr>)
     in if r_state r \<noteq> CsReady
        then (Returns (fail EcDisconnected ''Robot is not Ready''), upd_cmdvel_stat count_error r)
        else if on_dispatcher
        then (Returns (fail EcWouldDeadlock ''synchronous CmdVel called from SDK callback''), r)
        else
          let (ok, b) = try_acquire_at (r_now r) (r_cmdvel_limiter r); r1 = r\<lparr>r_cmdvel_limiter := b\<rparr>
          in if \<not> ok
             then (Returns (fail EcRateLimited ''client-side rate limit (20 Hz)''),
                   upd_cmdvel_stat count_error r1)
             else
               let (p, r2) = new_promise (upd_cmdvel_stat count_call r1); sq = r_cmdvel_seq r2
               in (WaitsFor p, post_event (EvCmdVel vx vy wz sq (r_now r2) p)
                                 (r2\<lparr>r_cmdvel_seq := sq + 1\<rparr>)))"

definition emergency_stop_call ::
  "bool \<Rightarrow> bool \<Rightarrow> string \<Rightarrow> robot \<Rightarrow> estop_result call \<times> robot" where
  "emergency_stop_call on_dispatcher engage reason r =
    (let fail = (\<lambda>code msg. \<lparr>er_ok = False, er_code = code, er_message = msg\<rparr>)
     in if r_state r \<noteq> CsReady then (Returns (fail EcDisconnected ''Robot is not Ready''), r)
        else if on_dispatcher
        then (Returns (fail EcWouldDeadlock ''synchronous EmergencyStop called from SDK callback''), r)
        else
          let (p, r1) = new_promise r
          in (WaitsFor p, post_event (EvEStop engage reason (r_now r1) p) r1))"

text \<open>The gates and the posting of the five task calls.\<close>

definition task_call ::
  "ctx \<Rightarrow> string \<Rightarrow> rpc_encoder \<Rightarrow> bool \<Rightarrow> robot \<Rightarrow> rpc_outcome call \<times> robot" where
  "task_call c mname enc on_dispatcher r =
    (if r_state r \<noteq> CsReady then (Returns (rpc_failed EcDisconnected ''Robot is not Ready''), r)
     else if on_dispatcher
     then (Returns (rpc_failed EcWouldDeadlock ''synchronous task RPC called from SDK callback''), r)
     else
       let (p, r1) = new_promise r
       in (WaitsFor p, post_event (EvInvoke mname (co_estop_rpc_timeout (cx_opts c)) enc p) r1))"

definition create_navigation_task_to_marker ::
  "ctx \<Rightarrow> string \<Rightarrow> bool \<Rightarrow> robot \<Rightarrow> rpc_outcome call \<times> robot" where
  "create_navigation_task_to_marker c marker = task_call c ''move.create_task'' (EncMarker marker)"

definition create_navigation_task_to_pose ::
  "ctx \<Rightarrow> double \<Rightarrow> double \<Rightarrow> double \<Rightarrow> bool \<Rightarrow> robot \<Rightarrow> rpc_outcome call \<times> robot" where
  "create_navigation_task_to_pose c x y theta = task_call c ''move.create_task'' (EncPose x y theta)"

definition cancel_task :: "ctx \<Rightarrow> string \<Rightarrow> bool \<Rightarrow> robot \<Rightarrow> rpc_outcome call \<times> robot" where
  "cancel_task c t = task_call c ''task_actions.cancel_task'' (EncCancel t)"

definition pause_task :: "ctx \<Rightarrow> string \<Rightarrow> bool \<Rightarrow> robot \<Rightarrow> rpc_outcome call \<times> robot" where
  "pause_task c t = task_call c ''task_actions.pause_task'' (EncPause t)"

definition resume_task :: "ctx \<Rightarrow> string \<Rightarrow> bool \<Rightarrow> robot \<Rightarrow> rpc_outcome call \<times> robot" where
  "resume_task c t = task_call c ''task_actions.resume_task'' (EncResume t)"

record create_task_result =
  ctr_accepted :: bool
  ctr_code :: error_code
  ctr_message :: string
  ctr_task_id :: string

record task_command_result =
  tcr_ok :: bool
  tcr_code :: error_code
  tcr_message :: string

text \<open>What the calls make of the outcome of \<open>InvokeRpc\<close>.\<close>

definition create_task_result_of :: "protobuf \<Rightarrow> rpc_outcome \<Rightarrow> create_task_result" where
  "create_task_result_of pb out =
    (if ro_code out = EcOk
     then (case decode_create_task_response pb (ro_payload out) of
             Some task_id \<Rightarrow>
               if task_id \<noteq> []
               then \<lparr>ctr_accepted = True, ctr_code = EcOk, ctr_message = ro_message out,
                     ctr_task_id = task_id\<rparr>
               else \<lparr>ctr_accepted = False, ctr_code = EcInternalError,
                     ctr_message = ''malformed CreateNavigationTask response'', ctr_task_id = []\<rparr>
           | None \<Rightarrow> \<lparr>ctr_accepted = False, ctr_code = EcInternalError,
                     ctr_message = ''malformed CreateNavigationTask response'', ctr_task_id = []\<rparr>)
     else \<lparr>ctr_accepted = False, ctr_code = ro_code out, ctr_message = ro_message out,
           ctr_task_id = []\<rparr>)"

definition task_command_result_of :: "rpc_outcome \<Rightarrow> task_command_result" where
  "task_command_result_of out =
    \<lparr>tcr_ok = (ro_code out = EcOk), tcr_code = ro_code out, tcr_message = ro_message out\<rparr>"

definition ping_call :: "bool \<Rightarrow> robot \<Rightarrow> ms call \<times> robot" where
  "ping_call on_dispatcher r =
    (if r_state r \<noteq> CsReady \<or> on_dispatcher then (Returns (-1), r)
     else
       let (p, r1) = new_promise r
       in (WaitsFor p, post_event (EvPing (r_now r1) p) r1))"

end
