(* ===== verification/RobotLoop.thy ===== *)
theory RobotLoop
  imports RobotCalls
begin

text \<open>
  The control loop of \<open>src/robot_impl.cpp\<close>: inbound messages, \<open>GetDiagnostics\<close>, the dispatch of the
  handlers in the queue, and the transition system of the whole robot, whose steps are the calls of
  the user's threads, the reports of the WebSocket thread, the expiry of timers, the rounds of the
  dispatcher's worker, the passing of time, and one handler of the control thread.
\<close>

section \<open>Inbound messages\<close>

definition handle_sdk_response ::
  "ctx \<Rightarrow> on_complete_fn \<Rightarrow> decoded_response \<Rightarrow> robot \<Rightarrow> robot outcome" where
  "handle_sdk_response c oc resp r =
    (if dr_has_subscribe resp then handle_subscribe_ack c oc resp r
     else case map_of (r_inflight r) (dr_request_id resp) of
       None \<Rightarrow> Inr (post_log LogDebug
                 (''response for unknown request_id='' @ dec_u64 (dr_request_id resp)) r)
     | Some rpc \<Rightarrow>
         let r1 = erase_inflight (dr_request_id resp) r
         in if ir_on_complete rpc = CNone then Inr r1
            else oc (ir_on_complete rpc) resp EcOk r1)"

definition is_response :: "decoded_response \<Rightarrow> bool" where
  "is_response resp \<longleftrightarrow> dr_has_handshake resp \<or> dr_has_rpc resp \<or> dr_has_subscribe resp
     \<or> dr_request_id resp \<noteq> 0"

datatype inbound = InResponse decoded_response | InPush decoded_topic_push | InUnknown

definition classify_inbound :: "protobuf \<Rightarrow> bytes \<Rightarrow> inbound" where
  "classify_inbound pb b =
    (let as_push = (case decode_topic_push pb b of
           Some push \<Rightarrow> if push_topic push \<noteq> [] then InPush push else InUnknown
         | None \<Rightarrow> InUnknown)
     in case decode_response pb b decoded_response_default of
          Some resp \<Rightarrow> if is_response resp then InResponse resp else as_push
        | None \<Rightarrow> as_push)"

definition on_inbound_message :: "ctx \<Rightarrow> on_complete_fn \<Rightarrow> bytes \<Rightarrow> robot \<Rightarrow> robot outcome" where
  "on_inbound_message c oc b r =
    (let r1 = upd_metrics (\<lambda>m. m\<lparr>mt_bytes_received := mt_bytes_received m + of_nat (length b)\<rparr>) r;
         r2 = reset_liveness_on_inbound r1
     in case classify_inbound (cx_pb c) b of
          InResponse resp \<Rightarrow> handle_sdk_response c oc resp r2
        | InPush push \<Rightarrow> Inr (handle_sdk_topic_push push r2)
        | InUnknown \<Rightarrow> Inr (post_log LogWarn
              (''unknown wire message (size='' @ dec_nat (length b) @ '')'') r2))"

section \<open>Diagnostics\<close>

definition quick_diagnostics :: "robot \<Rightarrow> diagnostics" where
  "quick_diagnostics r =
    diagnostics_default
      \<lparr>dg_connection := diag_connection_default
         \<lparr>dc_state := r_state r, dc_last_state_change_ms := mt_last_state_change_ms (r_metrics r)\<rparr>,
       dg_transport := diag_transport_default
         \<lparr>dt_rtt_p50_ms := p50_ms (mt_rtt_hist (r_metrics r)),
          dt_rtt_p99_ms := p99_ms (mt_rtt_hist (r_metrics r)),
          dt_bytes_sent := mt_bytes_sent (r_metrics r),
          dt_bytes_received := mt_bytes_received (r_metrics r)\<rparr>\<rparr>"

definition bucket_total :: "u32 list \<Rightarrow> u64" where
  "bucket_total bs = fold (\<lambda>b t. t + ucast b) bs 0"

definition subscription_stat :: "robot \<Rightarrow> string \<Rightarrow> nat \<Rightarrow> diag_subscription" where
  "subscription_stat r topic i =
    (let s = r_slots r i
     in \<lparr>dsub_topic = topic, dsub_state = sl_state s, dsub_configured_hz = sl_desired_hz s,
         dsub_received_hz_1min = real (unat (bucket_total (sl_hz_buckets s))) / 60,
         dsub_drop_count = sl_drop_count s, dsub_last_seq = sl_last_seq s,
         dsub_last_message_age_ms = (case sl_last_message_at s of
              None \<Rightarrow> -1 | Some t \<Rightarrow> elapsed_ms t r)\<rparr>)"

fun subscription_stats :: "(string \<times> nat) list \<Rightarrow> robot \<Rightarrow> diag_subscription list \<times> robot" where
  "subscription_stats [] r = ([], r)"
| "subscription_stats ((topic, i) # rest) r =
     (let r1 = snd (slide_hz_buckets i r);
          (stats, r2) = subscription_stats rest r1
      in (subscription_stat r1 topic i # stats, r2))"

definition rpc_stat_of :: "string \<Rightarrow> rpc_stat \<Rightarrow> diag_rpc" where
  "rpc_stat_of n s =
    \<lparr>drpc_name = n, drpc_count = rst_count s, drpc_error_count = rst_error_count s,
     drpc_p99_latency_ms = p99_ms (rst_latency_hist s)\<rparr>"

definition full_diagnostics :: "robot \<Rightarrow> diagnostics \<times> robot" where
  "full_diagnostics r =
    (let m = r_metrics r;
         conn = \<lparr>dc_state = r_state r, dc_last_state_change_ms = mt_last_state_change_ms m,
           dc_reconnect_count = r_reconnect_total r, dc_last_error_code = mt_last_error_code m,
           dc_last_error_message = mt_last_error_msg m,
           dc_server_protocol_version = (case r_robot_info r of
               None \<Rightarrow> [] | Some ri \<Rightarrow> ri_protocol_version ri)\<rparr>;
         trans = \<lparr>dt_rtt_p50_ms = p50_ms (mt_rtt_hist m), dt_rtt_p99_ms = p99_ms (mt_rtt_hist m),
           dt_bytes_sent = mt_bytes_sent m, dt_bytes_received = mt_bytes_received m,
           dt_last_ping_age_ms = (if mt_last_ping_sent_ms m < 0 then -1
              else r_epoch_ms r - mt_last_ping_sent_ms m)\<rparr>;
         (subs, r1) = subscription_stats (r_active_subs r) r
     in (\<lparr>dg_connection = conn, dg_transport = trans, dg_subscriptions = subs,
          dg_rpcs = [rpc_stat_of ''cmd_vel'' (mt_cmdvel m),
                     rpc_stat_of ''emergency_stop'' (mt_estop m),
                     rpc_stat_of ''ping'' (mt_ping m)]\<rparr>, r1))"

definition get_diagnostics :: "bool \<Rightarrow> robot \<Rightarrow> diagnostics call \<times> robot" where
  "get_diagnostics on_sdk_thread r =
    (if on_sdk_thread then (Returns (quick_diagnostics r), r)
     else
       let (p, r1) = new_promise r
       in (WaitsFor p, post_event (EvDiagnostics p) r1))"

section \<open>The control thread\<close>

definition handle_event :: "ctx \<Rightarrow> on_complete_fn \<Rightarrow> event \<Rightarrow> robot \<Rightarrow> robot outcome" where
  "handle_event c oc e r =
    (case e of
       EvConnect \<Rightarrow> if r_state r \<noteq> CsIdle then Inr r else establish_connection c oc False r
     | EvClose \<Rightarrow> handle_close c oc r
     | EvInbound b \<Rightarrow> on_inbound_message c oc b r
     | EvTransportClose reason msg \<Rightarrow> on_transport_close c oc reason msg r
     | EvSubscribe i \<Rightarrow> handle_subscribe c oc i r
     | EvUnsubAsync topic \<Rightarrow> Inr (handle_unsub_async c topic r)
     | EvUnsubSync topic p \<Rightarrow> handle_unsub_sync c topic p r
     | EvCmdVel vx vy wz sq t0 p \<Rightarrow> handle_cmd_vel c vx vy wz sq t0 p r
     | EvEStop engage reason t0 p \<Rightarrow> handle_estop c engage reason t0 p r
     | EvInvoke mname deadline enc p \<Rightarrow> handle_invoke c mname deadline enc p r
     | EvPing t0 p \<Rightarrow> handle_ping c t0 p r
     | EvDiagnostics p \<Rightarrow> (let (d, r1) = full_diagnostics r in set_value p (AnsDiagnostics d) r1)
     | EvIdleTimer \<Rightarrow> on_idle_timer c oc r
     | EvPingDeadline \<Rightarrow> on_ping_deadline c oc r
     | EvReconnect attempt \<Rightarrow> on_reconnect_timer c oc attempt r
     | EvRpcTimeout rid \<Rightarrow> on_rpc_timeout c oc rid r
     | EvSubAckTimeout i rid \<Rightarrow> on_sub_ack_timeout c oc i rid r)"

text \<open>One round of \<open>control_ioc_.run()\<close>: the oldest handler; \<open>None\<close> when there is none to run.\<close>

definition loop_round :: "ctx \<Rightarrow> nat \<Rightarrow> robot \<Rightarrow> robot outcome option" where
  "loop_round c depth r =
    (if r_loop_done r then None
     else case r_ioc r of
       [] \<Rightarrow> None
     | e # es \<Rightarrow> Some (handle_event c (call_on_complete c depth) e (r\<lparr>r_ioc := es\<rparr>)))"

definition timers_armed :: "robot \<Rightarrow> bool" where
  "timers_armed r \<longleftrightarrow> r_idle_timer r \<noteq> None \<or> r_ping_timer r \<noteq> None \<or> r_reconnect_timer r \<noteq> None
     \<or> r_sub_ack_timers r \<noteq> [] \<or> (\<exists>p\<in>set (r_inflight r). ir_timeout (snd p) \<noteq> None)"

text \<open>The expiry of timers: the wait handler moves to the queue, even if it is cancelled later.\<close>

inductive timer_step :: "robot \<Rightarrow> robot \<Rightarrow> bool" where
  idle: "r_idle_timer r = Some t \<Longrightarrow> t \<le> r_now r \<Longrightarrow>
    timer_step r (post_event EvIdleTimer (r\<lparr>r_idle_timer := None\<rparr>))"
| ping: "r_ping_timer r = Some t \<Longrightarrow> t \<le> r_now r \<Longrightarrow>
    timer_step r (post_event EvPingDeadline (r\<lparr>r_ping_timer := None\<rparr>))"
| reconnect: "r_reconnect_timer r = Some (t, attempt) \<Longrightarrow> t \<le> r_now r \<Longrightarrow>
    timer_step r (post_event (EvReconnect attempt) (r\<lparr>r_reconnect_timer := None\<rparr>))"
| rpc: "map_of (r_inflight r) rid = Some rpc \<Longrightarrow> ir_timeout rpc = Some t \<Longrightarrow> t \<le> r_now r \<Longrightarrow>
    timer_step r (post_event (EvRpcTimeout rid) (put_inflight rid (rpc\<lparr>ir_timeout := None\<rparr>) r))"
| sub_ack: "map_of (r_sub_ack_timers r) rid = Some (i, t) \<Longrightarrow> t \<le> r_now r \<Longrightarrow>
    timer_step r (post_event (EvSubAckTimeout i rid)
      (r\<lparr>r_sub_ack_timers := AList.delete rid (r_sub_ack_timers r)\<rparr>))"

text \<open>The calls of the user's threads; \<open>b\<close> says whether the call comes from the dispatcher's thread.\<close>

inductive user_step :: "ctx \<Rightarrow> robot \<Rightarrow> robot \<Rightarrow> bool" for c where
  state_handler: "user_step c r (r\<lparr>r_state_handler := h\<rparr>)"
| log_handler: "user_step c r (r\<lparr>r_log_sink := set_handler h (r_log_sink r)\<rparr>)"
| connect: "user_step c r (post_event EvConnect r)"
| close: "user_step c r (close_call r)"
| subscribe_status: "user_step c r (snd (subscribe_robot_status c hz cb r))"
| subscribe_tasks: "user_step c r (snd (subscribe_task_events c cb r))"
| subscribe_safety: "user_step c r (snd (subscribe_safety_events c cb r))"
| unsubscribe: "i < r_next_slot r \<Longrightarrow> user_step c r (snd (facade_unsubscribe True b i r))"
| facade_gone: "i < r_next_slot r \<Longrightarrow> user_step c r (facade_destroy True i r)"
| cmd_vel: "user_step c r (snd (cmd_vel_call b vx vy wz r))"
| estop: "user_step c r (snd (emergency_stop_call b engage reason r))"
| task: "user_step c r (snd (task_call c mname enc b r))"
| ping: "user_step c r (snd (ping_call b r))"
| diagnostics: "user_step c r (snd (get_diagnostics b r))"

inductive robot_step :: "ctx \<Rightarrow> nat \<Rightarrow> robot \<Rightarrow> robot \<Rightarrow> bool" for c depth where
  user: "user_step c r r' \<Longrightarrow> robot_step c depth r r'"
| inbound: "r_next_conn r > 0 \<Longrightarrow> robot_step c depth r (post_event (EvInbound b) r)"
| lost: "r_next_conn r > 0 \<Longrightarrow> reason \<in> {EcCancelled, EcTransportFailure} \<Longrightarrow>
    robot_step c depth r (post_event (EvTransportClose reason msg) r)"
| timer: "timer_step r r' \<Longrightarrow> robot_step c depth r r'"
| worker: "worker_round (r_dispatcher r) = Some d \<Longrightarrow> robot_step c depth r (r\<lparr>r_dispatcher := d\<rparr>)"
| tick: "now \<ge> r_now r \<Longrightarrow> robot_step c depth r (r\<lparr>r_now := now, r_epoch_ms := epoch\<rparr>)"
| round: "loop_round c depth r = Some (Inr r') \<Longrightarrow> robot_step c depth r r'"
| ended: "\<not> r_work_guard r \<Longrightarrow> r_ioc r = [] \<Longrightarrow> \<not> timers_armed r \<Longrightarrow>
    robot_step c depth r (r\<lparr>r_loop_done := True\<rparr>)"

lemmas user_call_defs [step_simps] =
  close_call_def subscribe_robot_status_def subscribe_task_events_def subscribe_safety_events_def
  facade_unsubscribe_def unsubscribe_request_def cmd_vel_call_def emergency_stop_call_def task_call_def
  ping_call_def get_diagnostics_def

inductive_cases timer_stepE: "timer_step r r'"
inductive_cases user_stepE: "user_step c r r'"
inductive_cases robot_stepE: "robot_step c depth r r'"

definition robot_start :: "ctx \<Rightarrow> robot \<Rightarrow> bool" where
  "robot_start c r \<longleftrightarrow> (\<exists>env now epoch. robot_create (cx_opts c) env now epoch = Inr r)"

end
