(* ===== verification/Session.thy ===== *)
theory Session
  imports RobotLoop "HOL-Library.Sublist"
begin

text \<open>
  What the robot's life cycle promises, stated on an abstract session: the graph of the legal state
  changes, what may be in flight in which state, and the invariant of the session. The function
  \<open>session\<close> abstracts a \<open>robot\<close> to its session; \<open>RobotInv\<close> shows that every handler keeps the invariant.
\<close>

section \<open>The graph of the connection states\<close>

definition legal_change :: "conn_state \<Rightarrow> conn_state \<Rightarrow> bool" where
  "legal_change a b \<longleftrightarrow>
    (case a of
       CsIdle \<Rightarrow> b \<in> {CsConnecting, CsShutdown}
     | CsConnecting \<Rightarrow> b \<in> {CsReady, CsTransientFailure, CsFatal, CsShutdown}
     | CsReady \<Rightarrow> b \<in> {CsTransientFailure, CsFatal, CsShutdown}
     | CsTransientFailure \<Rightarrow> b \<in> {CsReconnecting, CsFatal, CsShutdown}
     | CsReconnecting \<Rightarrow> b \<in> {CsReady, CsTransientFailure, CsFatal, CsShutdown}
     | CsFatal \<Rightarrow> b = CsShutdown
     | CsShutdown \<Rightarrow> False)"

text \<open>A list of state changes that leads from one state to another by legal changes.\<close>

fun is_path :: "conn_state \<Rightarrow> (conn_state \<times> conn_state) list \<Rightarrow> conn_state \<Rightarrow> bool" where
  "is_path a [] b \<longleftrightarrow> a = b"
| "is_path a ((x, y) # ps) b \<longleftrightarrow> x = a \<and> legal_change x y \<and> is_path y ps b"

lemma is_path_append: "is_path a (ps @ qs) b \<longleftrightarrow> (\<exists>m. is_path a ps m \<and> is_path m qs b)"
  by (induction ps arbitrary: a) auto

lemma is_path_snoc: "is_path a ps m \<Longrightarrow> legal_change m b \<Longrightarrow> is_path a (ps @ [(m, b)]) b"
  by (auto simp: is_path_append)

lemma is_path_legal: "is_path a ps b \<Longrightarrow> (x, y) \<in> set ps \<Longrightarrow> legal_change x y"
  by (induction ps arbitrary: a) auto

lemma is_path_unique: "is_path a ps b \<Longrightarrow> is_path a ps b' \<Longrightarrow> b = b'"
  by (induction ps arbitrary: a) auto

lemma is_path_from_terminal:
  "is_path CsShutdown ps b \<Longrightarrow> b = CsShutdown"
  "is_path CsFatal ps b \<Longrightarrow> b = CsFatal \<or> b = CsShutdown"
proof -
  show shut: "is_path CsShutdown ps b \<Longrightarrow> b = CsShutdown" for ps
    by (cases ps) (auto simp: legal_change_def)
  show "is_path CsFatal ps b \<Longrightarrow> b = CsFatal \<or> b = CsShutdown"
    by (cases ps) (auto simp: legal_change_def dest: shut)
qed

section \<open>Sessions\<close>

record session =
  s_state :: conn_state
  s_history :: "(conn_state \<times> conn_state) list"
  s_next_conn :: nat
  s_has_ws :: bool
  s_inflight :: "(u64 \<times> inflight_rpc) list"
  s_active :: "(string \<times> nat) list"
  s_requested :: "nat \<Rightarrow> u64"
  s_next_slot :: nat
  s_sub_ids :: "u64 list"
  s_sub_timers :: bool
  s_queue :: "event list"
  s_next_id :: u64
  s_requests :: nat
  s_estop_pending :: bool

definition session :: "robot \<Rightarrow> session" where
  "session r =
    \<lparr>s_state = r_state r, s_history = r_history r, s_next_conn = r_next_conn r,
     s_has_ws = (r_ws r \<noteq> None), s_inflight = r_inflight r, s_active = r_active_subs r,
     s_requested = (\<lambda>i. sl_inflight_request (r_slots r i)), s_next_slot = r_next_slot r,
     s_sub_ids = map fst (r_inflight_sub r), s_sub_timers = (r_sub_ack_timers r \<noteq> []),
     s_queue = r_ioc r, s_next_id = r_next_request_id r, s_requests = r_requests r,
     s_estop_pending = r_estop_pending r\<rparr>"

lemma session_simps [simp]:
  "s_state (session r) = r_state r" "s_history (session r) = r_history r"
  "s_next_conn (session r) = r_next_conn r" "s_has_ws (session r) = (r_ws r \<noteq> None)"
  "s_inflight (session r) = r_inflight r" "s_active (session r) = r_active_subs r"
  "s_requested (session r) = (\<lambda>i. sl_inflight_request (r_slots r i))"
  "s_next_slot (session r) = r_next_slot r" "s_sub_ids (session r) = map fst (r_inflight_sub r)"
  "s_sub_timers (session r) = (r_sub_ack_timers r \<noteq> [])" "s_queue (session r) = r_ioc r"
  "s_next_id (session r) = r_next_request_id r" "s_requests (session r) = r_requests r"
  "s_estop_pending (session r) = r_estop_pending r"
  by (simp_all add: session_def)

text \<open>
  So many requests exhaust the 64-bit ids. A session is looked at only before that: afterwards an id
  may be 0, which the code takes for "no request in flight".
\<close>

definition id_limit :: nat where
  "id_limit = 2 ^ 64 - 1"

definition wrapped :: "session \<Rightarrow> bool" where
  "wrapped s \<longleftrightarrow> id_limit \<le> s_requests s"

lemma fresh_id_nonzero: "\<not> id_limit \<le> Suc n \<Longrightarrow> (of_nat (Suc n) :: u64) \<noteq> 0"
proof -
  assume "\<not> id_limit \<le> Suc n"
  then have "unat (of_nat (Suc n) :: u64) = Suc n"
    by (simp only: unat_of_nat id_limit_def) (simp del: Suc_eq_numeral)
  then show ?thesis by (metis nat.distinct(1) unat_0)
qed

text \<open>What may be in flight in each state.\<close>

definition lifecycle_lambda :: "completion \<Rightarrow> bool" where
  "lifecycle_lambda lam \<longleftrightarrow> (\<exists>b. lam = CHandshake b) \<or> lam = CEStopReplay"

definition only_lambda :: "completion set \<Rightarrow> (u64 \<times> inflight_rpc) list \<Rightarrow> bool" where
  "only_lambda lams ps \<longleftrightarrow> ps = [] \<or> (\<exists>rid rpc. ps = [(rid, rpc)] \<and> ir_on_complete rpc \<in> lams)"

definition inflight_ok :: "conn_state \<Rightarrow> (u64 \<times> inflight_rpc) list \<Rightarrow> bool" where
  "inflight_ok st ps \<longleftrightarrow>
    (case st of
       CsReady \<Rightarrow> \<forall>p\<in>set ps. \<not> lifecycle_lambda (ir_on_complete (snd p))
     | CsConnecting \<Rightarrow> only_lambda {CHandshake False} ps
     | CsReconnecting \<Rightarrow> only_lambda {CHandshake True, CEStopReplay} ps
     | _ \<Rightarrow> ps = [])"

definition replaying :: "(u64 \<times> inflight_rpc) list \<Rightarrow> bool" where
  "replaying ps \<longleftrightarrow> (\<exists>p\<in>set ps. ir_on_complete (snd p) = CEStopReplay)"

definition handshaking :: "(u64 \<times> inflight_rpc) list \<Rightarrow> bool" where
  "handshaking ps \<longleftrightarrow> (\<exists>p\<in>set ps. \<exists>b. ir_on_complete (snd p) = CHandshake b)"

lemma replaying_Nil [simp]: "\<not> replaying []"
  by (simp add: replaying_def)

lemma handshaking_Nil [simp]: "\<not> handshaking []"
  by (simp add: handshaking_def)

text \<open>Events that only a connection can cause.\<close>

fun conn_event :: "event \<Rightarrow> bool" where
  "conn_event (EvInbound _) \<longleftrightarrow> True"
| "conn_event (EvTransportClose _ _) \<longleftrightarrow> True"
| "conn_event (EvSubAckTimeout _ _) \<longleftrightarrow> True"
| "conn_event _ \<longleftrightarrow> False"

definition queued_subs :: "event list \<Rightarrow> nat list" where
  "queued_subs es = concat (map (\<lambda>e. case e of EvSubscribe i \<Rightarrow> [i] | _ \<Rightarrow> []) es)"

lemma queued_subs_simps [simp]:
  "queued_subs [] = []"
  "queued_subs (es @ fs) = queued_subs es @ queued_subs fs"
  "queued_subs (e # es) = (case e of EvSubscribe i \<Rightarrow> [i] | _ \<Rightarrow> []) @ queued_subs es"
  by (simp_all add: queued_subs_def)

definition queue_ok :: "session \<Rightarrow> bool" where
  "queue_ok s \<longleftrightarrow>
    (s_state s = CsIdle \<longrightarrow>
       s_next_conn s = 0 \<and> \<not> s_sub_timers s \<and> (\<forall>e\<in>set (s_queue s). \<not> conn_event e))
    \<and> (\<forall>msg. EvTransportClose EcOk msg \<notin> set (s_queue s))"

definition ws_ok :: "session \<Rightarrow> bool" where
  "ws_ok s \<longleftrightarrow> (s_has_ws s \<longrightarrow> s_state s \<in> {CsConnecting, CsReady, CsReconnecting})"

text \<open>No subscription of the map has a request in flight.\<close>

definition none_requested :: "session \<Rightarrow> bool" where
  "none_requested s \<longleftrightarrow> (\<forall>p\<in>set (s_active s). s_requested s (snd p) = 0)"

definition replay_ok :: "session \<Rightarrow> bool" where
  "replay_ok s \<longleftrightarrow> (replaying (s_inflight s) \<longrightarrow> s_estop_pending s)
     \<and> (s_estop_pending s \<longrightarrow> s_state s \<notin> {CsIdle, CsConnecting, CsReady})"

definition subs_ok :: "session \<Rightarrow> bool" where
  "subs_ok s \<longleftrightarrow>
    (s_state s \<in> {CsIdle, CsConnecting, CsTransientFailure, CsShutdown} \<or> handshaking (s_inflight s)
       \<longrightarrow> none_requested s)
    \<and> (wrapped s \<or> 0 \<notin> set (s_sub_ids s))
    \<and> (\<forall>i\<in>set (queued_subs (s_queue s)). i < s_next_slot s \<and> s_requested s i = 0
          \<and> i \<notin> snd ` set (s_active s))
    \<and> (\<forall>p\<in>set (s_active s). snd p < s_next_slot s)
    \<and> distinct (queued_subs (s_queue s))"

definition ids_ok :: "session \<Rightarrow> bool" where
  "ids_ok s \<longleftrightarrow> s_next_id s = of_nat (Suc (s_requests s))"

lemma ids_ok_cong: "s_next_id s' = s_next_id s \<Longrightarrow> s_requests s' = s_requests s \<Longrightarrow> ids_ok s' = ids_ok s"
  by (simp add: ids_ok_def)

lemma ids_ok_next:
  assumes "ids_ok s" "s_next_id s' = s_next_id s + 1" "s_requests s' = Suc (s_requests s)"
  shows "ids_ok s'"
  unfolding ids_ok_def assms(2,3) using assms(1) unfolding ids_ok_def by (simp only: of_nat_Suc add.commute)

definition path_ok :: "(conn_state \<times> conn_state) list \<Rightarrow> session \<Rightarrow> bool" where
  "path_ok h0 s \<longleftrightarrow> is_path CsIdle (s_history s) (s_state s) \<and> prefix h0 (s_history s)
     \<and> ids_ok s"

definition sess_ok :: "(conn_state \<times> conn_state) list \<Rightarrow> session \<Rightarrow> bool" where
  "sess_ok h0 s \<longleftrightarrow> path_ok h0 s \<and> queue_ok s \<and> inflight_ok (s_state s) (s_inflight s) \<and> ws_ok s
     \<and> subs_ok s \<and> replay_ok s"

lemma sess_okI:
  assumes "path_ok h0 s" "queue_ok s" "inflight_ok (s_state s) (s_inflight s)" "ws_ok s" "subs_ok s"
    "replay_ok s"
  shows "sess_ok h0 s"
  using assms by (simp add: sess_ok_def)

lemma sess_okD:
  assumes "sess_ok h0 s"
  shows "path_ok h0 s" "queue_ok s" "inflight_ok (s_state s) (s_inflight s)" "ws_ok s" "subs_ok s"
    "replay_ok s"
  using assms by (simp_all add: sess_ok_def)

lemma none_requested_frame:
  "s_active s' = s_active s \<Longrightarrow> s_requested s' = s_requested s \<Longrightarrow> none_requested s' = none_requested s"
  by (simp add: none_requested_def)

lemma subs_ok_frame:
  assumes "s_state s' = s_state s" "handshaking (s_inflight s') = handshaking (s_inflight s)"
    "s_requests s' = s_requests s" "s_sub_ids s' = s_sub_ids s" "s_queue s' = s_queue s"
    "s_next_slot s' = s_next_slot s" "s_requested s' = s_requested s" "s_active s' = s_active s"
  shows "subs_ok s' = subs_ok s"
  using assms none_requested_frame [OF assms(8,7)] by (simp add: subs_ok_def wrapped_def)

section \<open>Moves of a session\<close>

definition s_goto :: "conn_state \<Rightarrow> session \<Rightarrow> session" where
  "s_goto st s =
    (if s_state s = st then s
     else s\<lparr>s_state := st, s_history := s_history s @ [(s_state s, st)]\<rparr>)"

definition s_fatal :: "session \<Rightarrow> session" where
  "s_fatal s = s_goto CsFatal
     (s\<lparr>s_active := [], s_inflight := [], s_sub_timers := False, s_sub_ids := [],
        s_has_ws := False\<rparr>)"

definition s_lost :: "session \<Rightarrow> session" where
  "s_lost s = s_goto CsTransientFailure
     (s\<lparr>s_requested := (\<lambda>i. if i \<in> snd ` set (s_active s) then 0 else s_requested s i),
        s_inflight := [], s_sub_timers := False, s_has_ws := False\<rparr>)"

definition s_failed :: "session \<Rightarrow> session" where
  "s_failed s = (s_goto CsTransientFailure s)\<lparr>s_has_ws := False\<rparr>"

definition s_closed :: "session \<Rightarrow> session" where
  "s_closed s =
    (s_goto CsShutdown s)\<lparr>s_active := [], s_inflight := [], s_sub_timers := False, s_has_ws := False\<rparr>"

text \<open>What \<open>DoReconnect\<close> can make of a session: it arms its timer, or gives up.\<close>

definition may_abort :: "session \<Rightarrow> session \<Rightarrow> bool" where
  "may_abort s s' \<longleftrightarrow> s' = s \<or> s' = s_fatal s"

lemma s_goto_simps [simp]:
  "s_state (s_goto st s) = st"
  "s_next_conn (s_goto st s) = s_next_conn s" "s_has_ws (s_goto st s) = s_has_ws s"
  "s_inflight (s_goto st s) = s_inflight s" "s_active (s_goto st s) = s_active s"
  "s_requested (s_goto st s) = s_requested s" "s_next_slot (s_goto st s) = s_next_slot s"
  "s_sub_ids (s_goto st s) = s_sub_ids s" "s_sub_timers (s_goto st s) = s_sub_timers s"
  "s_queue (s_goto st s) = s_queue s" "s_next_id (s_goto st s) = s_next_id s"
  "s_requests (s_goto st s) = s_requests s" "s_estop_pending (s_goto st s) = s_estop_pending s"
  by (simp_all add: s_goto_def)

lemma wrapped_cong: "s_requests s' = s_requests s \<Longrightarrow> wrapped s' = wrapped s"
  by (simp add: wrapped_def)

lemma path_ok_goto:
  assumes "path_ok h0 s" "s_state s = st \<or> legal_change (s_state s) st"
  shows "path_ok h0 (s_goto st s)"
proof (cases "s_state s = st")
  case True
  then show ?thesis using assms by (simp add: s_goto_def)
next
  case False
  then have "is_path CsIdle (s_history s @ [(s_state s, st)]) st"
    using assms by (intro is_path_snoc) (auto simp: path_ok_def)
  moreover have "prefix h0 (s_history s @ [(s_state s, st)])"
    using assms by (auto simp: path_ok_def)
  ultimately show ?thesis
    using False assms(1) by (simp add: s_goto_def path_ok_def wrapped_def ids_ok_def)
qed

lemma none_requested_goto [simp]: "none_requested (s_goto st s) = none_requested s"
  by (simp add: none_requested_def)

lemma path_ok_frame:
  "s_state s' = s_state s \<Longrightarrow> s_history s' = s_history s \<Longrightarrow> s_next_id s' = s_next_id s \<Longrightarrow>
    s_requests s' = s_requests s \<Longrightarrow> path_ok h0 s' = path_ok h0 s"
  by (simp add: path_ok_def wrapped_def ids_ok_def)

lemma inflight_ok_Nil [simp]: "inflight_ok st []"
  by (cases st) (simp_all add: inflight_ok_def only_lambda_def)

lemma sess_ok_fatal:
  assumes "sess_ok h0 s" "s_state s \<notin> {CsIdle, CsShutdown}"
  shows "sess_ok h0 (s_fatal s)"
proof -
  have "path_ok h0 (s_fatal s)"
    unfolding s_fatal_def using assms
    by (intro path_ok_goto)
      (auto simp: sess_ok_def path_ok_def ids_ok_def legal_change_def split: conn_state.splits)
  then show ?thesis
    using assms by (auto simp: sess_ok_def s_fatal_def queue_ok_def ws_ok_def subs_ok_def replay_ok_def none_requested_def
      wrapped_def)
qed

lemma sess_ok_lost:
  assumes "sess_ok h0 s" "s_state s \<in> {CsConnecting, CsReady, CsReconnecting, CsTransientFailure}"
  shows "sess_ok h0 (s_lost s)"
proof -
  have "path_ok h0 (s_lost s)"
    unfolding s_lost_def using assms
    by (intro path_ok_goto)
      (auto simp: sess_ok_def path_ok_def ids_ok_def legal_change_def split: conn_state.splits)
  then show ?thesis
    using assms by (auto simp: sess_ok_def s_lost_def queue_ok_def ws_ok_def subs_ok_def replay_ok_def none_requested_def
      wrapped_def)
qed

lemma sess_ok_failed:
  assumes "sess_ok h0 s" "s_state s \<in> {CsConnecting, CsReconnecting}" "s_inflight s = []"
    "none_requested s"
  shows "sess_ok h0 (s_failed s)"
proof -
  have "path_ok h0 (s_goto CsTransientFailure s)"
    using assms by (intro path_ok_goto) (auto simp: sess_ok_def legal_change_def)
  then have "path_ok h0 (s_failed s)" by (simp add: s_failed_def path_ok_def wrapped_def ids_ok_def)
  then show ?thesis
    using assms
    by (simp add: sess_ok_def s_failed_def queue_ok_def ws_ok_def subs_ok_def replay_ok_def none_requested_def
      wrapped_def)
qed

lemma sess_ok_closed:
  assumes "sess_ok h0 s"
  shows "sess_ok h0 (s_closed s)"
proof -
  have "path_ok h0 (s_goto CsShutdown s)"
    using assms
    by (intro path_ok_goto) (auto simp: sess_ok_def legal_change_def split: conn_state.splits)
  then have "path_ok h0 (s_closed s)" by (simp add: s_closed_def path_ok_def wrapped_def ids_ok_def)
  then show ?thesis
    using assms
    by (auto simp: sess_ok_def s_closed_def queue_ok_def ws_ok_def subs_ok_def replay_ok_def none_requested_def
      wrapped_def)
qed

lemma sess_ok_ready:
  assumes "sess_ok h0 s" "s_state s \<in> {CsConnecting, CsReconnecting}" "s_inflight s = []"
    "\<not> s_estop_pending s"
  shows "sess_ok h0 (s_goto CsReady s)"
proof -
  have "path_ok h0 (s_goto CsReady s)"
    using assms by (intro path_ok_goto) (auto simp: sess_ok_def legal_change_def)
  then show ?thesis
    using assms by (simp add: sess_ok_def queue_ok_def ws_ok_def subs_ok_def replay_ok_def none_requested_def
      wrapped_def)
qed

lemma may_abort_ok:
  "may_abort s s' \<Longrightarrow> sess_ok h0 s \<Longrightarrow> s_state s \<notin> {CsIdle, CsShutdown} \<Longrightarrow> sess_ok h0 s'"
  by (auto simp: may_abort_def sess_ok_fatal)

end
