(* ===== verification/RobotInv.thy ===== *)
theory RobotInv
  imports Session
begin

text \<open>
  Every handler of the control loop keeps the invariant of the session. The first section says which
  operations leave the session alone; the second follows the cluster that loses, restarts or gives up
  a connection; the others go through the handlers. A replay of the emergency stop in flight is the
  one lambda that calls back into the cluster; \<open>replay_overflows\<close> shows that this call never returns.
\<close>

section \<open>Operations that leave the session alone\<close>

lemma session_upd [simp]:
  "session (r\<lparr>r_work_guard := b\<rparr>) = session r"
  "session (r\<lparr>r_loop_done := b\<rparr>) = session r"
  "session (r\<lparr>r_shutdown_requested := b\<rparr>) = session r"
  "session (r\<lparr>r_dispatcher := d\<rparr>) = session r"
  "session (r\<lparr>r_log_sink := l\<rparr>) = session r"
  "session (r\<lparr>r_state_handler := h\<rparr>) = session r"
  "session (r\<lparr>r_robot_info := ri\<rparr>) = session r"
  "session (r\<lparr>r_heartbeat := hb\<rparr>) = session r"
  "session (r\<lparr>r_idle_timer := t\<rparr>) = session r"
  "session (r\<lparr>r_ping_timer := t\<rparr>) = session r"
  "session (r\<lparr>r_reconnect_attempt := n\<rparr>) = session r"
  "session (r\<lparr>r_reconnect_total := m\<rparr>) = session r"
  "session (r\<lparr>r_reconnect_timer := rt\<rparr>) = session r"
  "session (r\<lparr>r_estop_engaged := b\<rparr>) = session r"
  "session (r\<lparr>r_estop_reason := msg\<rparr>) = session r"
  "session (r\<lparr>r_subs_pending := k\<rparr>) = session r"
  "session (r\<lparr>r_failure_code := e\<rparr>) = session r"
  "session (r\<lparr>r_failure_message := msg\<rparr>) = session r"
  "session (r\<lparr>r_cmdvel_limiter := tb\<rparr>) = session r"
  "session (r\<lparr>r_cmdvel_seq := k\<rparr>) = session r"
  "session (r\<lparr>r_metrics := mt\<rparr>) = session r"
  "session (r\<lparr>r_next_promise := p\<rparr>) = session r"
  "session (r\<lparr>r_answers := ans\<rparr>) = session r"
  "session (r\<lparr>r_wire := wire\<rparr>) = session r"
  "session (r\<lparr>r_inline_calls := ics\<rparr>) = session r"
  "session (r\<lparr>r_stderr := lines\<rparr>) = session r"
  "session (r\<lparr>r_looks := p\<rparr>) = session r"
  "session (r\<lparr>r_draws := p\<rparr>) = session r"
  "session (r\<lparr>r_now := now\<rparr>) = session r"
  "session (r\<lparr>r_epoch_ms := now\<rparr>) = session r"
  by (simp_all add: session_def)

lemma session_upd_seen [simp]:
  "session (r\<lparr>r_next_conn := n\<rparr>) = (session r)\<lparr>s_next_conn := n\<rparr>"
  "session (r\<lparr>r_ws := w\<rparr>) = (session r)\<lparr>s_has_ws := w \<noteq> None\<rparr>"
  "session (r\<lparr>r_inflight := ps\<rparr>) = (session r)\<lparr>s_inflight := ps\<rparr>"
  "session (r\<lparr>r_active_subs := act\<rparr>) = (session r)\<lparr>s_active := act\<rparr>"
  "session (r\<lparr>r_inflight_sub := isub\<rparr>) = (session r)\<lparr>s_sub_ids := map fst isub\<rparr>"
  "session (r\<lparr>r_sub_ack_timers := sts\<rparr>) = (session r)\<lparr>s_sub_timers := sts \<noteq> []\<rparr>"
  "session (r\<lparr>r_ioc := es\<rparr>) = (session r)\<lparr>s_queue := es\<rparr>"
  "session (r\<lparr>r_estop_pending := b\<rparr>) = (session r)\<lparr>s_estop_pending := b\<rparr>"
  by (simp_all add: session_def)

lemma session_upd_slot:
  "(\<And>s. sl_inflight_request (f s) = sl_inflight_request s) \<Longrightarrow> session (upd_slot i f r) = session r"
  by (auto simp: session_def upd_slot_def)

lemma session_upd_slot_request:
  "(\<And>s. sl_inflight_request (f s) = w) \<Longrightarrow>
    session (upd_slot i f r) = (session r)\<lparr>s_requested := (s_requested (session r))(i := w)\<rparr>"
  by (auto simp: session_def upd_slot_def)

lemma session_quiet [simp]:
  "session (upd_metrics f r) = session r"
  "session (upd_heartbeat g r) = session r"
  "session (post_task t r) = session r"
  "session (count_bytes_sent b r) = session r"
  by (simp_all add: upd_metrics_def upd_heartbeat_def post_task_def count_bytes_sent_def)

lemma session_logging [simp]:
  "session (post_state_callback s1 s2 info r) = session r"
  "session (post_log lvl msg r) = session r"
  "session (fire_status i k gap err reason r) = session r"
  by (simp_all add: post_state_callback_def post_log_def fire_status_def split: option.split)

lemma session_looks [simp]:
  "session (snd (ws_post_call c n b r)) = session r"
  "session (snd (send_or_fail c b r)) = session r"
  "session (snd (ws_is_open c r)) = session r"
  "session (snd (next_backoff c attempt r)) = session r"
  by (auto simp: ws_post_call_def send_or_fail_def ws_is_open_def next_backoff_def Let_def
      split: option.split)

lemma session_looksD:
  "ws_post_call c n b r = (ok, r') \<Longrightarrow> session r' = session r"
  "send_or_fail c b r = (ok, r') \<Longrightarrow> session r' = session r"
  "ws_is_open c r = (ok, r') \<Longrightarrow> session r' = session r"
  "next_backoff c attempt r = (d, r') \<Longrightarrow> session r' = session r"
  using session_looks by (metis snd_conv)+

lemma session_ws_close_reset [simp]:
  "session (ws_close_reset r) = (session r)\<lparr>s_has_ws := False\<rparr>"
  by (simp add: ws_close_reset_def session_def split: option.split)

lemma session_set_value: "set_value p a r = Inr r' \<Longrightarrow> session r' = session r"
  by (auto simp: set_value_def split: if_splits)

lemma session_transition [simp]: "session (transition_to st info r) = s_goto st (session r)"
proof (cases "r_state r = st")
  case True
  then show ?thesis by (simp add: transition_to_def s_goto_def)
next
  case False
  have "session (r\<lparr>r_state := st, r_history := r_history r @ [(r_state r, st)]\<rparr>) = s_goto st (session r)"
    using False by (simp add: s_goto_def session_def)
  then show ?thesis using False by (simp add: transition_to_def Let_def)
qed

lemma session_next_request_id [simp]:
  "session (snd (next_request_id r)) =
     (session r)\<lparr>s_next_id := s_next_id (session r) + 1, s_requests := Suc (s_requests (session r))\<rparr>"
  by (simp add: next_request_id_def session_def)

lemma session_close_slot [simp]: "session (close_slot code reason i r) = session r"
  by (simp add: close_slot_def Let_def session_upd_slot)

lemma session_fold_close [simp]:
  "session (fold (\<lambda>(topic, i). close_slot code reason i) ps r) = session r"
  by (induction ps arbitrary: r) auto

lemma session_deliver [simp]:
  "session (hand_over i push r) = session r"
  "session (deliver_push i push r) = session r"
  "session (drop_one i r) = session r"
  "session (buffer_push i push r) = session r"
proof -
  show hand: "session (hand_over i push r) = session r" for r
    by (simp add: hand_over_def slide_hz_buckets_def Let_def session_upd_slot slide_slot_def
        bump_bucket_def)
  show "session (deliver_push i push r) = session r"
    by (simp add: deliver_push_def Let_def hand session_upd_slot)
  show "session (drop_one i r) = session r" for r
    by (simp add: drop_one_def session_upd_slot)
  then show "session (buffer_push i push r) = session r"
    by (simp add: buffer_push_def Let_def session_upd_slot)
qed

lemma session_push [simp]: "session (handle_sdk_topic_push push r) = session r"
  by (simp add: handle_sdk_topic_push_def split: option.split sub_state.split)

lemma session_drain_frames [simp]: "session (drain_frames i k ps r) = session r"
  by (induction ps arbitrary: r) (simp_all add: Let_def session_upd_slot)

lemma session_drain [simp]: "session (drain_pending_buffer i k r) = session r"
  by (simp add: drain_pending_buffer_def)

lemma session_liveness [simp]:
  "session (reset_liveness_on_inbound r) = session r"
  "session (start_heartbeat c r) = session r"
  "session (record_rtt rtt r) = session r"
  "session (upd_cmdvel_stat f r) = session r"
  "session (upd_estop_stat f r) = session r"
  by (simp_all add: reset_liveness_on_inbound_def start_heartbeat_def record_rtt_def
      upd_cmdvel_stat_def upd_estop_stat_def Let_def)

lemma session_inflight [simp]:
  "session (put_inflight rid rpc r) =
     (session r)\<lparr>s_inflight := AList.update rid rpc (s_inflight (session r))\<rparr>"
  "session (erase_inflight rid r) =
     (session r)\<lparr>s_inflight := AList.delete rid (s_inflight (session r))\<rparr>"
  by (simp_all add: put_inflight_def erase_inflight_def)

lemma session_eqD:
  assumes "session r' = session r"
  shows "r_state r' = r_state r" "r_inflight r' = r_inflight r" "r_active_subs r' = r_active_subs r"
    "(r_ws r' \<noteq> None) = (r_ws r \<noteq> None)"
  using arg_cong [OF assms, of s_state] arg_cong [OF assms, of s_inflight]
    arg_cong [OF assms, of s_active] arg_cong [OF assms, of s_has_ws] by simp_all

section \<open>Losing the connection\<close>

lemma session_complete_error:
  assumes "err \<noteq> EcOk" "lam \<noteq> CEStopReplay" "call_on_complete c depth lam resp err r = Inr r'"
  shows "session r' = session r"
proof (cases depth)
  case 0
  then show ?thesis using assms by simp
next
  case (Suc d)
  show ?thesis
  proof (cases lam)
    case (CEStop engage reason t0 p)
    then show ?thesis
      using assms(1,3) Suc
      by (auto simp: on_complete_body_def complete_estop_def Let_def dest!: session_set_value)
  qed (use assms Suc in \<open>auto simp: on_complete_body_def complete_handshake_def
        complete_unsubscribe_def complete_cmd_vel_def dest!: session_set_value\<close>)
qed

lemma complete_all_Cons:
  assumes "complete_all oc resp err ((rid, rpc) # ps) r = Inr r'"
  obtains r1 where "ir_on_complete rpc = CNone \<and> r1 = r \<or> oc (ir_on_complete rpc) resp err r = Inr r1"
    "complete_all oc resp err ps r1 = Inr r'"
  using assms by (auto simp: obind_eq_Inr split: if_splits)

lemma session_complete_all:
  assumes "err \<noteq> EcOk" "\<not> replaying ps" "complete_all (call_on_complete c depth) resp err ps r = Inr r'"
  shows "session r' = session r"
  using assms(2,3)
proof (induction ps arbitrary: r)
  case (Cons p ps)
  obtain rid rpc where p: "p = (rid, rpc)" by (cases p)
  obtain r1 where r1: "ir_on_complete rpc = CNone \<and> r1 = r
      \<or> call_on_complete c depth (ir_on_complete rpc) resp err r = Inr r1"
    "complete_all (call_on_complete c depth) resp err ps r1 = Inr r'"
    using complete_all_Cons Cons.prems(2) p by metis
  have "session r1 = session r"
    using r1(1) session_complete_error [OF assms(1)] Cons.prems(1) p by (auto simp: replaying_def)
  then show ?case using Cons.IH [OF _ r1(2)] Cons.prems(1) by (simp add: replaying_def)
qed simp

text \<open>The loop of \<open>Close\<close> runs with the state already \<open>Shutdown\<close>.\<close>

lemma session_complete_all_shutdown:
  assumes "err \<noteq> EcOk" "r_state r = CsShutdown"
    "complete_all (call_on_complete c depth) resp err ps r = Inr r'"
  shows "\<exists>b. session r' = (session r)\<lparr>s_estop_pending := b\<rparr>"
  using assms(2,3)
proof (induction ps arbitrary: r)
  case Nil
  then show ?case by (intro exI [of _ "r_estop_pending r"]) (simp add: session_def)
next
  case (Cons p ps)
  obtain rid rpc where p: "p = (rid, rpc)" by (cases p)
  obtain r1 where r1: "ir_on_complete rpc = CNone \<and> r1 = r
      \<or> call_on_complete c depth (ir_on_complete rpc) resp err r = Inr r1"
    "complete_all (call_on_complete c depth) resp err ps r1 = Inr r'"
    using complete_all_Cons Cons.prems(2) p by metis
  have "session r1 = session r \<or> session r1 = (session r)\<lparr>s_estop_pending := False\<rparr>"
  proof (cases "ir_on_complete rpc = CEStopReplay")
    case True
    then obtain d where "depth = Suc d" using r1(1) by (cases depth) auto
    then show ?thesis
      using True r1(1) assms(1) Cons.prems(1)
      by (auto simp: on_complete_body_def complete_estop_replay_def on_transport_close_def Let_def)
  next
    case False
    then show ?thesis using r1(1) session_complete_error [OF assms(1)] by auto
  qed
  moreover from this have "r_state r1 = CsShutdown"
    using Cons.prems(1) by (metis session_eqD(1) session.select_convs(1) session.update_convs(14) session_simps(1) session.surjective)
  ultimately show ?case using Cons.IH [OF _ r1(2)] by auto
qed

lemma session_abort:
  assumes "code \<noteq> EcOk \<or> r_inflight r = []" "\<not> replaying (r_inflight r)"
    "abort_to_fatal (call_on_complete c depth) code msg r = Inr r'"
  shows "session r' = s_fatal (session r)"
proof -
  define r2 where "r2 = (fold (\<lambda>(topic, i). close_slot code (if msg = [] then ''Fatal'' else msg) i)
      (r_active_subs r) r)\<lparr>r_active_subs := []\<rparr>"
  have r2: "session r2 = (session r)\<lparr>s_active := []\<rparr>" by (simp add: r2_def)
  have inflight: "r_inflight r2 = r_inflight r"
    using arg_cong [OF r2, of s_inflight] by simp
  obtain r3 where r3: "complete_all (call_on_complete c depth) (fake_response code msg) code
        (r_inflight r2) r2 = Inr r3"
    and r': "session r' = s_goto CsFatal ((session r3)\<lparr>s_inflight := [], s_sub_timers := False,
        s_sub_ids := [], s_has_ws := False\<rparr>)"
    using assms(3) by (auto simp: abort_to_fatal_def Let_def obind_eq_Inr r2_def)
  have "session r3 = session r2"
  proof (cases "r_inflight r = []")
    case True
    then show ?thesis using r3 inflight by simp
  next
    case False
    then show ?thesis using session_complete_all [OF _ _ r3] assms(1,2) inflight by simp
  qed
  then show ?thesis using r2 r' by (simp add: s_fatal_def)
qed

lemma session_do_reconnect:
  assumes "\<not> replaying (r_inflight r)"
    "do_reconnect c (call_on_complete c depth) attempt r = Inr r'"
  shows "may_abort (session r) (session r')"
proof -
  show ?thesis
    using assms(2) session_abort [OF _ assms(1), of EcTransportFailure c depth]
    by (auto simp: do_reconnect_def may_abort_def Let_def split: if_splits prod.splits
        dest: session_looksD)
qed

lemma session_pause_slot [simp]:
  "session (pause_slot reason msg i r) =
     (session r)\<lparr>s_requested := (s_requested (session r))(i := 0)\<rparr>"
proof -
  define r2 where "r2 =
    (let prev = sl_state (r_slots r i); r1 = upd_slot i (\<lambda>s. s\<lparr>sl_state := SubPaused\<rparr>) r
     in if prev = SubActive \<or> prev = SubPending then fire_status i StPaused None reason msg r1 else r1)"
  have "session r2 = session r" by (simp add: r2_def Let_def session_upd_slot)
  moreover have "session (pause_slot reason msg i r)
      = (session r2)\<lparr>s_requested := (s_requested (session r2))(i := 0)\<rparr>"
    unfolding pause_slot_def Let_def r2_def
    by (rule session_upd_slot_request) simp
  ultimately show ?thesis by simp
qed

lemma session_fold_pause [simp]:
  "session (fold (\<lambda>(topic, i). pause_slot reason msg i) ps r) =
     (session r)\<lparr>s_requested := (\<lambda>i. if i \<in> snd ` set ps then 0 else s_requested (session r) i)\<rparr>"
  by (induction ps arbitrary: r) (auto simp: fun_eq_iff)

lemma session_pause_all [simp]:
  "session (pause_all_subs reason msg r) = (session r)\<lparr>s_requested :=
     (\<lambda>i. if i \<in> snd ` set (s_active (session r)) then 0 else s_requested (session r) i)\<rparr>"
  by (simp only: pause_all_subs_def session_fold_pause session_simps)

lemma pause_all_frame [simp]:
  "r_inflight (pause_all_subs reason msg r) = r_inflight r"
  "r_state (pause_all_subs reason msg r) = r_state r"
  using arg_cong [OF session_pause_all, of s_inflight reason msg r]
    arg_cong [OF session_pause_all, of s_state reason msg r]
  by (simp_all del: session_pause_all)

lemma session_mark_lost [simp]:
  "session (mark_lost c reason msg r) = (s_goto CsTransientFailure ((session r)\<lparr>s_inflight := [],
     s_sub_timers := False\<rparr>))\<lparr>s_has_ws := False\<rparr>"
  by (simp add: mark_lost_def Let_def split: prod.split) (auto dest: session_looksD)

text \<open>
  The recursion of the code: the lambda of a replay calls \<open>OnTransportClose\<close>, which calls the lambda
  again, because the entry is still in the map.
\<close>

lemma replay_overflows:
  assumes "r_inflight r = [(rid, rpc)]" "ir_on_complete rpc = CEStopReplay"
    "r_state r \<notin> {CsShutdown, CsFatal}" "\<not> (err = EcOk \<and> dr_success resp)"
  shows "call_on_complete c depth CEStopReplay resp err r = Inl StackOverflow"
  using assms
proof (induction depth arbitrary: r resp err)
  case (Suc d)
  let ?r1 = "r\<lparr>r_estop_pending := False\<rparr>"
  define code where "code = (if err \<noteq> EcOk then err
    else if dr_success resp then dr_rpc_code resp else dr_sdk_code resp)"
  let ?r2 = "pause_all_subs code ''estop replay failed'' ?r1"
  have "call_on_complete c d CEStopReplay (fake_response code ''estop replay failed'') code ?r2
      = Inl StackOverflow"
    using Suc.prems
    by (intro Suc.IH) (auto simp: fake_response_def decoded_response_default_def)
  then have "on_transport_close c (call_on_complete c d) code ''estop replay failed'' ?r1
      = Inl StackOverflow"
    using Suc.prems by (simp add: on_transport_close_def)
  then show ?case
    using Suc.prems(4) by (auto simp: on_complete_body_def complete_estop_replay_def code_def Let_def)
qed simp

text \<open>The state a lost connection leaves behind.\<close>

definition down :: "robot \<Rightarrow> bool" where
  "down r \<longleftrightarrow> r_ws r = None \<and> r_inflight r = []
     \<and> r_state r \<in> {CsTransientFailure, CsFatal, CsShutdown}"

lemma sess_ok_down: "sess_ok h0 (session r) \<Longrightarrow> r_state r \<in> {CsTransientFailure, CsFatal, CsShutdown} \<Longrightarrow> down r"
  by (auto simp: sess_ok_def down_def ws_ok_def inflight_ok_def)

lemma sess_ok_replaying:
  assumes "sess_ok h0 (session r)" "replaying (r_inflight r)"
  obtains rid rpc where "r_inflight r = [(rid, rpc)]" "ir_on_complete rpc = CEStopReplay"
    "r_state r = CsReconnecting"
  using assms
  by (cases "r_state r")
    (auto simp: sess_ok_def replaying_def inflight_ok_def only_lambda_def lifecycle_lambda_def)

text \<open>So giving up with a replay in flight does not return either.\<close>

lemma abort_replaying:
  assumes "sess_ok h0 (session r)" "replaying (r_inflight r)" "code \<noteq> EcOk"
  shows "abort_to_fatal (call_on_complete c depth) code msg r = Inl StackOverflow"
proof -
  obtain rid rpc where one: "r_inflight r = [(rid, rpc)]" "ir_on_complete rpc = CEStopReplay"
      "r_state r = CsReconnecting"
    using sess_ok_replaying [OF assms(1,2)] .
  define r2 where "r2 = (fold (\<lambda>(topic, i). close_slot code (if msg = [] then ''Fatal'' else msg) i)
      (r_active_subs r) r)\<lparr>r_active_subs := []\<rparr>"
  have r2: "session r2 = (session r)\<lparr>s_active := []\<rparr>" by (simp add: r2_def)
  have f2: "r_inflight r2 = r_inflight r" "r_state r2 = r_state r"
    using arg_cong [OF r2, of s_inflight] arg_cong [OF r2, of s_state] by simp_all
  have "call_on_complete c depth CEStopReplay (fake_response code msg) code r2 = Inl StackOverflow"
    by (rule replay_overflows) (use one f2 assms(3) in auto)
  then have "complete_all (call_on_complete c depth) (fake_response code msg) code (r_inflight r2) r2
      = Inl StackOverflow"
    using one f2 by simp
  then show ?thesis by (simp only: abort_to_fatal_def Let_def r2_def obind_simps)
qed

lemma close_replaying:
  assumes ok: "sess_ok h0 (session r)" and "replaying (r_inflight r)" and reason: "reason \<noteq> EcOk"
  shows "on_transport_close c (call_on_complete c depth) reason msg r = Inl StackOverflow"
proof -
  obtain rid rpc where one: "r_inflight r = [(rid, rpc)]" "ir_on_complete rpc = CEStopReplay"
      "r_state r = CsReconnecting"
    using sess_ok_replaying [OF ok assms(2)] .
  have "call_on_complete c depth CEStopReplay (fake_response reason msg) reason (pause_all_subs reason msg r)
      = Inl StackOverflow"
    by (rule replay_overflows) (use one reason in auto)
  then show ?thesis using one by (simp add: on_transport_close_def)
qed

lemma session_close:
  assumes ok: "sess_ok h0 (session r)" and st: "r_state r \<notin> {CsShutdown, CsFatal}"
    and reason: "reason \<noteq> EcOk \<or> r_inflight r = []"
    and run: "on_transport_close c (call_on_complete c depth) reason msg r = Inr r'"
  shows "may_abort (s_lost (session r)) (session r')"
proof -
  let ?r1 = "pause_all_subs reason msg r"
  obtain r2 where r2: "complete_all (call_on_complete c depth) (fake_response reason msg) reason
        (r_inflight ?r1) ?r1 = Inr r2"
    and last: "do_reconnect c (call_on_complete c depth)
        (r_reconnect_attempt (mark_lost c reason msg r2) + 1) (mark_lost c reason msg r2) = Inr r'"
    using run st by (auto simp: on_transport_close_def Let_def obind_eq_Inr)
  have "\<not> replaying (r_inflight r)" using close_replaying [OF ok] reason run by fastforce
  then have "session r2 = session ?r1"
    using session_complete_all [OF _ _ r2] reason r2 by (cases "r_inflight r = []") auto
  then have r7: "session (mark_lost c reason msg r2) = s_lost (session r)"
    by (simp add: s_lost_def s_goto_def)
  have "r_inflight (mark_lost c reason msg r2) = []"
    using arg_cong [OF r7, of s_inflight] by (simp add: s_lost_def del: session_mark_lost)
  then show ?thesis using session_do_reconnect [OF _ last] r7 by simp
qed

lemma close_result:
  assumes ok: "sess_ok h0 (session r)" and st: "r_state r \<noteq> CsIdle"
    and reason: "reason \<noteq> EcOk \<or> r_inflight r = []"
    and run: "on_transport_close c (call_on_complete c depth) reason msg r = Inr r'"
  shows "sess_ok h0 (session r')" "down r'" "r_ioc r' = r_ioc r"
    "r_state r' = CsFatal \<Longrightarrow> r_state r = CsFatal \<or> r_active_subs r' = []"
    "r_state r' = CsShutdown \<longleftrightarrow> r_state r = CsShutdown"
proof -
  have "sess_ok h0 (session r') \<and> r_ioc r' = r_ioc r
    \<and> r_state r' \<in> {CsTransientFailure, CsFatal, CsShutdown}
    \<and> (r_state r' = CsFatal \<longrightarrow> r_state r = CsFatal \<or> r_active_subs r' = [])
    \<and> (r_state r' = CsShutdown \<longleftrightarrow> r_state r = CsShutdown)"
  proof (cases "r_state r \<in> {CsShutdown, CsFatal}")
    case True
    then show ?thesis using run ok by (auto simp: on_transport_close_def)
  next
    case False
    have lost: "sess_ok h0 (s_lost (session r))"
      using ok False st by (intro sess_ok_lost) (auto intro: conn_state.exhaust [of "r_state r"])
    have m: "may_abort (s_lost (session r)) (session r')"
      using session_close [OF ok False reason run] .
    have "sess_ok h0 (session r')" using may_abort_ok [OF m lost] by (simp add: s_lost_def)
    moreover have "s_queue (session r') = s_queue (session r)"
      "s_state (session r') \<in> {CsTransientFailure, CsFatal}"
      "s_state (session r') = CsFatal \<Longrightarrow> s_active (session r') = []"
      using m by (auto simp: may_abort_def s_lost_def s_fatal_def simp del: session_simps)
    ultimately show ?thesis using False by auto
  qed
  then show "sess_ok h0 (session r')" "down r'" "r_ioc r' = r_ioc r"
    "r_state r' = CsFatal \<Longrightarrow> r_state r = CsFatal \<or> r_active_subs r' = []"
    "r_state r' = CsShutdown \<longleftrightarrow> r_state r = CsShutdown"
    using sess_ok_down by auto
qed

end
