(* ===== verification/RobotSteps.thy ===== *)
theory RobotSteps
  imports RobotInv
begin

text \<open>
  The handlers of the control loop, one after the other, and the invariant of the whole transition
  system. A handler that may lose the connection on its way ends either where it was, or \<open>down\<close>.
\<close>

section \<open>Giving up and trying again\<close>

lemma abort_result:
  assumes "sess_ok h0 (session r)" "r_state r \<notin> {CsIdle, CsShutdown}"
    "code \<noteq> EcOk \<or> r_inflight r = []"
    "abort_to_fatal (call_on_complete c depth) code msg r = Inr r'"
  shows "sess_ok h0 (session r')" "r_state r' = CsFatal" "down r'" "r_active_subs r' = []"
    "r_ioc r' = r_ioc r"
proof -
  have "\<not> replaying (r_inflight r)" using abort_replaying [OF assms(1)] assms(3,4) by fastforce
  then have s: "session r' = s_fatal (session r)" using session_abort assms(3,4) by blast
  show "sess_ok h0 (session r')" using s sess_ok_fatal assms(1,2) by auto
  have "s_state (session r') = CsFatal \<and> s_active (session r') = [] \<and> s_queue (session r') = s_queue (session r)"
    using s by (simp add: s_fatal_def)
  then show "r_state r' = CsFatal" "r_active_subs r' = []" "r_ioc r' = r_ioc r" by simp_all
  then show "down r'" using sess_ok_down \<open>sess_ok h0 (session r')\<close> by simp
qed

lemma abort_by_fatal_code:
  assumes "sess_ok h0 (session r)" "classify code = CatFatal" "r_state r \<notin> {CsIdle, CsShutdown}"
    "abort_to_fatal (call_on_complete c depth) code msg r = Inr r'"
  shows "sess_ok h0 (session r')" "down r'" "r_ioc r' = r_ioc r"
proof -
  have "code \<noteq> EcOk" using assms(2) by auto
  then show "sess_ok h0 (session r')" "down r'" "r_ioc r' = r_ioc r"
    using abort_result [OF assms(1,3) _ assms(4)] by auto
qed

lemma fail_result:
  assumes ok: "sess_ok h0 (session r)" and st: "r_state r \<in> {CsConnecting, CsReconnecting}"
    and empty: "r_inflight r = []" and ws: "reset \<or> r_ws r = None"
    and none: "none_requested (session r)"
    and run: "fail_and_reconnect c (call_on_complete c depth) what code msg reset r = Inr r'"
  shows "sess_ok h0 (session r')" "down r'" "r_ioc r' = r_ioc r"
proof -
  obtain r3 where r3: "session r3 = s_failed (session r)"
    and last: "do_reconnect c (call_on_complete c depth) (r_reconnect_attempt r3 + 1) r3 = Inr r'"
  proof -
    obtain retry r1 where r1: "next_backoff c (r_reconnect_attempt r) r = (retry, r1)"
      by (cases "next_backoff c (r_reconnect_attempt r) r")
    define r3 where "r3 = (if reset then ws_close_reset
        (transition_to CsTransientFailure (change_info what code msg retry 0 []) r1)
      else transition_to CsTransientFailure (change_info what code msg retry 0 []) r1)"
    have s1: "session r1 = session r" using session_looksD(4) [OF r1] .
    have "session r3 = s_failed (session r)"
      using ws s1 by (auto simp: r3_def s_failed_def s_goto_def)
    moreover have "do_reconnect c (call_on_complete c depth) (r_reconnect_attempt r3 + 1) r3 = Inr r'"
      using run r1 by (simp add: fail_and_reconnect_def r3_def Let_def)
    ultimately show ?thesis using that by blast
  qed
  have "r_inflight r3 = []" using arg_cong [OF r3, of s_inflight] empty by (simp add: s_failed_def)
  then have m: "may_abort (s_failed (session r)) (session r')"
    using session_do_reconnect [OF _ last] r3 by simp
  have f: "sess_ok h0 (s_failed (session r))" using sess_ok_failed ok st empty none by simp
  show "sess_ok h0 (session r')" using may_abort_ok [OF m f] by (simp add: s_failed_def)
  have "s_state (session r') \<in> {CsTransientFailure, CsFatal}
      \<and> s_queue (session r') = s_queue (session r)"
    using m by (auto simp: may_abort_def s_failed_def s_fatal_def simp del: session_simps)
  then show "down r'" "r_ioc r' = r_ioc r"
    using sess_ok_down [OF \<open>sess_ok h0 (session r')\<close>] by auto
qed

section \<open>Subscribing\<close>

lemma path_ok_request:
  assumes "path_ok h0 s"
    "s_state s' = s_state s" "s_history s' = s_history s"
    "s_next_id s' = s_next_id s + 1" "s_requests s' = Suc (s_requests s)"
  shows "path_ok h0 s'"
  using assms(1-3) ids_ok_next [OF _ assms(4,5)] by (simp add: path_ok_def)

lemma sess_ok_request:
  assumes "sess_ok h0 s"
  shows "sess_ok h0 (s\<lparr>s_next_id := s_next_id s + 1, s_requests := Suc (s_requests s)\<rparr>)"
    (is "sess_ok h0 ?s")
proof -
  have "path_ok h0 ?s" using assms path_ok_request [of h0 s ?s] by (simp add: sess_ok_def)
  moreover have "queue_ok ?s" "ws_ok ?s" "replay_ok ?s"
    using assms by (simp_all add: sess_ok_def queue_ok_def ws_ok_def replay_ok_def)
  moreover have "subs_ok ?s"
    using assms unfolding sess_ok_def subs_ok_def none_requested_def wrapped_def by force
  ultimately show ?thesis using assms by (simp add: sess_ok_def)
qed

lemma none_requested_update:
  "none_requested s \<Longrightarrow> w = 0 \<Longrightarrow> none_requested (s\<lparr>s_requested := (s_requested s)(i := w)\<rparr>)"
  by (simp add: none_requested_def)

text \<open>A subscription gets a new request, or gives one up.\<close>

definition can_subscribe :: "session \<Rightarrow> bool" where
  "can_subscribe s \<longleftrightarrow> s_state s \<notin> {CsIdle, CsConnecting} \<and> \<not> handshaking (s_inflight s)"

lemma sess_ok_subscribe:
  assumes ok: "sess_ok h0 s" and st: "can_subscribe s"
    and w: "w = 0 \<or> s_state s \<notin> {CsTransientFailure, CsShutdown}"
    and i: "i \<notin> set (queued_subs (s_queue s))"
    and ids: "set ids \<subseteq> insert (s_next_id s) (set (s_sub_ids s))"
  shows "sess_ok h0 (s\<lparr>s_requested := (s_requested s)(i := w), s_sub_timers := b, s_sub_ids := ids,
    s_next_id := s_next_id s + 1, s_requests := Suc (s_requests s)\<rparr>)"
    (is "sess_ok h0 ?s")
proof -
  have "path_ok h0 ?s" using ok path_ok_request [of h0 s ?s] by (simp add: sess_ok_def)
  moreover have "queue_ok ?s" "ws_ok ?s" "replay_ok ?s"
    using ok st by (simp_all add: sess_ok_def queue_ok_def ws_ok_def replay_ok_def can_subscribe_def)
  moreover have "wrapped ?s \<or> 0 \<notin> set ids"
  proof (cases "wrapped ?s")
    case False
    then have "\<not> wrapped s" by (simp add: wrapped_def)
    moreover have "s_next_id s \<noteq> 0"
      using fresh_id_nonzero [of "s_requests s"] ok False
      by (simp add: wrapped_def sess_ok_def path_ok_def ids_ok_def)
    ultimately have "\<not> wrapped s" "s_next_id s \<noteq> 0" .
    then show ?thesis using ids ok by (auto simp: sess_ok_def subs_ok_def)
  qed simp
  moreover have "none_requested ?s" if "s_state s \<in> {CsTransientFailure, CsShutdown}"
  proof -
    have "none_requested s" using that ok by (auto simp: sess_ok_def subs_ok_def)
    moreover have "w = 0" using that w by auto
    ultimately show ?thesis by (simp add: none_requested_def)
  qed
  ultimately show ?thesis
    using ok i st by (auto simp: sess_ok_def subs_ok_def can_subscribe_def)
qed

lemma sess_ok_active_subset:
  assumes ok: "sess_ok h0 s" and sub: "set act \<subseteq> set (s_active s)"
  shows "sess_ok h0 (s\<lparr>s_active := act\<rparr>)" (is "sess_ok h0 ?s")
proof (rule sess_okI)
  have slots: "snd ` set act \<subseteq> snd ` set (s_active s)" using sub by auto
  have none: "none_requested s \<Longrightarrow> none_requested ?s" using sub by (auto simp: none_requested_def)
  have "\<forall>i\<in>set (queued_subs (s_queue s)). i < s_next_slot s \<and> s_requested s i = 0 \<and> i \<notin> snd ` set act"
    using sess_okD(5) [OF ok] slots unfolding subs_ok_def by blast
  moreover have "\<forall>p\<in>set act. snd p < s_next_slot s"
    using sess_okD(5) [OF ok] sub unfolding subs_ok_def by blast
  ultimately show "subs_ok ?s"
    using sess_okD(5) [OF ok] none by (simp add: subs_ok_def wrapped_def)
qed (use sess_okD [OF ok] in \<open>simp_all add: path_ok_def ids_ok_def queue_ok_def ws_ok_def replay_ok_def\<close>)

lemma sess_ok_request_zero:
  assumes ok: "sess_ok h0 s"
  shows "sess_ok h0 (s\<lparr>s_requested := (s_requested s)(i := 0)\<rparr>)" (is "sess_ok h0 ?s")
proof (rule sess_okI)
  show "subs_ok ?s"
    using sess_okD(5) [OF ok] none_requested_update [of s 0 i] by (auto simp: subs_ok_def wrapped_def)
qed (use sess_okD [OF ok] in \<open>simp_all add: path_ok_def ids_ok_def queue_ok_def ws_ok_def replay_ok_def\<close>)

lemma sess_ok_estop_pending:
  assumes ok: "sess_ok h0 s" and "if b then s_state s = CsReconnecting else \<not> replaying (s_inflight s)"
  shows "sess_ok h0 (s\<lparr>s_estop_pending := b\<rparr>)" (is "sess_ok h0 ?s")
proof (rule sess_okI)
  show "subs_ok ?s" using sess_okD(5) [OF ok] by (subst subs_ok_frame [where s = s]) simp_all
qed (use assms(2) sess_okD [OF ok] in
  \<open>auto split: if_splits simp: path_ok_def ids_ok_def queue_ok_def ws_ok_def replay_ok_def\<close>)

lemma session_close_and_drop:
  "\<exists>act. set act \<subseteq> set (r_active_subs r)
    \<and> session (close_and_drop i err reason r) = (session r)\<lparr>s_active := act\<rparr>"
proof -
  define r1 where "r1 = fire_status i StClosed None err reason
    (upd_slot i (\<lambda>s. s\<lparr>sl_state := SubClosed, sl_error_code := err\<rparr>) r)"
  have r1: "session r1 = session r" by (simp add: r1_def session_upd_slot)
  then have "set (std_map_erase (sl_topic (r_slots r1 i)) (r_active_subs r1)) \<subseteq> set (r_active_subs r)"
    using session_eqD(3) [OF r1] by (auto simp: std_map_erase_def)
  then show ?thesis
    using r1 unfolding close_and_drop_def Let_def r1_def [symmetric] by auto
qed

lemma drop_result:
  assumes "sess_ok h0 (session r)"
  shows "sess_ok h0 (session (close_and_drop i err reason r))"
    "r_state (close_and_drop i err reason r) = r_state r"
    "r_inflight (close_and_drop i err reason r) = r_inflight r"
    "r_ioc (close_and_drop i err reason r) = r_ioc r"
    "set (r_active_subs (close_and_drop i err reason r)) \<subseteq> set (r_active_subs r)"
proof -
  obtain act where act: "set act \<subseteq> set (r_active_subs r)"
    and s: "session (close_and_drop i err reason r) = (session r)\<lparr>s_active := act\<rparr>"
    using session_close_and_drop by blast
  show "sess_ok h0 (session (close_and_drop i err reason r))"
    unfolding s using sess_ok_active_subset assms act by simp
  show "r_state (close_and_drop i err reason r) = r_state r"
    "r_inflight (close_and_drop i err reason r) = r_inflight r"
    "r_ioc (close_and_drop i err reason r) = r_ioc r"
    "set (r_active_subs (close_and_drop i err reason r)) \<subseteq> set (r_active_subs r)"
    using arg_cong [OF s, of s_state] arg_cong [OF s, of s_inflight] arg_cong [OF s, of s_queue]
      arg_cong [OF s, of s_active] act by simp_all
qed

text \<open>Where a handler that sends a subscribe request can leave the robot.\<close>

definition still_up :: "robot \<Rightarrow> robot \<Rightarrow> bool" where
  "still_up r r' \<longleftrightarrow> r_ioc r' = r_ioc r \<and>
    (r_state r' = r_state r \<and> r_inflight r' = r_inflight r
     \<or> r_state r' \<in> {CsTransientFailure, CsFatal})"

lemma still_up_refl: "still_up r r"
  by (simp add: still_up_def)

lemma still_up_trans: "still_up r1 r2 \<Longrightarrow> still_up r2 r3 \<Longrightarrow> still_up r1 r3"
  by (auto simp: still_up_def)

lemma still_up_closed:
  assumes "sess_ok h0 (session r)" "r_state r \<noteq> CsIdle" "reason \<noteq> EcOk \<or> r_inflight r = []"
    "on_transport_close c (call_on_complete c depth) reason msg r = Inr r'"
  shows "sess_ok h0 (session r') \<and> still_up r r'"
proof (cases "r_state r = CsShutdown")
  case True
  then have "r' = r" using assms(4) by (simp add: on_transport_close_def)
  then show ?thesis using assms(1) by (simp add: still_up_refl)
next
  case False
  then show ?thesis
    using close_result [OF assms] by (auto simp: still_up_def down_def)
qed

lemma can_subscribe_still_up:
  assumes "can_subscribe (session r)" "sess_ok h0 (session r')" "still_up r r'"
  shows "can_subscribe (session r')"
proof (cases "r_state r' = r_state r \<and> r_inflight r' = r_inflight r")
  case False
  then have "r_state r' \<in> {CsTransientFailure, CsFatal}" using assms(3) by (auto simp: still_up_def)
  then show ?thesis using assms(2) by (auto simp: can_subscribe_def sess_ok_def inflight_ok_def)
qed (use assms(1) in \<open>simp add: can_subscribe_def\<close>)

lemma AList_update_nonempty [simp]: "AList.update k v m \<noteq> []"
  by (cases m) auto

lemma session_register_subscribe:
  "\<exists>ids b. set ids \<subseteq> insert rid (set (map fst (r_inflight_sub r)))
    \<and> session (register_subscribe c rid i since r) =
      (session r)\<lparr>s_requested := (s_requested (session r))(i := rid), s_sub_ids := ids, s_sub_timers := b\<rparr>"
proof -
  define r1 where "r1 = upd_slot i (\<lambda>s. s\<lparr>sl_expected_resume_seq := since,
      sl_is_reconnect_resume := (sl_state s = SubPaused)
        \<or> (sl_ever_active s \<and> r_state r = CsReconnecting),
      sl_state := SubPending, sl_inflight_request := rid\<rparr>) r"
  have s1: "session r1 = (session r)\<lparr>s_requested := (s_requested (session r))(i := rid)\<rparr>"
    unfolding r1_def by (rule session_upd_slot_request) simp
  have "r_inflight_sub r1 = r_inflight_sub r" by (simp add: r1_def upd_slot_def)
  then have "set (map fst (AList.update rid (sl_topic (r_slots r1 i)) (r_inflight_sub r1)))
      \<subseteq> insert rid (set (map fst (r_inflight_sub r)))"
    by (simp add: dom_update)
  then show ?thesis
    unfolding register_subscribe_def r1_def [symmetric] Let_def using s1
    by (intro exI [of _ "map fst (AList.update rid (sl_topic (r_slots r1 i)) (r_inflight_sub r1))"]
        exI [of _ True]) simp
qed

lemma session_unregister_subscribe:
  "\<exists>ids b. set ids \<subseteq> set (map fst (r_inflight_sub r))
    \<and> session (unregister_subscribe rid i r) =
      (session r)\<lparr>s_requested := (s_requested (session r))(i := 0), s_sub_ids := ids, s_sub_timers := b\<rparr>"
proof -
  let ?r1 = "r\<lparr>r_sub_ack_timers := AList.delete rid (r_sub_ack_timers r),
      r_inflight_sub := AList.delete rid (r_inflight_sub r)\<rparr>"
  have "session (unregister_subscribe rid i r) =
      (session ?r1)\<lparr>s_requested := (s_requested (session ?r1))(i := 0)\<rparr>"
    unfolding unregister_subscribe_def by (rule session_upd_slot_request) simp
  moreover have "set (map fst (AList.delete rid (r_inflight_sub r))) \<subseteq> set (map fst (r_inflight_sub r))"
    by (auto simp: AList.delete_eq)
  ultimately show ?thesis
    by (intro exI [of _ "map fst (AList.delete rid (r_inflight_sub r))"]
        exI [of _ "AList.delete rid (r_sub_ack_timers r) \<noteq> []"]) simp
qed

lemma unregister_frame [simp]:
  "r_state (unregister_subscribe rid i r) = r_state r"
  "r_inflight (unregister_subscribe rid i r) = r_inflight r"
  "r_ioc (unregister_subscribe rid i r) = r_ioc r"
  "r_active_subs (unregister_subscribe rid i r) = r_active_subs r"
  by (simp_all add: unregister_subscribe_def upd_slot_def)

lemma send_subscribe_result:
  assumes ok: "sess_ok h0 (session r)" and st: "can_subscribe (session r)"
    and i: "i \<notin> set (queued_subs (r_ioc r))"
    and run: "send_subscribe c (call_on_complete c depth) i since r = Inr r'"
  shows "sess_ok h0 (session r') \<and> still_up r r'"
proof -
  define rid where "rid = r_next_request_id r"
  define r1 where "r1 = r\<lparr>r_next_request_id := rid + 1, r_requests := Suc (r_requests r)\<rparr>"
  have r1: "next_request_id r = (rid, r1)" by (simp add: next_request_id_def r1_def rid_def)
  have s1: "session r1 = (session r)\<lparr>s_next_id := s_next_id (session r) + 1,
      s_requests := Suc (s_requests (session r))\<rparr>"
    using session_next_request_id [of r] by (simp add: r1)
  have ok1: "sess_ok h0 (session r1)" unfolding s1 by (rule sess_ok_request [OF ok])
  have f1: "r_state r1 = r_state r" "r_inflight r1 = r_inflight r" "r_ioc r1 = r_ioc r"
      "r_inflight_sub r1 = r_inflight_sub r" "r_ws r1 = r_ws r"
    by (simp_all add: r1_def)
  define since' where "since' = effective_since (r_slots r1 i) since"
  show ?thesis
  proof (cases "encode_subscribe (cx_pb c) rid (sl_topic (r_slots r1 i)) (sl_desired_hz (r_slots r1 i))
      since' (if since' > 0 then co_history_limit (cx_opts c) else 0)")
    case (Inl e)
    then have "r' = close_and_drop i EcInternalError (exn_what e) r1"
      using run by (simp add: send_subscribe_def r1 since'_def Let_def)
    then show ?thesis
      using drop_result [OF ok1, of i EcInternalError "exn_what e"] f1 by (auto simp: still_up_def)
  next
    case (Inr b)
    define r2 where "r2 = register_subscribe c rid i since' r1"
    obtain sent r4 where r4: "send_or_fail c b r2 = (sent, r4)"
      by fastforce
    have run': "(if sent then Inr r4 else on_transport_close c (call_on_complete c depth)
        EcTransportFailure ''SendSubscribe failed'' (unregister_subscribe rid i r4)) = Inr r'"
      using run r4 Inr by (simp add: send_subscribe_def r1 since'_def r2_def Let_def)
    obtain ids b' where ids: "set ids \<subseteq> insert rid (set (map fst (r_inflight_sub r)))"
      and s2: "session r2 =
        (session r1)\<lparr>s_requested := (s_requested (session r1))(i := rid), s_sub_ids := ids, s_sub_timers := b'\<rparr>"
      using session_register_subscribe f1(4) unfolding r2_def by metis
    have s4: "session r4 = (session r)\<lparr>s_requested := (s_requested (session r))(i := rid),
        s_sub_timers := b', s_sub_ids := ids, s_next_id := s_next_id (session r) + 1,
        s_requests := Suc (s_requests (session r))\<rparr>"
      using session_looksD(2) [OF r4] s2 s1 by simp
    have f4: "r_state r4 = r_state r" "r_inflight r4 = r_inflight r" "r_ioc r4 = r_ioc r"
        "map fst (r_inflight_sub r4) = ids"
      using arg_cong [OF s4, of s_state] arg_cong [OF s4, of s_inflight] arg_cong [OF s4, of s_queue]
        arg_cong [OF s4, of s_sub_ids] by simp_all
    show ?thesis
    proof (cases sent)
      case True
      have "r_ws r2 = r_ws r" using s2 f1(5) by (simp add: r2_def register_subscribe_def upd_slot_def Let_def)
      then have "r_ws r \<noteq> None" using True r4 by (auto simp: send_or_fail_def split: option.splits)
      then have up: "r_state r \<notin> {CsTransientFailure, CsShutdown}"
        using sess_okD(4) [OF ok] by (auto simp: ws_ok_def)
      have "sess_ok h0 (session r4)"
        unfolding s4 by (rule sess_ok_subscribe [OF ok st]) (use up i ids in \<open>auto simp: rid_def\<close>)
      then show ?thesis using True run' f4 by (simp add: still_up_def)
    next
      case False
      define r6 where "r6 = unregister_subscribe rid i r4"
      obtain ids6 b6 where ids6: "set ids6 \<subseteq> set ids"
        and s6: "session r6 = (session r)\<lparr>s_requested := (s_requested (session r))(i := 0),
          s_sub_timers := b6, s_sub_ids := ids6, s_next_id := s_next_id (session r) + 1,
          s_requests := Suc (s_requests (session r))\<rparr>"
        using that
      proof -
        obtain ids6 b6 where "set ids6 \<subseteq> set (map fst (r_inflight_sub r4))"
          "session r6 = (session r4)\<lparr>s_requested := (s_requested (session r4))(i := 0),
            s_sub_ids := ids6, s_sub_timers := b6\<rparr>"
          using session_unregister_subscribe [of r4 rid i] unfolding r6_def by blast
        then show ?thesis using that [of ids6 b6] s4 f4(4) by simp
      qed
      have ok6: "sess_ok h0 (session r6)"
        unfolding s6 by (rule sess_ok_subscribe [OF ok st])
          (use i subset_trans [OF ids6 ids] in \<open>auto simp: rid_def\<close>)
      have "sess_ok h0 (session r') \<and> still_up r6 r'"
        by (rule still_up_closed [OF ok6])
          (use run' False st f4 in \<open>auto simp: r6_def can_subscribe_def\<close>)
      then show ?thesis using f4 by (auto simp: still_up_def r6_def)
    qed
  qed
qed

section \<open>Loops over the subscriptions\<close>

lemma for_each_result:
  assumes body: "\<And>i r r'. sess_ok h0 (session r) \<Longrightarrow> can_subscribe (session r) \<Longrightarrow>
      i \<notin> set (queued_subs (r_ioc r)) \<Longrightarrow> body i r = Inr r' \<Longrightarrow> sess_ok h0 (session r') \<and> still_up r r'"
    and "sess_ok h0 (session r)" "can_subscribe (session r)"
      "\<forall>p\<in>set ps. snd p \<notin> set (queued_subs (r_ioc r))" "for_each_sub body ps r = Inr r'"
  shows "sess_ok h0 (session r') \<and> still_up r r'"
  using assms(2-)
proof (induction ps arbitrary: r)
  case Nil
  then show ?case by (simp add: still_up_refl)
next
  case (Cons p ps)
  obtain topic i where p: "p = (topic, i)" by (cases p)
  obtain r1 where r1: "body i r = Inr r1" "for_each_sub body ps r1 = Inr r'"
    using Cons.prems(4) p by (auto simp: obind_eq_Inr split: if_splits)
  have one: "sess_ok h0 (session r1)" "still_up r r1"
    using body [OF Cons.prems(1,2) _ r1(1)] Cons.prems(3) p by auto
  have "sess_ok h0 (session r') \<and> still_up r1 r'"
    using Cons.IH [OF one(1) can_subscribe_still_up [OF Cons.prems(2) one] _ r1(2)] Cons.prems(3) one(2)
    by (simp add: still_up_def)
  then show ?case using still_up_trans one(2) by blast
qed

lemma active_not_queued:
  "sess_ok h0 (session r) \<Longrightarrow> \<forall>p\<in>set (r_active_subs r). snd p \<notin> set (queued_subs (r_ioc r))"
  by (auto simp: sess_ok_def subs_ok_def)

lemma subscribe_pending_result:
  assumes "sess_ok h0 (session r)" "can_subscribe (session r)" "i \<notin> set (queued_subs (r_ioc r))"
    "subscribe_pending c (call_on_complete c depth) i r = Inr r'"
  shows "sess_ok h0 (session r') \<and> still_up r r'"
  using assms send_subscribe_result [OF assms(1-3)]
  by (auto simp: subscribe_pending_def still_up_refl split: if_splits)

lemma resubscribe_one_result:
  assumes "sess_ok h0 (session r)" "can_subscribe (session r)" "i \<notin> set (queued_subs (r_ioc r))"
    "resubscribe_one c (call_on_complete c depth) i r = Inr r'"
  shows "sess_ok h0 (session r') \<and> still_up r r'"
proof -
  let ?r1 = "upd_slot i (\<lambda>s. s\<lparr>sl_fresh_retry_done := False\<rparr>) r"
  have s1: "session ?r1 = session r" by (simp add: session_upd_slot)
  have f1: "r_state ?r1 = r_state r" "r_ioc ?r1 = r_ioc r" "r_inflight ?r1 = r_inflight r"
    by (simp_all add: upd_slot_def)
  obtain since where "send_subscribe c (call_on_complete c depth) i since ?r1 = Inr r'"
    using assms(4) by (auto simp: resubscribe_one_def Let_def)
  from send_subscribe_result [OF _ _ _ this, of h0] show ?thesis
    using assms(1-3) f1 by (simp add: s1 still_up_def)
qed

section \<open>The replay of the emergency stop, the handshake\<close>

lemma sess_ok_inflight:
  assumes ok: "sess_ok h0 s" and "inflight_ok (s_state s) ps"
    and hs: "handshaking ps \<Longrightarrow> none_requested s" and "replaying ps \<Longrightarrow> s_estop_pending s"
  shows "sess_ok h0 (s\<lparr>s_inflight := ps\<rparr>)" (is "sess_ok h0 ?s")
proof (rule sess_okI)
  have "none_requested ?s = none_requested s" by (rule none_requested_frame) simp_all
  then show "subs_ok ?s" using sess_okD(5) [OF ok] hs by (auto simp: subs_ok_def wrapped_def)
qed (use assms(2,4) sess_okD [OF ok] in
  \<open>simp_all add: path_ok_def ids_ok_def queue_ok_def ws_ok_def replay_ok_def\<close>)

text \<open>A new request id, and an entry under it.\<close>

lemma new_request:
  assumes "sess_ok h0 (session r)"
  obtains r1 where "next_request_id r = (r_next_request_id r, r1)" "sess_ok h0 (session r1)"
    "r_state r1 = r_state r" "r_inflight r1 = r_inflight r" "r_ioc r1 = r_ioc r" "r_ws r1 = r_ws r"
    "r_estop_pending r1 = r_estop_pending r"
    "none_requested (session r1) = none_requested (session r)"
proof
  let ?r1 = "r\<lparr>r_next_request_id := r_next_request_id r + 1, r_requests := Suc (r_requests r)\<rparr>"
  show "next_request_id r = (r_next_request_id r, ?r1)" by (simp add: next_request_id_def)
  then have "session ?r1 = (session r)\<lparr>s_next_id := s_next_id (session r) + 1,
      s_requests := Suc (s_requests (session r))\<rparr>"
    using session_next_request_id [of r] by simp
  then show "sess_ok h0 (session ?r1)" using sess_ok_request [OF assms] by metis
  show "none_requested (session ?r1) = none_requested (session r)"
    by (rule none_requested_frame) simp_all
qed simp_all

lemma send_looks:
  assumes "send_or_fail c b r = (ok, r')"
  shows "session r' = session r" "r_state r' = r_state r" "r_inflight r' = r_inflight r"
    "r_ioc r' = r_ioc r" "ok \<Longrightarrow> r_ws r \<noteq> None"
proof -
  show s: "session r' = session r" using session_looksD(2) [OF assms] .
  show "r_state r' = r_state r" "r_inflight r' = r_inflight r" using session_eqD [OF s] by simp_all
  show "r_ioc r' = r_ioc r" using arg_cong [OF s, of s_queue] by simp
  show "ok \<Longrightarrow> r_ws r \<noteq> None" using assms by (auto simp: send_or_fail_def split: option.splits)
qed

lemma erase_after_send:
  assumes "sess_ok h0 (session r)" "session r3 = session (put_inflight rid rpc r)" "r_inflight r = []"
  shows "sess_ok h0 (session (erase_inflight rid r3))" "r_inflight (erase_inflight rid r3) = []"
    "r_state (erase_inflight rid r3) = r_state r"
proof -
  have same: "s\<lparr>s_inflight := []\<rparr> = s" if "s_inflight s = []" for s :: session
    using that by (cases s) simp
  have "session (erase_inflight rid r3) = (session r)\<lparr>s_inflight := []\<rparr>"
    using assms(2,3) by (simp add: AList.delete_eq)
  then have "session (erase_inflight rid r3) = session r" using same [of "session r"] assms(3) by simp
  from session_eqD [OF this] this
  show "sess_ok h0 (session (erase_inflight rid r3))" "r_inflight (erase_inflight rid r3) = []"
    "r_state (erase_inflight rid r3) = r_state r"
    using assms(1,3) by simp_all
qed

lemma do_estop_replay_result:
  assumes ok: "sess_ok h0 (session r)" and empty: "r_inflight r = []"
    and st: "r_state r \<in> {CsReconnecting, CsTransientFailure, CsFatal}" and pend: "r_estop_pending r"
    and run: "do_estop_replay c (call_on_complete c depth) r = Inr r'"
  shows "sess_ok h0 (session r')"
proof -
  obtain r1 where r1: "next_request_id r = (r_next_request_id r, r1)" "sess_ok h0 (session r1)"
    "r_state r1 = r_state r" "r_inflight r1 = []" "r_ws r1 = r_ws r" "r_estop_pending r1"
    using pend new_request [OF ok] empty by metis
  define rid where "rid = r_next_request_id r"
  define rpc where "rpc = \<lparr>ir_request_id = rid, ir_method = ''safety.emergency_stop.replay'',
    ir_enqueued_at = r_now r1, ir_on_complete = CEStopReplay,
    ir_timeout = Some (after_ms (co_estop_rpc_timeout (cx_opts c)) r1)\<rparr>"
  let ?r2 = "put_inflight rid rpc r1"
  have give_up: "sess_ok h0 (session r'')"
    if "session r3 = session ?r2" "on_transport_close c (call_on_complete c depth) EcTransportFailure msg
      ((erase_inflight rid r3)\<lparr>r_estop_pending := False\<rparr>) = Inr r''" for r3 r'' msg
  proof -
    note e = erase_after_send [OF r1(2) that(1) r1(4)]
    have "sess_ok h0 (session ((erase_inflight rid r3)\<lparr>r_estop_pending := False\<rparr>))"
      using sess_ok_estop_pending [OF e(1), of False] e(2) by (simp add: erase_inflight_def)
    from close_result(1) [OF this _ _ that(2)] show ?thesis using e r1(3) st by auto
  qed
  show ?thesis
  proof (cases "encode_emergency_stop (cx_pb c) rid True (r_estop_reason ?r2 @ replay_suffix)")
    case (Inl e)
    then have "on_transport_close c (call_on_complete c depth) EcTransportFailure (exn_what e)
        ((erase_inflight rid ?r2)\<lparr>r_estop_pending := False\<rparr>) = Inr r'"
      using run r1(1) by (simp add: do_estop_replay_def Let_def rid_def [symmetric] rpc_def [symmetric])
    then show ?thesis using give_up by blast
  next
    case (Inr b)
    obtain sent r3 where r3: "send_or_fail c b ?r2 = (sent, r3)" by fastforce
    note s3 = send_looks [OF r3]
    show ?thesis
    proof (cases sent)
      case True
      then have "r' = r3"
        using run r1(1) r3 Inr
        by (simp add: do_estop_replay_def Let_def rid_def [symmetric] rpc_def [symmetric])
      moreover have "r_ws r \<noteq> None" using s3(5) True r1(5) by (simp add: put_inflight_def)
      then have "r_state r = CsReconnecting"
        using ok st by (auto simp: sess_ok_def ws_ok_def)
      moreover have "sess_ok h0 ((session r1)\<lparr>s_inflight := [(rid, rpc)]\<rparr>)"
        using r1(2,3) \<open>r_state r = CsReconnecting\<close>
        by (intro sess_ok_inflight)
          (simp_all add: inflight_ok_def only_lambda_def rpc_def handshaking_def \<open>r_estop_pending r1\<close>)
      ultimately show ?thesis using s3(1) r1(4) by simp
    next
      case False
      then have "on_transport_close c (call_on_complete c depth) EcTransportFailure
          ''estop replay send failed'' ((erase_inflight rid r3)\<lparr>r_estop_pending := False\<rparr>) = Inr r'"
        using run r1(1) r3 Inr
        by (simp add: do_estop_replay_def Let_def rid_def [symmetric] rpc_def [symmetric])
      then show ?thesis using give_up s3(1) by blast
    qed
  qed
qed

lemma complete_estop_replay_result:
  assumes ok: "sess_ok h0 (session r)" and empty: "r_inflight r = []" and st: "r_state r = CsReconnecting"
    and run: "complete_estop_replay c (call_on_complete c depth) resp err r = Inr r'"
  shows "sess_ok h0 (session r')"
proof -
  have okF: "sess_ok h0 ((session r)\<lparr>s_estop_pending := False\<rparr>)"
    using sess_ok_estop_pending [OF ok] empty by simp
  let ?ok = "err = EcOk \<and> dr_success resp \<and> (\<not> dr_has_rpc resp \<or> dr_rpc_code resp = EcOk)"
  show ?thesis
  proof (cases ?ok)
    case True
    then show ?thesis
      using run okF sess_ok_ready [OF okF] empty st
      by (auto simp: complete_estop_replay_def Let_def split: if_splits)
  next
    case False
    define code where "code = (if err \<noteq> EcOk then err
      else if dr_success resp then dr_rpc_code resp else dr_sdk_code resp)"
    have "on_transport_close c (call_on_complete c depth) code ''estop replay failed''
        (r\<lparr>r_estop_pending := False\<rparr>) = Inr r'"
      using run False unfolding complete_estop_replay_def Let_def code_def by (simp only: if_False not_False_eq_True if_True)
    from close_result(1) [OF _ _ _ this, of h0] okF empty st show ?thesis by simp
  qed
qed

lemma resume_session_result:
  assumes ok: "sess_ok h0 (session r)" and empty: "r_inflight r = []" and st: "r_state r = CsReconnecting"
    and run: "resume_session c (call_on_complete c depth) r = Inr r'"
  shows "sess_ok h0 (session r')"
proof -
  let ?r1 = "r\<lparr>r_subs_pending := of_nat (length (r_active_subs r)),
    r_estop_pending := r_estop_engaged r, r_failure_code := EcOk\<rparr>"
  have ok1: "sess_ok h0 ((session r)\<lparr>s_estop_pending := b\<rparr>)" for b
    using sess_ok_estop_pending [OF ok] empty st by simp
  show ?thesis
  proof (cases "r_subs_pending ?r1 = 0 \<and> \<not> r_estop_pending ?r1")
    case True
    then show ?thesis
      using run sess_ok_ready [OF ok1] empty st
      by (auto simp: resume_session_def Let_def)
  next
    case False
    then obtain r2 where r2: "resubscribe_all c (call_on_complete c depth) ?r1 = Inr r2"
        "(if r_estop_pending r2 then do_estop_replay c (call_on_complete c depth) r2 else Inr r2) = Inr r'"
      using run unfolding resume_session_def Let_def by (auto simp: obind_eq_Inr)
    have two: "sess_ok h0 (session r2) \<and> still_up ?r1 r2"
      using r2(1) unfolding resubscribe_all_def
      by (rule for_each_result [rotated -1])
        (use ok1 st empty active_not_queued [OF ok] resubscribe_one_result in
          \<open>auto simp: can_subscribe_def\<close>)
    then have "r_inflight r2 = []" "r_state r2 \<in> {CsReconnecting, CsTransientFailure, CsFatal}"
      using sess_ok_down [of h0 r2] empty st by (auto simp: still_up_def down_def)
    then show ?thesis
      using r2(2) two do_estop_replay_result [of h0 r2] by (auto split: if_splits)
  qed
qed

lemma state_transition: "r_state (transition_to st info r) = st"
  by (metis s_goto_simps(1) session_simps(1) session_transition)

lemma complete_handshake_result:
  assumes ok: "sess_ok h0 (session r)" and empty: "r_inflight r = []"
    and st: "r_state r = (if b then CsReconnecting else CsConnecting)"
    and none: "none_requested (session r)"
    and run: "complete_handshake c (call_on_complete c depth) b resp err r = Inr r'"
  shows "sess_ok h0 (session r')"
proof -
  let ?r1 = "start_heartbeat c (r\<lparr>r_robot_info := Some (robot_info_of_response resp)\<rparr>)"
  have s1: "session ?r1 = session r" by simp
  have f1: "r_inflight ?r1 = []" "r_state ?r1 = r_state r"
    using session_eqD [OF s1] empty by simp_all
  consider (ignored) "r' = r"
    | (fatal) code msg where "classify code = CatFatal"
        "abort_to_fatal (call_on_complete c depth) code msg r = Inr r'"
    | (failed) code msg where
        "fail_and_reconnect c (call_on_complete c depth) ''handshake failed'' code msg True r = Inr r'"
    | (first) info where "\<not> b" "for_each_sub (subscribe_pending c (call_on_complete c depth))
        (r_active_subs (transition_to CsReady info ?r1)) (transition_to CsReady info ?r1) = Inr r'"
    | (again) "b" "resume_session c (call_on_complete c depth) ?r1 = Inr r'"
    using run by (fastforce simp: complete_handshake_def Let_def split: if_splits)
  then show ?thesis
  proof cases
    case ignored
    then show ?thesis using ok by simp
  next
    case fatal
    then show ?thesis using abort_by_fatal_code(1) [OF ok fatal(1) _ fatal(2)] st by (cases b) auto
  next
    case failed
    then show ?thesis using fail_result(1) [OF ok _ empty _ none failed] st by auto
  next
    case first
    let ?r2 = "transition_to CsReady info ?r1"
    have ok2: "sess_ok h0 (session ?r2)"
      using sess_ok_ready [of h0 "session r"] ok empty st first(1) sess_okD(6) [OF ok]
      by (simp add: replay_ok_def)
    have st2: "r_state ?r2 = CsReady" by (rule state_transition)
    have "session ?r2 = s_goto CsReady (session r)" by simp
    then have can2: "can_subscribe (session ?r2)" using empty by (simp only: can_subscribe_def) simp
    have "sess_ok h0 (session r') \<and> still_up ?r2 r'"
      using first(2)
      by (rule for_each_result [rotated -1])
        (use ok2 can2 active_not_queued [OF ok2] subscribe_pending_result in blast)+
    then show ?thesis by simp
  next
    case again
    then show ?thesis using resume_session_result [of h0 ?r1] ok f1 st by simp
  qed
qed

end
