(* ===== verification/RobotReach.thy ===== *)
theory RobotReach
  imports RobotSteps
begin

text \<open>
  The remaining handlers of the control loop keep the invariant of the session: connecting and
  closing, acknowledgements, responses, the calls of the user, the heartbeat, subscriptions.
\<close>

section \<open>Connecting and closing\<close>

lemma same_inflight: "s_inflight s = ps \<Longrightarrow> s\<lparr>s_inflight := ps\<rparr> = s"
  by (cases s) simp

lemma send_handshake_result:
  assumes ok: "sess_ok h0 (session r)" and empty: "r_inflight r = []"
    and st: "r_state r = (if b then CsReconnecting else CsConnecting)"
    and none: "none_requested (session r)"
    and run: "send_handshake c (call_on_complete c depth) b r = Inr r'"
  shows "sess_ok h0 (session r')"
proof -
  obtain r1 where r1: "next_request_id r = (r_next_request_id r, r1)" "sess_ok h0 (session r1)"
    "r_state r1 = r_state r" "r_inflight r1 = []" "none_requested (session r1)"
    using new_request [OF ok] empty none by metis
  define rid where "rid = r_next_request_id r"
  define rpc where "rpc = \<lparr>ir_request_id = rid, ir_method = ''handshake'', ir_enqueued_at = r_now r1,
    ir_on_complete = CHandshake b, ir_timeout = Some (after_ms (co_connect_timeout (cx_opts c)) r1)\<rparr>"
  let ?r2 = "put_inflight rid rpc r1"
  show ?thesis
  proof (cases "encode_handshake c rid")
    case (Inl e)
    then have "abort_to_fatal (call_on_complete c depth) (exn_code e) (''handshake encode: '' @ exn_what e) r1
        = Inr r'"
      using run r1(1) by (simp add: send_handshake_def rid_def Let_def)
    then show ?thesis using abort_result(1) [OF r1(2)] r1(3,4) st by (cases b) auto
  next
    case (Inr x)
    obtain sent r3 where r3: "send_or_fail c x ?r2 = (sent, r3)" by fastforce
    note s3 = send_looks [OF r3]
    show ?thesis
    proof (cases sent)
      case True
      then have "r' = r3" using run r1(1) r3 Inr
        by (simp add: send_handshake_def rid_def [symmetric] rpc_def [symmetric] Let_def)
      moreover have "sess_ok h0 ((session r1)\<lparr>s_inflight := [(rid, rpc)]\<rparr>)"
        using r1 st
        by (intro sess_ok_inflight)
          (auto simp: inflight_ok_def only_lambda_def rpc_def handshaking_def replaying_def)
      ultimately show ?thesis using s3(1) r1(4) by simp
    next
      case False
      let ?r4 = "erase_inflight rid r3"
      note e = erase_after_send [OF r1(2) s3(1) r1(4)]
      have "none_requested (session ?r4) = none_requested (session r1)"
        by (rule none_requested_frame) (simp_all add: s3(1) del: session_simps)
      then have none4: "none_requested (session ?r4)" using r1(5) by (simp only:)
      have "fail_and_reconnect c (call_on_complete c depth) ''handshake send failed''
          EcTransportFailure ''ws not open'' True ?r4 = Inr r'"
        using run r1(1) r3 Inr False
        by (simp add: send_handshake_def rid_def [symmetric] rpc_def [symmetric] Let_def)
      moreover have "r_state ?r4 \<in> {CsConnecting, CsReconnecting}" using e(3) r1(3) st by simp
      ultimately show ?thesis using fail_result(1) [OF e(1) _ e(2) _ none4] by blast
    qed
  qed
qed

lemma sess_ok_conn:
  assumes ok: "sess_ok h0 s" and st: "s_state s \<in> {CsConnecting, CsReconnecting}"
  shows "sess_ok h0 (s\<lparr>s_next_conn := n\<rparr>)" "sess_ok h0 (s\<lparr>s_next_conn := n, s_has_ws := True\<rparr>)"
proof -
  have "subs_ok (s\<lparr>s_next_conn := n\<rparr>) = subs_ok s"
    "subs_ok (s\<lparr>s_next_conn := n, s_has_ws := True\<rparr>) = subs_ok s"
    by (rule subs_ok_frame, simp_all)+
  then have subs: "subs_ok (s\<lparr>s_next_conn := n\<rparr>)" "subs_ok (s\<lparr>s_next_conn := n, s_has_ws := True\<rparr>)"
    using sess_okD(5) [OF ok] by simp_all
  show "sess_ok h0 (s\<lparr>s_next_conn := n\<rparr>)"
    by (rule sess_okI) (use subs st sess_okD [OF ok] in
      \<open>auto simp: path_ok_def ids_ok_def queue_ok_def ws_ok_def replay_ok_def\<close>)
  show "sess_ok h0 (s\<lparr>s_next_conn := n, s_has_ws := True\<rparr>)"
    by (rule sess_okI) (use subs st sess_okD [OF ok] in
      \<open>auto simp: path_ok_def ids_ok_def queue_ok_def ws_ok_def replay_ok_def\<close>)
qed

lemma connect_ws_result:
  assumes ok: "sess_ok h0 (session r)" and empty: "r_inflight r = []" and ws: "r_ws r = None"
    and st: "r_state r = (if b then CsReconnecting else CsConnecting)"
    and none: "none_requested (session r)"
    and run: "connect_ws c (call_on_complete c depth) b r = Inr r'"
  shows "sess_ok h0 (session r')"
proof -
  have fails: "sess_ok h0 (session r'')"
    if "sess_ok h0 (session r1)" "r_inflight r1 = []" "r_ws r1 = None" "r_state r1 = r_state r"
      "none_requested (session r1)"
      "(if classify (exn_code e) = CatFatal
        then abort_to_fatal (call_on_complete c depth) (exn_code e) m1 r1
        else fail_and_reconnect c (call_on_complete c depth) m2 (exn_code e) (exn_what e) False r1) = Inr r''"
    for e :: sdk_exception and m1 m2 r1 r''
    using that abort_by_fatal_code(1) [OF that(1), of "exn_code e" c depth m1 r'']
      fail_result(1) [OF that(1) _ that(2) _ that(5), of False c depth m2 "exn_code e" "exn_what e" r''] st
    by (cases b) (auto split: if_splits)
  let ?n = "r_next_conn r"
  let ?r1 = "r\<lparr>r_next_conn := Suc ?n\<rparr>"
  have ok1: "sess_ok h0 ((session r)\<lparr>s_next_conn := Suc ?n\<rparr>)"
    using sess_ok_conn(1) [OF ok] st by (cases b) simp_all
  show ?thesis
  proof (cases "ws_client_new (cx_ssl c) (ws_config_of (cx_opts c))")
    case (Inl e)
    then show ?thesis using run fails [OF ok empty ws refl none] by (simp add: connect_ws_def)
  next
    case (Inr w)
    show ?thesis
    proof (cases "ws_connect (cx_connect c ?n) w")
      case (Inl e)
      have "none_requested (session ?r1)" using none by (simp add: none_requested_def)
      then show ?thesis
        using run fails [of ?r1 e _ _ r'] ok1 empty ws Inr Inl by (simp add: connect_ws_def Let_def)
    next
      case (Inr w')
      define r2 where "r2 = ?r1\<lparr>r_ws := Some ?n\<rparr>"
      define r3 where "r3 = (if b then r2
        else upd_metrics (\<lambda>m. m\<lparr>mt_bytes_sent := 0, mt_bytes_received := 0\<rparr>) r2)"
      have s3: "session r3 = (session r)\<lparr>s_next_conn := Suc ?n, s_has_ws := True\<rparr>"
        by (simp add: r3_def r2_def)
      have ok3: "sess_ok h0 ((session r)\<lparr>s_next_conn := Suc ?n, s_has_ws := True\<rparr>)"
        using sess_ok_conn(2) [OF ok] st by (cases b) simp_all
      have "send_handshake c (call_on_complete c depth) b r3 = Inr r'"
        using run Inr \<open>ws_client_new _ _ = Inr w\<close> unfolding connect_ws_def Let_def r3_def r2_def
        by simp
      moreover have "none_requested (session r3)" using none unfolding s3 by (simp add: none_requested_def)
      moreover have "r_inflight r3 = []" "r_state r3 = r_state r"
        using arg_cong [OF s3, of s_inflight] arg_cong [OF s3, of s_state] empty by simp_all
      ultimately show ?thesis
        using send_handshake_result [of h0 r3 b] ok3 s3 st by simp
    qed
  qed
qed

lemma sess_ok_goto:
  assumes ok: "sess_ok h0 s" and "legal_change (s_state s) st" "st \<in> {CsConnecting, CsReconnecting}"
    and none: "none_requested s" and "s_inflight s = []" "\<not> s_has_ws s"
    and "st = CsConnecting \<Longrightarrow> \<not> s_estop_pending s"
  shows "sess_ok h0 (s_goto st s)"
proof (rule sess_okI)
  show "path_ok h0 (s_goto st s)" using path_ok_goto sess_okD(1) [OF ok] assms(2) by blast
  show "subs_ok (s_goto st s)"
    using sess_okD(5) [OF ok] none by (auto simp: subs_ok_def wrapped_def)
qed (use assms sess_okD [OF ok] in \<open>auto simp: queue_ok_def ws_ok_def replay_ok_def\<close>)

lemma idle_sess:
  assumes ok: "sess_ok h0 s" and st: "s_state s \<in> {CsIdle, CsTransientFailure}"
  shows "s_inflight s = []" "\<not> s_has_ws s" "none_requested s" "s_state s = CsIdle \<Longrightarrow> \<not> s_estop_pending s"
proof -
  show "s_inflight s = []" using sess_okD(3) [OF ok] st by (auto simp: inflight_ok_def)
  show "\<not> s_has_ws s" using sess_okD(4) [OF ok] st by (auto simp: ws_ok_def)
  show "none_requested s" using sess_okD(5) [OF ok] st unfolding subs_ok_def by blast
  show "s_state s = CsIdle \<Longrightarrow> \<not> s_estop_pending s"
    using sess_okD(6) [OF ok] by (auto simp: replay_ok_def)
qed

lemma establish_first_result:
  assumes ok: "sess_ok h0 (session r)"
    and run: "establish_connection c (call_on_complete c depth) False r = Inr r'"
  shows "sess_ok h0 (session r')"
proof (cases "r_state r = CsIdle")
  case True
  define r1 where "r1 = transition_to CsConnecting (change_info ''Connect()'' EcOk [] 0 0 []) r"
  have s1: "session r1 = s_goto CsConnecting (session r)" by (simp add: r1_def)
  have idle: "s_state (session r) \<in> {CsIdle, CsTransientFailure}" using True by simp
  have ok1: "sess_ok h0 (session r1)"
    unfolding s1 using idle_sess [OF ok idle] True ok by (intro sess_ok_goto) (simp_all add: legal_change_def)
  have "none_requested (session r1)" using idle_sess(3) [OF ok idle] by (simp add: s1)
  moreover have "r_inflight r1 = []" "r_ws r1 = None"
    using arg_cong [OF s1, of s_inflight] arg_cong [OF s1, of s_has_ws] idle_sess(1,2) [OF ok idle] by simp_all
  ultimately show ?thesis
    using connect_ws_result [OF ok1, of False] run True state_transition
    by (simp add: establish_connection_def r1_def)
qed (use run ok in \<open>simp add: establish_connection_def\<close>)

lemma on_reconnect_timer_result:
  assumes ok: "sess_ok h0 (session r)"
    and run: "on_reconnect_timer c (call_on_complete c depth) attempt r = Inr r'"
  shows "sess_ok h0 (session r')"
proof (cases "r_state r = CsTransientFailure")
  case True
  define r1 where "r1 = transition_to CsReconnecting (change_info ''reconnecting'' EcOk [] 0 attempt [])
    (r\<lparr>r_reconnect_attempt := attempt\<rparr>)"
  have s1: "session r1 = s_goto CsReconnecting (session r)" by (simp add: r1_def)
  have idle: "s_state (session r) \<in> {CsIdle, CsTransientFailure}" using True by simp
  have ok1: "sess_ok h0 (session r1)"
    unfolding s1 using idle_sess [OF ok idle] True ok by (intro sess_ok_goto) (simp_all add: legal_change_def)
  have "none_requested (session r1)" using idle_sess(3) [OF ok idle] by (simp add: s1)
  moreover have "r_inflight r1 = []" "r_ws r1 = None"
    using arg_cong [OF s1, of s_inflight] arg_cong [OF s1, of s_has_ws] idle_sess(1,2) [OF ok idle] by simp_all
  moreover have "r_state r1 = CsReconnecting" by (simp add: r1_def state_transition)
  ultimately show ?thesis
    using connect_ws_result [OF ok1, of True] run True
    by (simp add: on_reconnect_timer_def establish_connection_def r1_def)
qed (use run ok in \<open>simp add: on_reconnect_timer_def\<close>)

lemma handle_close_result:
  assumes ok: "sess_ok h0 (session r)"
    and run: "handle_close c (call_on_complete c depth) r = Inr r'"
  shows "sess_ok h0 (session r')"
proof -
  define r2 where "r2 = (transition_to CsShutdown
      (change_info ''user Close()'' EcCancelled [] 0 (r_reconnect_attempt r) []) r)
    \<lparr>r_idle_timer := None, r_ping_timer := None, r_reconnect_timer := None, r_sub_ack_timers := []\<rparr>"
  obtain r3 where r3: "complete_all (call_on_complete c depth) decoded_response_default EcCancelled
      (r_inflight r2) r2 = Inr r3"
    and r': "session r' = (session r3)\<lparr>s_inflight := [], s_active := [], s_has_ws := False\<rparr>"
    using run by (auto simp: handle_close_def r2_def Let_def obind_eq_Inr)
  have s2: "session r2 = (s_goto CsShutdown (session r))\<lparr>s_sub_timers := False\<rparr>"
    by (simp add: r2_def)
  have "r_state r2 = CsShutdown" using arg_cong [OF s2, of s_state] by simp
  then obtain b where "session r3 = (session r2)\<lparr>s_estop_pending := b\<rparr>"
    using session_complete_all_shutdown [OF _ _ r3] by auto
  then have "session r' = (s_closed (session r))\<lparr>s_estop_pending := b\<rparr>"
    unfolding r' s2 s_closed_def by simp
  moreover have "sess_ok h0 ((s_closed (session r))\<lparr>s_estop_pending := b\<rparr>)"
    using sess_ok_estop_pending [OF sess_ok_closed [OF ok], of b]
  proof (cases b)
    case True
    show ?thesis
      by (rule sess_okI) (use sess_okD [OF sess_ok_closed [OF ok]] in
        \<open>simp_all add: path_ok_def ids_ok_def queue_ok_def ws_ok_def replay_ok_def s_closed_def
          subs_ok_def none_requested_def wrapped_def\<close>)
  qed (simp add: s_closed_def)
  ultimately show ?thesis by simp
qed

section \<open>Acknowledgements\<close>

lemma session_sub_request [simp]:
  "session (upd_slot i (\<lambda>s. s\<lparr>sl_inflight_request := w\<rparr>) r) =
     (session r)\<lparr>s_requested := (s_requested (session r))(i := w)\<rparr>"
  by (rule session_upd_slot_request) simp

lemma reconnecting_settled:
  assumes ok: "sess_ok h0 s" and "s_state s = CsReconnecting" "\<not> s_estop_pending s" "can_subscribe s"
  shows "s_inflight s = []"
proof (rule ccontr)
  assume "s_inflight s \<noteq> []"
  then obtain rid rpc where one: "s_inflight s = [(rid, rpc)]"
    "ir_on_complete rpc = CHandshake True \<or> ir_on_complete rpc = CEStopReplay"
    using sess_okD(3) [OF ok] assms(2) by (auto simp: inflight_ok_def only_lambda_def)
  then have "handshaking (s_inflight s) \<or> replaying (s_inflight s)"
    by (auto simp: handshaking_def replaying_def)
  then show False
    using sess_okD(6) [OF ok] assms(3,4) by (auto simp: can_subscribe_def replay_ok_def)
qed

lemma reconnect_sub_done_result:
  assumes ok: "sess_ok h0 (session r)" and sub: "can_subscribe (session r)"
  shows "sess_ok h0 (session (reconnect_sub_done r))"
proof (cases "r_state r = CsReconnecting \<and> \<not> r_estop_pending r")
  case True
  then have "r_inflight r = []" using reconnecting_settled [OF ok _ _ sub] by simp
  then have "sess_ok h0 (s_goto CsReady (session r))" using sess_ok_ready [OF ok] True by simp
  then show ?thesis using ok by (simp add: reconnect_sub_done_def Let_def)
next
  case False
  then show ?thesis using ok by (auto simp: reconnect_sub_done_def Let_def)
qed

lemma dropped_done_result:
  assumes "sess_ok h0 (session r)" "can_subscribe (session r)"
  shows "sess_ok h0 (session (reconnect_sub_done (close_and_drop i err reason r)))"
proof (rule reconnect_sub_done_result)
  show "sess_ok h0 (session (close_and_drop i err reason r))" using drop_result(1) [OF assms(1)] .
  show "can_subscribe (session (close_and_drop i err reason r))"
    using assms(2) drop_result(2,3) [OF assms(1)] by (simp add: can_subscribe_def)
qed

lemma activate_result:
  assumes "sess_ok h0 (session r)" "can_subscribe (session r)"
  shows "sess_ok h0 (session (activate i kind gap new_last next_seq r))"
proof -
  define r4 where "r4 = upd_slot i (\<lambda>s. s\<lparr>sl_ever_active := True, sl_is_reconnect_resume := False\<rparr>)
    (drain_pending_buffer i next_seq (fire_status i kind gap EcOk []
      (upd_slot i (\<lambda>s. s\<lparr>sl_last_seq := new_last, sl_state := SubActive\<rparr>) r)))"
  have "session r4 = session r" by (simp add: r4_def session_upd_slot)
  then show ?thesis
    using reconnect_sub_done_result [of h0 r4] assms by (simp add: activate_def r4_def Let_def)
qed

lemma ack_failed_result:
  assumes ok: "sess_ok h0 (session r)" and sub: "can_subscribe (session r)"
    and st: "r_state r \<noteq> CsShutdown"
    and run: "ack_failed c (call_on_complete c depth) i resp r = Inr r'"
  shows "sess_ok h0 (session r')"
proof -
  have up: "r_state r \<notin> {CsIdle, CsShutdown}" using sub st by (auto simp: can_subscribe_def)
  have closed: "sess_ok h0 (session r'')"
    if "classify (dr_sdk_code resp) = CatTransient"
      "on_transport_close c (call_on_complete c depth) (dr_sdk_code resp) (dr_message resp)
        (r\<lparr>r_failure_code := dr_sdk_code resp, r_failure_message := dr_message resp\<rparr>) = Inr r''" for r''
  proof -
    have "dr_sdk_code resp \<noteq> EcOk" using that(1) by auto
    with close_result(1) [OF _ _ _ that(2), of h0] ok up show ?thesis by simp
  qed
  show ?thesis
    using run dropped_done_result [OF ok sub] drop_result(1) [OF ok]
      abort_by_fatal_code(1) [OF ok _ up] closed
    by (auto simp: ack_failed_def split: error_category.splits if_splits)
qed

lemma ack_event_result:
  assumes ok: "sess_ok h0 (session r)" and sub: "can_subscribe (session r)"
    and i: "i \<notin> set (queued_subs (r_ioc r))"
    and run: "ack_event c (call_on_complete c depth) i resp r = Inr r'"
  shows "sess_ok h0 (session r')"
proof -
  define r1 where "r1 = upd_slot i (\<lambda>s. s\<lparr>sl_last_seq := 0, sl_fresh_retry_done := True\<rparr>) r"
  have s1: "session r1 = session r" unfolding r1_def by (rule session_upd_slot) simp
  have "r_ioc r1 = r_ioc r" by (simp add: r1_def upd_slot_def)
  with s1 have fresh: "sess_ok h0 (session r')"
    if "send_subscribe c (call_on_complete c depth) i 0 r1 = Inr r'"
    using send_subscribe_result [of h0 r1 i c depth 0 r'] that ok sub i by simp
  show ?thesis
    using run dropped_done_result [OF ok sub] activate_result [OF ok sub] fresh
    by (auto simp: ack_event_def r1_def Let_def split: if_splits prod.splits)
qed

lemma map_of_memD: "map_of ps k = Some v \<Longrightarrow> (k, v) \<in> set ps"
  by (rule map_of_SomeD)

text \<open>Whoever is acknowledged while its request is in flight may subscribe again.\<close>

lemma requested_can_subscribe:
  assumes ok: "sess_ok h0 s" and "(topic, i) \<in> set (s_active s)" "s_requested s i \<noteq> 0"
  shows "can_subscribe s" "s_state s \<noteq> CsShutdown" "i \<notin> set (queued_subs (s_queue s))"
proof -
  have "\<not> none_requested s" using assms(2,3) by (force simp: none_requested_def)
  then show "can_subscribe s" "s_state s \<noteq> CsShutdown"
    using sess_okD(5) [OF ok] by (auto simp: subs_ok_def can_subscribe_def)
  show "i \<notin> set (queued_subs (s_queue s))"
    using sess_okD(5) [OF ok] assms(3) by (auto simp: subs_ok_def)
qed

lemma handle_subscribe_ack_result:
  assumes ok: "sess_ok h0 (session r)" and fresh: "\<not> wrapped (session r)" and st: "r_state r \<noteq> CsIdle"
    and run: "handle_subscribe_ack c (call_on_complete c depth) resp r = Inr r'"
  shows "sess_ok h0 (session r')"
proof (cases "map_of (r_inflight_sub r) (dr_request_id resp)")
  case None
  then show ?thesis using run ok by (auto simp: handle_subscribe_ack_def Let_def)
next
  case (Some topic)
  define rid where "rid = dr_request_id resp"
  define r1 where "r1 = r\<lparr>r_inflight_sub := AList.delete rid (r_inflight_sub r),
    r_sub_ack_timers := AList.delete rid (r_sub_ack_timers r)\<rparr>"
  have s1: "session r1 = (session r)\<lparr>s_sub_ids := map fst (AList.delete rid (r_inflight_sub r)),
      s_sub_timers := AList.delete rid (r_sub_ack_timers r) \<noteq> []\<rparr>"
    by (simp add: r1_def)
  have "rid \<in> set (s_sub_ids (session r))"
    using map_of_SomeD [OF Some] by (force simp: rid_def)
  then have rid: "rid \<noteq> 0" using sess_okD(5) [OF ok] fresh by (auto simp: subs_ok_def)
  have ok1: "sess_ok h0 (session r1)"
  proof (rule sess_okI)
    have "none_requested (session r1) = none_requested (session r)"
      unfolding s1 by (rule none_requested_frame) simp_all
    moreover have "0 \<notin> set (s_sub_ids (session r1))"
      using sess_okD(5) [OF ok] fresh by (auto simp: s1 subs_ok_def AList.delete_eq)
    ultimately show "subs_ok (session r1)"
      using sess_okD(5) [OF ok] unfolding subs_ok_def s1 by (simp add: wrapped_def)
  qed (use st sess_okD [OF ok] in
    \<open>simp_all add: s1 path_ok_def ids_ok_def queue_ok_def ws_ok_def replay_ok_def\<close>)
  show ?thesis
  proof (cases "map_of (r_active_subs r1) topic")
    case None
    then show ?thesis using run ok1 Some by (auto simp: handle_subscribe_ack_def r1_def rid_def Let_def)
  next
    case (Some i)
    note topic = \<open>map_of (r_inflight_sub r) (dr_request_id resp) = Some topic\<close>
    show ?thesis
    proof (cases "sl_inflight_request (r_slots r1 i) = rid")
      case False
      then show ?thesis using run ok1 Some topic by (auto simp: handle_subscribe_ack_def r1_def rid_def Let_def)
    next
      case True
      define r2 where "r2 = upd_slot i (\<lambda>s. s\<lparr>sl_inflight_request := 0\<rparr>) r1"
      have s2: "session r2 = (session r1)\<lparr>s_requested := (s_requested (session r1))(i := 0)\<rparr>"
        unfolding r2_def by (rule session_sub_request)
      have ok2: "sess_ok h0 (session r2)" unfolding s2 by (rule sess_ok_request_zero [OF ok1])
      have "s_requested (session r1) i \<noteq> 0" "(topic, i) \<in> set (s_active (session r1))"
        using True rid map_of_SomeD [OF Some] by simp_all
      note may = requested_can_subscribe [OF ok1 this(2,1)]
      have f2: "r_state r2 = r_state r1" "r_ioc r2 = r_ioc r1" by (simp_all add: r2_def upd_slot_def)
      have sub2: "can_subscribe (session r2)" using may(1) unfolding s2 by (simp add: can_subscribe_def)
      have "(if \<not> dr_success resp then ack_failed c (call_on_complete c depth) i resp r2
          else if sl_semantics (r_slots r2 i) = Telemetry then Inr (ack_telemetry i resp r2)
          else ack_event c (call_on_complete c depth) i resp r2) = Inr r'"
        using run topic Some True
        unfolding handle_subscribe_ack_def r2_def r1_def rid_def Let_def by simp
      then show ?thesis
        using ack_failed_result [OF ok2 sub2] ack_event_result [OF ok2 sub2] may(2,3) f2
          dropped_done_result [OF ok2 sub2] activate_result [OF ok2 sub2]
        by (auto simp: ack_telemetry_def split: if_splits)
    qed
  qed
qed

section \<open>Responses\<close>

lemma delete_subset: "set (AList.delete rid ps) \<subseteq> set ps"
  by (auto simp: AList.delete_eq)

lemma only_lambda_delete: "only_lambda ls ps \<Longrightarrow> only_lambda ls (AList.delete rid ps)"
  unfolding only_lambda_def by (elim disjE exE) simp_all

lemma inflight_ok_delete: "inflight_ok st ps \<Longrightarrow> inflight_ok st (AList.delete rid ps)"
  using delete_subset [of rid ps] by (cases st) (auto simp: inflight_ok_def only_lambda_delete)

lemma handshaking_none: "sess_ok h0 s \<Longrightarrow> handshaking (s_inflight s) \<Longrightarrow> none_requested s"
  unfolding sess_ok_def subs_ok_def by blast

lemma sess_ok_erase:
  assumes ok: "sess_ok h0 s"
  shows "sess_ok h0 (s\<lparr>s_inflight := AList.delete rid (s_inflight s)\<rparr>)"
proof (rule sess_ok_inflight [OF ok])
  show "inflight_ok (s_state s) (AList.delete rid (s_inflight s))"
    using inflight_ok_delete sess_okD(3) [OF ok] .
  have hs: "handshaking ps" if "handshaking (AList.delete rid ps)" for ps
    using that delete_subset [of rid ps] unfolding handshaking_def by blast
  have rp: "replaying ps" if "replaying (AList.delete rid ps)" for ps
    using that delete_subset [of rid ps] unfolding replaying_def by blast
  show "handshaking (AList.delete rid (s_inflight s)) \<Longrightarrow> none_requested s"
    using hs handshaking_none [OF ok] by blast
  show "replaying (AList.delete rid (s_inflight s)) \<Longrightarrow> s_estop_pending s"
    using rp sess_okD(6) [OF ok] unfolding replay_ok_def by blast
qed

text \<open>The entry of a life-cycle call is the only one.\<close>

lemma lifecycle_alone:
  assumes ok: "sess_ok h0 s" and rpc: "map_of (s_inflight s) rid = Some rpc" and "lifecycle_lambda (ir_on_complete rpc)"
  shows "AList.delete rid (s_inflight s) = []"
    "s_state s = (if ir_on_complete rpc = CHandshake False then CsConnecting else CsReconnecting)"
    "ir_on_complete rpc = CHandshake b \<Longrightarrow> none_requested s"
proof -
  have mem: "(rid, rpc) \<in> set (s_inflight s)" using map_of_SomeD [OF rpc] .
  obtain ls where one: "only_lambda ls (s_inflight s)"
    and st: "s_state s = CsConnecting \<and> ls = {CHandshake False}
      \<or> s_state s = CsReconnecting \<and> ls = {CHandshake True, CEStopReplay}"
    using sess_okD(3) [OF ok] mem assms(3)
    by (cases "s_state s") (force simp: inflight_ok_def)+
  have alone: "s_inflight s = [(rid, rpc)]" "ir_on_complete rpc \<in> ls"
    using one mem by (auto simp: only_lambda_def)
  then show "AList.delete rid (s_inflight s) = []" by simp
  show "s_state s = (if ir_on_complete rpc = CHandshake False then CsConnecting else CsReconnecting)"
    using st alone(2) by auto
  show "none_requested s" if "ir_on_complete rpc = CHandshake b"
  proof -
    have "handshaking (s_inflight s)" using alone(1) that by (simp add: handshaking_def)
    then show ?thesis by (rule handshaking_none [OF ok])
  qed
qed

text \<open>The lambdas of the user's calls and of the heartbeat touch the map of subscriptions at most.\<close>

lemma user_lambda_result:
  assumes ok: "sess_ok h0 (session r)" and "\<not> lifecycle_lambda lam"
    and run: "call_on_complete c depth lam resp err r = Inr r'"
  shows "sess_ok h0 (session r')"
proof (cases depth)
  case 0
  then show ?thesis using run by simp
next
  case (Suc d)
  then have run: "on_complete_body c (call_on_complete c d) lam resp err r = Inr r'" using run by simp
  show ?thesis
  proof (cases lam)
    case (CUnsubscribe topic p)
    then have run': "complete_unsubscribe topic p resp err r = Inr r'"
      using run by (simp add: on_complete_body_def)
    show ?thesis
    proof (cases "err = EcOk")
      case False
      then show ?thesis using run' ok by (auto simp: complete_unsubscribe_def dest: session_set_value)
    next
      case True
      define code where "code = (if dr_success resp then EcOk else dr_sdk_code resp)"
      define r1 where "r1 = (case map_of (r_active_subs r) topic of None \<Rightarrow> r
        | Some i \<Rightarrow> (fire_status i StClosed None code (dr_message resp)
              (upd_slot i (\<lambda>s. s\<lparr>sl_state := SubClosed, sl_error_code := code\<rparr>) r))
            \<lparr>r_active_subs := std_map_erase topic (r_active_subs (fire_status i StClosed None code (dr_message resp)
              (upd_slot i (\<lambda>s. s\<lparr>sl_state := SubClosed, sl_error_code := code\<rparr>) r)))\<rparr>)"
      have "\<exists>act. set act \<subseteq> set (r_active_subs r) \<and> session r1 = (session r)\<lparr>s_active := act\<rparr>"
      proof (cases "map_of (r_active_subs r) topic")
        case None
        then show ?thesis
          by (intro exI [of _ "r_active_subs r"]) (simp add: r1_def session_def)
      next
        case (Some i)
        define ra where "ra = fire_status i StClosed None code (dr_message resp)
          (upd_slot i (\<lambda>s. s\<lparr>sl_state := SubClosed, sl_error_code := code\<rparr>) r)"
        have sa: "session ra = session r" by (simp add: ra_def session_upd_slot)
        then have "set (std_map_erase topic (r_active_subs ra)) \<subseteq> set (r_active_subs r)"
          using session_eqD(3) [OF sa] by (auto simp: std_map_erase_def)
        then show ?thesis using sa Some by (auto simp: r1_def ra_def [symmetric])
      qed
      then have "sess_ok h0 (session r1)" using sess_ok_active_subset [OF ok] by auto
      moreover have "set_value p (AnsUnsubscribe code) r1 = Inr r'"
        using run' True unfolding complete_unsubscribe_def r1_def code_def Let_def by simp
      ultimately show ?thesis using session_set_value by metis
    qed
  next
    case (CEStop engage reason t0 p)
    then show ?thesis
      using run ok by (auto simp: on_complete_body_def complete_estop_def Let_def split: if_splits
          dest!: session_set_value)
  qed (use run ok assms(2) in \<open>auto simp: on_complete_body_def complete_cmd_vel_def lifecycle_lambda_def
        Let_def split: if_splits dest!: session_set_value\<close>)
qed

lemma session_erase [simp]:
  "session (erase_inflight rid r) = (session r)\<lparr>s_inflight := AList.delete rid (r_inflight r)\<rparr>"
  by (simp add: erase_inflight_def)

lemma erase_frame [simp]:
  "r_state (erase_inflight rid r) = r_state r"
  "r_inflight (erase_inflight rid r) = AList.delete rid (r_inflight r)"
  by (simp_all add: erase_inflight_def)

lemma erased_call:
  assumes ok: "sess_ok h0 (session r)" and rpc: "map_of (r_inflight r) rid = Some rpc"
  shows "sess_ok h0 (session (erase_inflight rid r))"
    "lifecycle_lambda (ir_on_complete rpc) \<Longrightarrow> r_inflight (erase_inflight rid r) = []"
    "lifecycle_lambda (ir_on_complete rpc) \<Longrightarrow> r_state (erase_inflight rid r) =
       (if ir_on_complete rpc = CHandshake False then CsConnecting else CsReconnecting)"
    "ir_on_complete rpc = CHandshake b \<Longrightarrow> none_requested (session (erase_inflight rid r))"
proof -
  note alone = lifecycle_alone [OF ok, of rid rpc]
  show "sess_ok h0 (session (erase_inflight rid r))" using sess_ok_erase [OF ok, of rid] by simp
  show "lifecycle_lambda (ir_on_complete rpc) \<Longrightarrow> r_inflight (erase_inflight rid r) = []"
    using alone(1) rpc by simp
  show "lifecycle_lambda (ir_on_complete rpc) \<Longrightarrow> r_state (erase_inflight rid r) =
       (if ir_on_complete rpc = CHandshake False then CsConnecting else CsReconnecting)"
    using alone(2) rpc by simp
  show "none_requested (session (erase_inflight rid r))" if h: "ir_on_complete rpc = CHandshake b"
  proof -
    have "none_requested (session (erase_inflight rid r)) = none_requested (session r)"
      by (rule none_requested_frame) simp_all
    moreover have "none_requested (session r)"
      using alone(3) [of b] rpc h by (auto simp: lifecycle_lambda_def)
    ultimately show ?thesis by (simp only:)
  qed
qed

lemma completed_call_result:
  assumes ok: "sess_ok h0 (session r)" and rpc: "map_of (r_inflight r) rid = Some rpc"
    and run: "call_on_complete c depth (ir_on_complete rpc) resp err (erase_inflight rid r) = Inr r'"
  shows "sess_ok h0 (session r')"
proof (cases "lifecycle_lambda (ir_on_complete rpc)")
  case False
  then show ?thesis using user_lambda_result erased_call(1) [OF ok rpc] run by blast
next
  case True
  note e = erased_call(1,4) [OF ok rpc] erased_call(2,3) [OF ok rpc True]
  obtain d where d: "depth = Suc d" using run by (cases depth) auto
  consider (hs) b where "ir_on_complete rpc = CHandshake b" | (replay) "ir_on_complete rpc = CEStopReplay"
    using True by (auto simp: lifecycle_lambda_def)
  then show ?thesis
  proof cases
    case (hs b)
    then have "complete_handshake c (call_on_complete c d) b resp err (erase_inflight rid r) = Inr r'"
      using run d by (simp add: on_complete_body_def)
    from complete_handshake_result [OF e(1) e(3) _ e(2) [OF hs] this] show ?thesis
      using e(4) hs by (cases b) simp_all
  next
    case replay
    then have "complete_estop_replay c (call_on_complete c d) resp err (erase_inflight rid r) = Inr r'"
      using run d by (simp add: on_complete_body_def)
    from complete_estop_replay_result [OF e(1) e(3) _ this] show ?thesis using e(4) replay by simp
  qed
qed

lemma handle_sdk_response_result:
  assumes ok: "sess_ok h0 (session r)" and fresh: "\<not> wrapped (session r)" and st: "r_state r \<noteq> CsIdle"
    and run: "handle_sdk_response c (call_on_complete c depth) resp r = Inr r'"
  shows "sess_ok h0 (session r')"
proof (cases "dr_has_subscribe resp")
  case True
  then show ?thesis
    using run handle_subscribe_ack_result [OF ok fresh st] by (simp add: handle_sdk_response_def)
next
  case False
  show ?thesis
  proof (cases "map_of (r_inflight r) (dr_request_id resp)")
    case None
    then show ?thesis using run ok False by (auto simp: handle_sdk_response_def)
  next
    case (Some rpc)
    then show ?thesis
      using run False erased_call(1) [OF ok Some] completed_call_result [OF ok Some]
      by (auto simp: handle_sdk_response_def Let_def split: if_splits)
  qed
qed

lemma on_inbound_message_result:
  assumes ok: "sess_ok h0 (session r)" and fresh: "\<not> wrapped (session r)" and st: "r_state r \<noteq> CsIdle"
    and run: "on_inbound_message c (call_on_complete c depth) b r = Inr r'"
  shows "sess_ok h0 (session r')"
proof -
  define r2 where "r2 = reset_liveness_on_inbound
    (upd_metrics (\<lambda>m. m\<lparr>mt_bytes_received := mt_bytes_received m + of_nat (length b)\<rparr>) r)"
  have s2: "session r2 = session r" by (simp add: r2_def)
  then have "r_state r2 = r_state r" by (rule session_eqD)
  then show ?thesis
    using run handle_sdk_response_result [of h0 r2] ok fresh st s2
    by (auto simp: on_inbound_message_def r2_def [symmetric] Let_def split: inbound.splits)
qed

section \<open>The calls of the user\<close>

text \<open>In \<open>Ready\<close> a call may be added to the calls in flight, and any entry replaced or removed.\<close>

lemma ready_inflight:
  assumes ok: "sess_ok h0 s" and st: "s_state s = CsReady"
    and ps: "\<And>p. p \<in> set ps \<Longrightarrow> p \<in> set (s_inflight s) \<or> \<not> lifecycle_lambda (ir_on_complete (snd p))"
  shows "sess_ok h0 (s\<lparr>s_inflight := ps\<rparr>)"
proof (rule sess_ok_inflight [OF ok])
  have none: "\<not> lifecycle_lambda (ir_on_complete (snd p))" if "p \<in> set ps" for p
    using ps [OF that] sess_okD(3) [OF ok] st by (auto simp: inflight_ok_def)
  then show "inflight_ok (s_state s) ps" using st by (simp add: inflight_ok_def)
  show "handshaking ps \<Longrightarrow> none_requested s" "replaying ps \<Longrightarrow> s_estop_pending s"
    using none by (auto simp: handshaking_def replaying_def lifecycle_lambda_def)
qed

lemma update_subset: "set (AList.update k v ps) \<subseteq> insert (k, v) (set ps)"
  by (induction ps) auto

lemma ready_put:
  assumes "sess_ok h0 (session r)" "r_state r = CsReady" "\<not> lifecycle_lambda (ir_on_complete rpc)"
  shows "sess_ok h0 (session (put_inflight rid rpc r))"
  using ready_inflight [of h0 "session r" "AList.update rid rpc (r_inflight r)"] assms
    update_subset [of rid rpc "r_inflight r"] by fastforce

lemma sess_ok_same: "sess_ok h0 (session r) \<Longrightarrow> session r' = session r \<Longrightarrow> sess_ok h0 (session r')"
  by simp

lemma put_frame [simp]: "r_state (put_inflight rid rpc r) = r_state r"
  by (simp add: put_inflight_def)

lemma register_call_result:
  assumes ok: "sess_ok h0 (session r)" and lam: "\<not> lifecycle_lambda lam"
    and err: "\<And>r. session (on_error r) = session r" and quiet: "\<And>r. session (sent r) = session r"
    and run: "register_call c mname enq dl lam enc failed on_error sent p r = Inr r'"
  shows "sess_ok h0 (session r')"
proof (cases "r_state r \<noteq> CsReady \<or> r_ws r = None")
  case True
  then show ?thesis using run ok sess_ok_same session_set_value by (auto simp: register_call_def)
next
  case False
  then obtain n where ws: "r_ws r = Some n" by auto
  obtain r1 where r1: "next_request_id r = (r_next_request_id r, r1)" "sess_ok h0 (session r1)"
    "r_state r1 = r_state r"
    using new_request [OF ok] by metis
  define rid where "rid = r_next_request_id r"
  define r2 where "r2 = put_inflight rid \<lparr>ir_request_id = rid, ir_method = mname, ir_enqueued_at = enq,
    ir_on_complete = lam, ir_timeout = Some (after_ms dl r1)\<rparr> r1"
  have ok2: "sess_ok h0 (session r2)"
    unfolding r2_def by (rule ready_put) (use r1 False lam in auto)
  show ?thesis
  proof (cases "enc rid")
    case (Inl e)
    then obtain r3 where "set_value p (failed EcTransportFailure (exn_what e)) (erase_inflight rid r2) = Inr r3"
      "r' = on_error r3"
      using run False ws r1(1) unfolding register_call_def r2_def rid_def Let_def
      by (auto simp: obind_eq_Inr)
    then show ?thesis using sess_ok_erase [OF ok2, of rid] session_set_value err by fastforce
  next
    case (Inr b)
    obtain up r3 where r3: "send_or_fail c b r2 = (up, r3)" by fastforce
    have s3: "session r3 = session r2" using session_looksD(2) [OF r3] .
    show ?thesis
    proof (cases up)
      case True
      then have "r' = sent r3"
        using run False ws r1(1) r3 Inr unfolding register_call_def r2_def rid_def Let_def by simp
      then show ?thesis using ok2 s3 quiet by simp
    next
      case down: False
      then obtain r4 where r4: "set_value p (failed EcTransportFailure ''ws not open'') (erase_inflight rid r3) = Inr r4"
        "r' = on_error r4"
        using run False ws r1(1) r3 Inr unfolding register_call_def r2_def rid_def Let_def
        by (auto simp: obind_eq_Inr)
      have "sess_ok h0 (session r3)" using ok2 s3 by simp
      then show ?thesis using r4 sess_ok_erase [of h0 "session r3" rid] session_set_value err by fastforce
    qed
  qed
qed

lemma call_handlers_result:
  assumes "sess_ok h0 (session r)"
  shows "handle_cmd_vel c vx vy wz sq t0 p r = Inr r' \<Longrightarrow> sess_ok h0 (session r')"
    "handle_estop c engage reason t0 p r = Inr r' \<Longrightarrow> sess_ok h0 (session r')"
    "handle_invoke c mname deadline enc p r = Inr r' \<Longrightarrow> sess_ok h0 (session r')"
    "handle_ping c t0 p r = Inr r' \<Longrightarrow> sess_ok h0 (session r')"
  unfolding handle_cmd_vel_def handle_estop_def handle_invoke_def handle_ping_def
  by (erule register_call_result [OF assms, rotated 3], simp_all add: lifecycle_lambda_def)+

section \<open>Heartbeat and deadlines\<close>

lemma send_heartbeat_ping_result:
  assumes ok: "sess_ok h0 (session r)" and st: "r_state r = CsReady" and lam: "\<not> lifecycle_lambda lam"
    and run: "send_heartbeat_ping c rid lam r = (sent, r')"
  shows "sess_ok h0 (session r')" "r_state r' = CsReady"
proof -
  define r1 where "r1 = upd_heartbeat (\<lambda>h. h\<lparr>hb_last_ping_request_id := rid, hb_last_ping_sent_at := r_now r,
    hb_ping_deadline_active := True\<rparr>) r"
  define r2 where "r2 = put_inflight rid \<lparr>ir_request_id = rid, ir_method = ''ping'', ir_enqueued_at = r_now r1,
    ir_on_complete = lam, ir_timeout = None\<rparr> r1"
  define r3 where "r3 = r2\<lparr>r_ping_timer := Some (after_ms (co_ping_timeout (cx_opts c)) r2)\<rparr>"
  have f1: "session r1 = session r" "r_state r1 = CsReady" using st by (simp_all add: r1_def upd_heartbeat_def)
  have ok2: "sess_ok h0 (session r2)" unfolding r2_def by (rule ready_put) (use ok f1 lam in simp_all)
  have "session r' = session r3"
    using run by (auto simp: send_heartbeat_ping_def r1_def [symmetric] r2_def [symmetric] r3_def [symmetric]
        Let_def split: sum.splits dest: session_looksD)
  then have s: "session r' = session r2" by (simp add: r3_def)
  then show "sess_ok h0 (session r')" using ok2 by simp
  show "r_state r' = CsReady" using session_eqD(1) [OF s] f1(2) by (simp add: r2_def)
qed

lemma heartbeat_lost:
  assumes "sess_ok h0 (session r)" "r_state r = CsReady"
    "on_transport_close c (call_on_complete c depth) EcTransportFailure msg r = Inr r'"
  shows "sess_ok h0 (session r')"
  using close_result(1) [OF assms(1) _ _ assms(3)] assms(2) by simp

lemma on_idle_timer_result:
  assumes ok: "sess_ok h0 (session r)"
    and run: "on_idle_timer c (call_on_complete c depth) r = Inr r'"
  shows "sess_ok h0 (session r')"
proof (cases "r_state r = CsReady \<and> co_heartbeat_interval (cx_opts c)
    \<le> elapsed_ms (hb_last_inbound_at (r_heartbeat r)) r")
  case False
  then show ?thesis using run ok by (auto simp: on_idle_timer_def Let_def split: if_splits)
next
  case True
  obtain up r1 where r1: "ws_is_open c r = (up, r1)" by fastforce
  have s1: "session r1 = session r" using session_looksD(3) [OF r1] .
  show ?thesis
  proof (cases up)
    case False
    then show ?thesis using run True r1 s1 ok by (auto simp: on_idle_timer_def Let_def)
  next
    case up: True
    have "sess_ok h0 (session r1)" using ok s1 by simp
    then obtain r2 where r2: "next_request_id r1 = (r_next_request_id r1, r2)" "sess_ok h0 (session r2)"
      "r_state r2 = r_state r1" using new_request by metis
    have st2: "r_state r2 = CsReady" using r2(3) session_eqD(1) [OF s1] True by simp
    obtain sent r3 where r3: "send_heartbeat_ping c (r_next_request_id r1) (CHeartbeat (r_now r2)) r2 = (sent, r3)"
      by fastforce
    note b = send_heartbeat_ping_result [OF r2(2) st2 _ r3]
    have b3: "sess_ok h0 (session r3)" "r_state r3 = CsReady" using b by (simp_all add: lifecycle_lambda_def)
    show ?thesis
      using run True r1 up r2(1) r3 b3 heartbeat_lost [OF b3]
      by (auto simp: on_idle_timer_def Let_def split: if_splits)
  qed
qed

lemma on_ping_deadline_result:
  assumes ok: "sess_ok h0 (session r)"
    and run: "on_ping_deadline c (call_on_complete c depth) r = Inr r'"
  shows "sess_ok h0 (session r')"
proof (cases "r_state r = CsReady \<and> hb_ping_deadline_active (r_heartbeat r)")
  case False
  then show ?thesis using run ok by (cases "r_state r = CsReady") (simp_all add: on_ping_deadline_def)
next
  case True
  define r1 where "r1 = upd_heartbeat (\<lambda>h. h\<lparr>hb_ping_deadline_active := False,
    hb_miss_count := hb_miss_count h + 1\<rparr>) r"
  define r2 where "r2 = post_log LogWarn (''heartbeat miss_count='' @ dec_nat (unat (hb_miss_count (r_heartbeat r1)))
    @ '' >= max_missed_pings, declaring dead'') r1"
  have s12: "session r1 = session r" "session r2 = session r" by (simp_all add: r1_def r2_def)
  have ok12: "sess_ok h0 (session r1)" "sess_ok h0 (session r2)" using ok s12 by simp_all
  have st12: "r_state r1 = CsReady" "r_state r2 = CsReady"
    using session_eqD(1) [OF s12(1)] session_eqD(1) [OF s12(2)] True by simp_all
  show ?thesis
  proof (cases "co_max_missed_pings (cx_opts c) \<le> hb_miss_count (r_heartbeat r1)")
    case dead: True
    then have "on_transport_close c (call_on_complete c depth) EcTransportFailure ''heartbeat dead'' r2 = Inr r'"
      using run True unfolding on_ping_deadline_def r2_def r1_def Let_def by simp
    then show ?thesis by (rule heartbeat_lost [OF ok12(2) st12(2)])
  next
    case alive: False
    obtain up r3 where r3: "ws_is_open c r1 = (up, r3)" by fastforce
    have s3: "session r3 = session r1" using session_looksD(3) [OF r3] .
    have ok3: "sess_ok h0 (session r3)" using ok12(1) s3 by simp
    then obtain r4 where r4: "next_request_id r3 = (r_next_request_id r3, r4)" "sess_ok h0 (session r4)"
      "r_state r4 = r_state r3" using new_request by metis
    have st4: "r_state r4 = CsReady" using r4(3) session_eqD(1) [OF s3] st12(1) by simp
    obtain sent r5 where r5: "send_heartbeat_ping c (r_next_request_id r3) CNone r4 = (sent, r5)"
      by fastforce
    note b = send_heartbeat_ping_result [OF r4(2) st4 _ r5]
    have b5: "sess_ok h0 (session r5)" "r_state r5 = CsReady" using b by (simp_all add: lifecycle_lambda_def)
    have "(if \<not> up then Inr r3 else if \<not> sent
        then on_transport_close c (call_on_complete c depth) EcTransportFailure ''heartbeat resend failed'' r5
        else Inr r5) = Inr r'"
      using run True alive r3 r4(1) r5 unfolding on_ping_deadline_def r1_def Let_def by (cases up) simp_all
    then show ?thesis using ok3 b5 heartbeat_lost [OF b5] by (auto split: if_splits)
  qed
qed

lemma on_rpc_timeout_result:
  assumes ok: "sess_ok h0 (session r)"
    and run: "on_rpc_timeout c (call_on_complete c depth) rid r = Inr r'"
  shows "sess_ok h0 (session r')"
proof (cases "map_of (r_inflight r) rid")
  case None
  then show ?thesis using run ok by (simp add: on_rpc_timeout_def)
next
  case (Some rpc)
  let ?r1 = "erase_inflight rid r"
  note ok1 = erased_call(1) [OF ok Some]
  have no_ws: "sess_ok h0 (s\<lparr>s_has_ws := False\<rparr>)" if ok: "sess_ok h0 s" for s
  proof (rule sess_okI)
    have "subs_ok (s\<lparr>s_has_ws := False\<rparr>) = subs_ok s" by (rule subs_ok_frame) simp_all
    then show "subs_ok (s\<lparr>s_has_ws := False\<rparr>)" using sess_okD(5) [OF ok] by simp
  qed (use sess_okD [OF ok] in \<open>simp_all add: path_ok_def ids_ok_def queue_ok_def ws_ok_def replay_ok_def\<close>)
  show ?thesis
  proof (cases "ir_on_complete rpc")
    case (CHandshake b)
    obtain r2 where r2: "call_on_complete c depth (CHandshake b) (fake_response EcTimeout ''handshake timeout'')
        EcTimeout ?r1 = Inr r2" "r' = ws_close_reset r2"
      using run Some CHandshake by (auto simp: on_rpc_timeout_def obind_eq_Inr)
    have "sess_ok h0 (session r2)" using completed_call_result [OF ok Some] r2(1) CHandshake by simp
    then show ?thesis using no_ws r2(2) by simp
  next
    case CEStopReplay
    have life: "lifecycle_lambda (ir_on_complete rpc)" using CEStopReplay by (simp add: lifecycle_lambda_def)
    have e: "r_inflight ?r1 = []" "r_state ?r1 = CsReconnecting"
      using erased_call(2,3) [OF ok Some life] CEStopReplay by simp_all
    have "on_transport_close c (call_on_complete c depth) EcTimeout ''estop replay timeout''
        (?r1\<lparr>r_estop_pending := False\<rparr>) = Inr r'"
      using run Some CEStopReplay by (simp add: on_rpc_timeout_def)
    from close_result(1) [OF _ _ _ this, of h0] show ?thesis
      using sess_ok_estop_pending [OF ok1, of False] e by simp
  next
    case (CEStop engage reason t0 p)
    then show ?thesis using run Some ok1
      by (auto simp: on_rpc_timeout_def obind_eq_Inr dest!: session_set_value simp del: session_erase)
  next
    case (CCmdVel t0 p)
    then show ?thesis using run Some ok1
      by (auto simp: on_rpc_timeout_def obind_eq_Inr dest!: session_set_value simp del: session_erase)
  qed (use run Some ok1 in \<open>auto simp: on_rpc_timeout_def dest!: session_set_value simp del: session_erase\<close>)
qed

lemma on_sub_ack_timeout_result:
  assumes ok: "sess_ok h0 (session r)" and st: "r_state r \<noteq> CsIdle"
    and run: "on_sub_ack_timeout c (call_on_complete c depth) i rid r = Inr r'"
  shows "sess_ok h0 (session r')"
proof (cases "sl_inflight_request (r_slots r i) = rid")
  case True
  define r1 where "r1 = post_log LogWarn (''SubscribeAck timeout for '' @ sl_topic (r_slots r i)) r"
  have s1: "session r1 = session r" by (simp add: r1_def)
  have "on_transport_close c (call_on_complete c depth) EcTimeout ''SubscribeAck timeout'' r1 = Inr r'"
    using run True by (simp add: on_sub_ack_timeout_def r1_def)
  from close_result(1) [OF _ _ _ this, of h0] show ?thesis using ok st s1 session_eqD(1) [OF s1] by simp
qed (use run ok in \<open>simp add: on_sub_ack_timeout_def\<close>)

section \<open>Subscriptions of the user\<close>

lemma sess_ok_drop_topic:
  assumes "sess_ok h0 (session r)"
  shows "sess_ok h0 (session (r\<lparr>r_active_subs := std_map_erase topic (r_active_subs r)\<rparr>))"
  using sess_ok_active_subset [OF assms, of "std_map_erase topic (r_active_subs r)"]
  by (auto simp: std_map_erase_def)

lemma handle_unsub_async_result:
  assumes ok: "sess_ok h0 (session r)"
  shows "sess_ok h0 (session (handle_unsub_async c topic r))"
proof (cases "map_of (r_active_subs r) topic")
  case None
  then show ?thesis using ok by (simp add: handle_unsub_async_def)
next
  case (Some i)
  obtain can r1 where r1: "(if r_state r = CsReady then ws_is_open c r else (False, r)) = (can, r1)"
    by fastforce
  have s1: "session r1 = session r" using r1 by (auto split: if_splits dest: session_looksD)
  then have ok1: "sess_ok h0 (session r1)" using ok by simp
  define r2 where "r2 = (if can \<and> \<not> sl_unsubscribe_sent (r_slots r1 i)
    then let (rid, r1a) = next_request_id r1
      in case encode_unsubscribe (cx_pb c) rid topic of
           Inl e \<Rightarrow> r1a
         | Inr b \<Rightarrow>
             let r1b = count_bytes_sent b r1a;
                 r1c = (case r_ws r1b of None \<Rightarrow> r1b | Some n \<Rightarrow> snd (ws_post_call c n b r1b))
             in upd_slot i (\<lambda>s. s\<lparr>sl_unsubscribe_sent := True\<rparr>) r1c
    else r1)"
  obtain r1a where r1a: "next_request_id r1 = (r_next_request_id r1, r1a)" "sess_ok h0 (session r1a)"
    using new_request [OF ok1] by metis
  have "session r2 = session r1 \<or> session r2 = session r1a"
    unfolding r2_def r1a(1) Let_def by (simp add: session_upd_slot split: sum.split option.split)
  then have ok2: "sess_ok h0 (session r2)" using ok1 r1a(2) by auto
  define r4 where "r4 = (if sl_state (r_slots r2 i) \<noteq> SubClosed
    then fire_status i StClosed None EcOk ''Unsubscribe()'' (upd_slot i (\<lambda>s. s\<lparr>sl_state := SubClosed\<rparr>) r2)
    else upd_slot i (\<lambda>s. s\<lparr>sl_state := SubClosed\<rparr>) r2)"
  have "session r4 = session r2" by (simp add: r4_def session_upd_slot)
  then have "sess_ok h0 (session r4)" using ok2 by simp
  moreover have "session (handle_unsub_async c topic r)
      = session (r4\<lparr>r_active_subs := std_map_erase topic (r_active_subs r4)\<rparr>)"
    using Some unfolding handle_unsub_async_def r1 r4_def r2_def Let_def by simp
  ultimately show ?thesis using sess_ok_drop_topic by metis
qed

lemma handle_unsub_sync_result:
  assumes ok: "sess_ok h0 (session r)" and run: "handle_unsub_sync c topic p r = Inr r'"
  shows "sess_ok h0 (session r')"
proof (cases "map_of (r_active_subs r) topic")
  case None
  then show ?thesis using run ok by (auto simp: handle_unsub_sync_def dest: session_set_value)
next
  case (Some i)
  obtain up r1 where r1: "(if r_state r \<noteq> CsReady then (False, r) else ws_is_open c r) = (up, r1)"
    by fastforce
  have s1: "session r1 = session r" using r1 by (auto split: if_splits dest: session_looksD)
  then have ok1: "sess_ok h0 (session r1)" using ok by simp
  show ?thesis
  proof (cases up)
    case False
    define r2 where "r2 = fire_status i StClosed None EcDisconnected ''Unsubscribe() while disconnected''
      (upd_slot i (\<lambda>s. s\<lparr>sl_state := SubClosed, sl_error_code := EcDisconnected\<rparr>) r1)"
    have "session r2 = session r1" by (simp add: r2_def session_upd_slot)
    then have "sess_ok h0 (session r2)" using ok1 by simp
    then have "sess_ok h0 (session (r2\<lparr>r_active_subs := std_map_erase topic (r_active_subs r2)\<rparr>))"
      by (rule sess_ok_drop_topic)
    moreover have "set_value p (AnsUnsubscribe EcDisconnected)
        (r2\<lparr>r_active_subs := std_map_erase topic (r_active_subs r2)\<rparr>) = Inr r'"
      using run Some False r1 unfolding handle_unsub_sync_def r2_def Let_def by simp
    ultimately show ?thesis using session_set_value by metis
  next
    case True
    have ready: "r_state r1 = CsReady"
      using r1 True session_eqD(1) [OF s1] by (auto split: if_splits)
    obtain r2 where r2: "next_request_id r1 = (r_next_request_id r1, r2)" "sess_ok h0 (session r2)"
      "r_state r2 = r_state r1" using new_request [OF ok1] by metis
    define rid where "rid = r_next_request_id r1"
    define rpc where "rpc = \<lparr>ir_request_id = rid, ir_method = ''unsubscribe'', ir_enqueued_at = r_now r2,
      ir_on_complete = CUnsubscribe topic p,
      ir_timeout = Some (after_ms (co_subscribe_ack_timeout (cx_opts c)) r2)\<rparr>"
    define r3 where "r3 = put_inflight rid rpc r2"
    have ok3: "sess_ok h0 (session r3)"
      unfolding r3_def by (rule ready_put) (use r2 ready in \<open>simp_all add: rpc_def lifecycle_lambda_def\<close>)
    have run': "(case encode_unsubscribe (cx_pb c) rid topic of
         Inl e \<Rightarrow> obind (set_value p (AnsUnsubscribe EcTransportFailure) (erase_inflight rid r3))
             (\<lambda>r4. Inr (post_log LogError (''Unsubscribe send: '' @ exn_what e) r4))
       | Inr b \<Rightarrow> let (ok, r4) = send_or_fail c b r3
           in if \<not> ok then set_value p (AnsUnsubscribe EcTransportFailure) (erase_inflight rid r4)
              else Inr (upd_slot i (\<lambda>s. s\<lparr>sl_unsubscribe_sent := True\<rparr>) r4)) = Inr r'"
      using run Some True r1 r2(1)
      unfolding handle_unsub_sync_def r3_def rpc_def rid_def put_inflight_def erase_inflight_def Let_def by simp
    show ?thesis
    proof (cases "encode_unsubscribe (cx_pb c) rid topic")
      case (Inl e)
      then obtain r4 where "set_value p (AnsUnsubscribe EcTransportFailure) (erase_inflight rid r3) = Inr r4"
        "session r' = session r4" using run' by (auto simp: obind_eq_Inr)
      then show ?thesis using sess_ok_erase [OF ok3, of rid] session_set_value by fastforce
    next
      case (Inr b)
      obtain sent r4 where r4: "send_or_fail c b r3 = (sent, r4)" by fastforce
      have "session r4 = session r3" using session_looksD(2) [OF r4] .
      then have ok4: "sess_ok h0 (session r4)" using ok3 by simp
      show ?thesis
        using run' Inr r4 ok4 sess_ok_erase [OF ok4, of rid]
        by (auto simp: session_upd_slot split: if_splits dest!: session_set_value)
    qed
  qed
qed

text \<open>A posted subscription is new: nothing else knows its slot.\<close>

definition new_slot :: "nat \<Rightarrow> session \<Rightarrow> bool" where
  "new_slot i s \<longleftrightarrow> i < s_next_slot s \<and> s_requested s i = 0 \<and> i \<notin> set (queued_subs (s_queue s))"

lemma set_std_map_put: "set (std_map_put k v m) \<subseteq> insert (k, v) (set m)"
  by (induction m) auto

lemma handle_subscribe_result:
  assumes ok: "sess_ok h0 (session r)" and new: "new_slot i (session r)"
    and run: "handle_subscribe c (call_on_complete c depth) i r = Inr r'"
  shows "sess_ok h0 (session r')"
proof -
  define r1 where "r1 = r\<lparr>r_active_subs := std_map_put (sl_topic (r_slots r i)) i (r_active_subs r)\<rparr>"
  let ?s = "session r" and ?act = "std_map_put (sl_topic (r_slots r i)) i (r_active_subs r)"
  have act: "p \<in> set (s_active ?s) \<or> snd p = i" if "p \<in> set ?act" for p
    using that set_std_map_put [of "sl_topic (r_slots r i)" i "r_active_subs r"] by auto
  have ok1: "sess_ok h0 (?s\<lparr>s_active := ?act\<rparr>)" (is "sess_ok h0 ?t")
  proof (rule sess_okI)
    have none: "none_requested ?t" if "none_requested ?s"
      using that new act by (fastforce simp: none_requested_def new_slot_def)
    have other: "j \<notin> snd ` set ?act" if "j \<in> set (queued_subs (s_queue ?s))" for j
      using that new act sess_okD(5) [OF ok] unfolding subs_ok_def new_slot_def by blast
    have "\<forall>p\<in>set ?act. snd p < s_next_slot ?s"
      using new act sess_okD(5) [OF ok] unfolding subs_ok_def new_slot_def by blast
    then show "subs_ok ?t"
      using sess_okD(5) [OF ok] none other
      unfolding subs_ok_def wrapped_def by (simp del: session_simps)
  qed (use sess_okD [OF ok] in \<open>simp_all add: path_ok_def ids_ok_def queue_ok_def ws_ok_def replay_ok_def\<close>)
  have s1: "session r1 = ?t" by (simp add: r1_def)
  have f1: "r_state r1 = r_state r" "r_ioc r1 = r_ioc r" by (simp_all add: r1_def)
  have send: "sess_ok h0 (session r')"
    if "r_state r = CsReady" "send_subscribe c (call_on_complete c depth) i 0 r1 = Inr r'"
  proof -
    have "\<not> handshaking (r_inflight r)"
      using sess_okD(3) [OF ok] that(1) by (auto simp: inflight_ok_def handshaking_def lifecycle_lambda_def)
    then have "can_subscribe (session r1)" using that(1) by (simp add: can_subscribe_def s1)
    then show ?thesis
      using send_subscribe_result [of h0 r1 i c depth 0 r'] that(2) ok1 s1 new f1(2) by (simp add: new_slot_def)
  qed
  show ?thesis
    using run ok ok1 s1 send f1
    by (auto simp: handle_subscribe_def r1_def [symmetric] session_upd_slot Let_def split: if_splits)
qed

section \<open>Diagnostics\<close>

lemma session_stats: "session (snd (subscription_stats ps r)) = session r"
proof (induction ps r rule: subscription_stats.induct)
  case (2 topic i rest r)
  have "session (snd (slide_hz_buckets i r)) = session r"
    by (simp add: slide_hz_buckets_def session_upd_slot slide_slot_def Let_def)
  then show ?case using "2.IH" by (simp add: Let_def case_prod_beta)
qed simp

lemma session_full_diagnostics: "session (snd (full_diagnostics r)) = session r"
  using session_stats [of "r_active_subs r" r]
  by (simp add: full_diagnostics_def Let_def case_prod_beta)

end
