(* ===== verification/RobotLife.thy ===== *)
theory RobotLife
  imports RobotReach
begin

text \<open>
  The life cycle of the robot: the invariant of \<open>Session\<close> holds in every state the transition system
  of \<open>RobotLoop\<close> reaches before the request ids wrap around, and what that means for the user.
\<close>

section \<open>The queue of handlers\<close>

lemma sess_ok_pop:
  assumes ok: "sess_ok h0 (session r)" and q: "r_ioc r = e # es"
  shows "sess_ok h0 (session (r\<lparr>r_ioc := es\<rparr>))"
proof (rule sess_okI)
  have "none_requested (session (r\<lparr>r_ioc := es\<rparr>)) = none_requested (session r)"
    by (rule none_requested_frame) simp_all
  then show "subs_ok (session (r\<lparr>r_ioc := es\<rparr>))"
    using sess_okD(5) [OF ok] q unfolding subs_ok_def by (simp add: wrapped_def del: session_upd_seen)
  show "queue_ok (session (r\<lparr>r_ioc := es\<rparr>))"
    using sess_okD(2) [OF ok] q by (simp add: queue_ok_def)
qed (use sess_okD [OF ok] in \<open>simp_all add: path_ok_def ids_ok_def ws_ok_def replay_ok_def\<close>)

lemma popped_event:
  assumes ok: "sess_ok h0 (session r)" and q: "r_ioc r = e # es"
  shows "conn_event e \<Longrightarrow> r_state r \<noteq> CsIdle" "e \<noteq> EvTransportClose EcOk msg"
    "e = EvSubscribe i \<Longrightarrow> new_slot i (session (r\<lparr>r_ioc := es\<rparr>))"
proof -
  show "conn_event e \<Longrightarrow> r_state r \<noteq> CsIdle" "e \<noteq> EvTransportClose EcOk msg"
    using sess_okD(2) [OF ok] q by (auto simp: queue_ok_def)
  show "e = EvSubscribe i \<Longrightarrow> new_slot i (session (r\<lparr>r_ioc := es\<rparr>))"
    using sess_okD(5) [OF ok] q by (auto simp: subs_ok_def new_slot_def)
qed

lemma sess_ok_post:
  assumes ok: "sess_ok h0 (session r)" and "conn_event e \<Longrightarrow> r_state r \<noteq> CsIdle"
    "\<And>msg. e \<noteq> EvTransportClose EcOk msg" "\<And>i. e \<noteq> EvSubscribe i"
  shows "sess_ok h0 (session (post_event e r))"
proof -
  have s: "session (post_event e r) = (session r)\<lparr>s_queue := r_ioc r @ [e]\<rparr>"
    by (simp add: post_event_def)
  have q: "queued_subs (r_ioc r @ [e]) = queued_subs (r_ioc r)"
    using assms(4) by (cases e) auto
  show ?thesis
  proof (rule sess_okI)
    have "none_requested (session (post_event e r)) = none_requested (session r)"
      unfolding s by (rule none_requested_frame) simp_all
    then show "subs_ok (session (post_event e r))"
      using sess_okD(5) [OF ok] q unfolding subs_ok_def s by (simp add: wrapped_def)
    show "queue_ok (session (post_event e r))"
      using sess_okD(2) [OF ok] assms(2,3) unfolding s queue_ok_def by auto
  qed (use sess_okD [OF ok] in \<open>simp_all add: s path_ok_def ids_ok_def ws_ok_def replay_ok_def\<close>)
qed

section \<open>Every step\<close>

lemma handle_event_result:
  assumes ok: "sess_ok h0 (session r)" and fresh: "\<not> wrapped (session r)"
    and conn: "conn_event e \<Longrightarrow> r_state r \<noteq> CsIdle" and reason: "\<And>msg. e \<noteq> EvTransportClose EcOk msg"
    and new: "\<And>i. e = EvSubscribe i \<Longrightarrow> new_slot i (session r)"
    and run: "handle_event c (call_on_complete c depth) e r = Inr r'"
  shows "sess_ok h0 (session r')"
proof (cases e)
  case EvConnect
  then show ?thesis using run ok establish_first_result [OF ok] by (auto simp: handle_event_def split: if_splits)
next
  case (EvTransportClose reason msg)
  then have "on_transport_close c (call_on_complete c depth) reason msg r = Inr r'"
    using run by (simp add: handle_event_def)
  from close_result(1) [OF ok _ _ this] show ?thesis using conn reason EvTransportClose by auto
next
  case (EvDiagnostics p)
  then have "set_value p (AnsDiagnostics (fst (full_diagnostics r))) (snd (full_diagnostics r)) = Inr r'"
    using run by (simp add: handle_event_def case_prod_beta)
  then show ?thesis using session_set_value session_full_diagnostics ok by metis
next
  case EvClose
  then show ?thesis
    using handle_close_result [OF ok run [unfolded EvClose handle_event_def event.case]] by simp
next
  case (EvInbound b)
  then show ?thesis
    using on_inbound_message_result [OF ok fresh _ run [unfolded EvInbound handle_event_def event.case]] conn by simp
next
  case (EvSubscribe i)
  then show ?thesis
    using handle_subscribe_result [OF ok _ run [unfolded EvSubscribe handle_event_def event.case]] new by simp
next
  case (EvUnsubSync topic p)
  then show ?thesis
    using handle_unsub_sync_result [OF ok run [unfolded EvUnsubSync handle_event_def event.case]] by simp
next
  case (EvCmdVel vx vy wz sq t0 p)
  then show ?thesis
    using call_handlers_result(1) [OF ok run [unfolded EvCmdVel handle_event_def event.case]] by simp
next
  case (EvEStop engage reason t0 p)
  then show ?thesis
    using call_handlers_result(2) [OF ok run [unfolded EvEStop handle_event_def event.case]] by simp
next
  case (EvInvoke mname deadline enc p)
  then show ?thesis
    using call_handlers_result(3) [OF ok run [unfolded EvInvoke handle_event_def event.case]] by simp
next
  case (EvPing t0 p)
  then show ?thesis
    using call_handlers_result(4) [OF ok run [unfolded EvPing handle_event_def event.case]] by simp
next
  case EvIdleTimer
  then show ?thesis
    using on_idle_timer_result [OF ok run [unfolded EvIdleTimer handle_event_def event.case]] by simp
next
  case EvPingDeadline
  then show ?thesis
    using on_ping_deadline_result [OF ok run [unfolded EvPingDeadline handle_event_def event.case]] by simp
next
  case (EvReconnect attempt)
  then show ?thesis
    using on_reconnect_timer_result [OF ok run [unfolded EvReconnect handle_event_def event.case]] by simp
next
  case (EvRpcTimeout rid)
  then show ?thesis
    using on_rpc_timeout_result [OF ok run [unfolded EvRpcTimeout handle_event_def event.case]] by simp
next
  case (EvSubAckTimeout i rid)
  then show ?thesis
    using on_sub_ack_timeout_result [OF ok _ run [unfolded EvSubAckTimeout handle_event_def event.case]] conn by simp
next
  case (EvUnsubAsync topic)
  then show ?thesis
    using run handle_unsub_async_result [OF ok] by (auto simp: handle_event_def)
qed

lemma loop_round_result:
  assumes ok: "sess_ok h0 (session r)" and fresh: "\<not> wrapped (session r)"
    and run: "loop_round c depth r = Some (Inr r')"
  shows "sess_ok h0 (session r')"
proof -
  obtain e es where q: "r_ioc r = e # es"
    and run': "handle_event c (call_on_complete c depth) e (r\<lparr>r_ioc := es\<rparr>) = Inr r'"
    using run by (auto simp: loop_round_def split: if_splits list.splits)
  have "\<not> wrapped (session (r\<lparr>r_ioc := es\<rparr>))" using fresh by (simp add: wrapped_def)
  then show ?thesis
    using handle_event_result [OF sess_ok_pop [OF ok q] _ _ _ _ run'] popped_event [OF ok q] by simp
qed

lemma sess_ok_post_call:
  assumes ok: "sess_ok h0 (session r)" and same: "session r1 = session r" and "\<not> conn_event e" "\<And>i. e \<noteq> EvSubscribe i"
  shows "sess_ok h0 (session (post_event e r1))"
  using sess_ok_post [of h0 r1 e] assms by fastforce

lemma cmd_vel_call_result:
  assumes ok: "sess_ok h0 (session r)"
  shows "sess_ok h0 (session (snd (cmd_vel_call b vx vy wz r)))"
proof -
  obtain got tb where tb: "try_acquire_at (r_now r) (r_cmdvel_limiter r) = (got, tb)" by fastforce
  define r1 where "r1 = upd_cmdvel_stat count_call (r\<lparr>r_cmdvel_limiter := tb\<rparr>)"
  define r2 where "r2 = r1\<lparr>r_next_promise := Suc (r_next_promise r1), r_cmdvel_seq := r_cmdvel_seq r1 + 1\<rparr>"
  have "session r2 = session r" by (simp add: r2_def r1_def)
  then have posted: "sess_ok h0 (session (post_event
      (EvCmdVel vx vy wz (r_cmdvel_seq r1) (r_now r1) (r_next_promise r1)) r2))"
    using sess_ok_post_call [OF ok] by simp
  show ?thesis
    using ok posted by (simp add: cmd_vel_call_def tb new_promise_def r2_def r1_def Let_def)
qed

lemma subscribe_internal_result:
  assumes ok: "sess_ok h0 (session r)"
  shows "sess_ok h0 (session (snd (subscribe_internal c topic hz fd cb r)))"
proof -
  define i where "i = r_next_slot r"
  define r' where "r' = snd (subscribe_internal c topic hz fd cb r)"
  have s: "session r' = (session r)\<lparr>s_requested := (s_requested (session r))(i := 0), s_next_slot := Suc i,
      s_queue := r_ioc r @ [EvSubscribe i]\<rparr>"
    by (auto simp: r'_def subscribe_internal_def session_def i_def sub_slot_new_def Let_def)
  have slots: "snd p < i" if "p \<in> set (r_active_subs r)" for p
    using that sess_okD(5) [OF ok] by (auto simp: subs_ok_def i_def)
  have queued: "j < i" "s_requested (session r) j = 0" "j \<notin> snd ` set (r_active_subs r)"
    if "j \<in> set (queued_subs (r_ioc r))" for j
    using that sess_okD(5) [OF ok] unfolding subs_ok_def i_def by auto
  have "sess_ok h0 (session r')"
  proof (rule sess_okI)
    have none: "none_requested (session r')" if "none_requested (session r)"
      using that slots unfolding s none_requested_def by fastforce
    have "i \<notin> set (queued_subs (r_ioc r))" "i \<notin> snd ` set (r_active_subs r)"
      using queued(1) slots by fastforce+
    moreover have "\<forall>j\<in>set (queued_subs (r_ioc r)). j < Suc i" "\<forall>p\<in>set (r_active_subs r). snd p < Suc i"
      using queued(1) slots less_SucI by blast+
    ultimately show "subs_ok (session r')"
      using sess_okD(5) [OF ok] none queued(2,3) unfolding subs_ok_def s
      by (auto simp: wrapped_def)
    show "queue_ok (session r')" using sess_okD(2) [OF ok] by (auto simp: s queue_ok_def)
  qed (use sess_okD [OF ok] in \<open>simp_all add: s path_ok_def ids_ok_def ws_ok_def replay_ok_def\<close>)
  then show ?thesis by (simp only: r'_def)
qed

lemma user_step_result:
  assumes step: "user_step c r r'" and ok: "sess_ok h0 (session r)"
  shows "sess_ok h0 (session r')"
  using step
proof cases
  case (unsubscribe i b)
  then show ?thesis
    using ok sess_ok_post_call [OF ok]
    by (auto simp: facade_unsubscribe_def unsubscribe_request_def new_promise_def)
next
  case (facade_gone i)
  have "session (upd_slot i (\<lambda>s. s\<lparr>sl_user_closed := True\<rparr>) r) = session r"
    by (rule session_upd_slot) simp
  then show ?thesis
    using facade_gone ok sess_ok_post_call [OF ok]
    by (auto simp: facade_destroy_def unsubscribe_request_def Let_def)
next
  case (cmd_vel b vx vy wz)
  then show ?thesis using cmd_vel_call_result [OF ok] by simp
next
  case close
  then show ?thesis using ok sess_ok_post_call [OF ok] by (auto simp: close_call_def)
next
  case connect
  then show ?thesis using sess_ok_post_call [OF ok refl] by simp
next
  case (estop b engage reason)
  then show ?thesis using ok sess_ok_post_call [OF ok]
    by (auto simp: emergency_stop_call_def new_promise_def Let_def)
next
  case (task mname enc b)
  then show ?thesis using ok sess_ok_post_call [OF ok] by (auto simp: task_call_def new_promise_def)
next
  case (ping b)
  then show ?thesis using ok sess_ok_post_call [OF ok] by (auto simp: ping_call_def new_promise_def)
next
  case (diagnostics b)
  then show ?thesis using ok sess_ok_post_call [OF ok] by (auto simp: get_diagnostics_def new_promise_def)
qed (use ok subscribe_internal_result [OF ok] in
  \<open>simp_all add: subscribe_robot_status_def subscribe_task_events_def subscribe_safety_events_def\<close>)

lemma timer_step_result:
  assumes step: "timer_step r r'" and ok: "sess_ok h0 (session r)"
  shows "sess_ok h0 (session r')"
  using step
proof cases
  case (rpc rid rpc t)
  have mem: "(rid, rpc) \<in> set (r_inflight r)" using map_of_SomeD [OF rpc(2)] .
  define ps where "ps = AList.update rid (rpc\<lparr>ir_timeout := None\<rparr>) (r_inflight r)"
  have same: "\<exists>q\<in>set (r_inflight r). ir_on_complete (snd p) = ir_on_complete (snd q)" if "p \<in> set ps" for p
  proof -
    have "p = (rid, rpc\<lparr>ir_timeout := None\<rparr>) \<or> p \<in> set (r_inflight r)"
      using that update_subset [of rid "rpc\<lparr>ir_timeout := None\<rparr>" "r_inflight r"]
      unfolding ps_def by blast
    then show ?thesis using mem by force
  qed
  have one: "only_lambda ls ps" if "only_lambda ls (r_inflight r)" for ls
    using that mem unfolding only_lambda_def ps_def by auto
  have "sess_ok h0 ((session r)\<lparr>s_inflight := ps\<rparr>)"
  proof (rule sess_ok_inflight [OF ok])
    have "inflight_ok (r_state r) (r_inflight r)" using sess_okD(3) [OF ok] by simp
    then show "inflight_ok (s_state (session r)) ps"
      using one same mem by (cases "r_state r") (fastforce simp: inflight_ok_def)+
    show "handshaking ps \<Longrightarrow> none_requested (session r)"
      using same handshaking_none [OF ok] unfolding handshaking_def by (metis session_simps(5))
    show "replaying ps \<Longrightarrow> s_estop_pending (session r)"
      using same sess_okD(6) [OF ok] unfolding replaying_def replay_ok_def by (metis session_simps(5))
  qed
  then have "sess_ok h0 (session (put_inflight rid (rpc\<lparr>ir_timeout := None\<rparr>) r))" by (simp add: ps_def)
  from sess_ok_post [OF this, of "EvRpcTimeout rid"] show ?thesis using rpc(1) by simp
next
  case (sub_ack rid i t)
  have st: "r_state r \<noteq> CsIdle"
    using sess_okD(2) [OF ok] sub_ack(2) by (auto simp: queue_ok_def)
  let ?r1 = "r\<lparr>r_sub_ack_timers := AList.delete rid (r_sub_ack_timers r)\<rparr>"
  have "sess_ok h0 (session ?r1)"
  proof (rule sess_okI)
    have "subs_ok (session ?r1) = subs_ok (session r)" by (rule subs_ok_frame) simp_all
    then show "subs_ok (session ?r1)" using sess_okD(5) [OF ok] by simp
  qed (use st sess_okD [OF ok] in \<open>simp_all add: path_ok_def ids_ok_def queue_ok_def ws_ok_def replay_ok_def\<close>)
  from sess_ok_post [OF this, of "EvSubAckTimeout i rid"] show ?thesis using sub_ack(1) st by simp
qed (use sess_ok_post_call [OF ok] in simp_all)

lemma robot_step_result:
  assumes step: "robot_step c depth r r'" and ok: "sess_ok h0 (session r)" and fresh: "\<not> wrapped (session r)"
  shows "sess_ok h0 (session r')"
  using step
proof cases
  case (inbound b)
  then show ?thesis using sess_ok_post [OF ok, of "EvInbound b"] sess_okD(2) [OF ok] by (auto simp: queue_ok_def)
next
  case (lost reason msg)
  then show ?thesis
    using sess_ok_post [OF ok, of "EvTransportClose reason msg"] sess_okD(2) [OF ok] by (auto simp: queue_ok_def)
next
  case round
  then show ?thesis using loop_round_result [OF ok fresh] by simp
qed (use ok user_step_result timer_step_result in auto)

section \<open>The invariant\<close>

text \<open>
  The steps before the ids wrap around. The parameter \<open>depth\<close> is the stack: the more there is, the
  more behaviour, and every property below holds for each depth.
\<close>

definition fresh_step :: "ctx \<Rightarrow> nat \<Rightarrow> robot \<Rightarrow> robot \<Rightarrow> bool" where
  "fresh_step c depth r r' \<longleftrightarrow> robot_step c depth r r' \<and> r_requests r' < id_limit"

definition life_inv :: "(conn_state \<times> conn_state) list \<Rightarrow> robot \<Rightarrow> bool" where
  "life_inv h0 r \<longleftrightarrow> sess_ok h0 (session r) \<and> \<not> wrapped (session r)"

lemma life_inv_step: "life_inv h0 r \<Longrightarrow> fresh_step c depth r r' \<Longrightarrow> life_inv h0 r'"
  using robot_step_result by (auto simp: life_inv_def fresh_step_def wrapped_def)

lemma life_inv_start:
  assumes "robot_start c r"
  shows "life_inv [] r"
proof -
  obtain env now epoch where r: "r = (robot_new (cx_opts c) env now epoch)\<lparr>r_work_guard := True\<rparr>"
    using assms by (auto simp: robot_start_def robot_create_def split: option.splits)
  have "sess_ok [] (session r)"
    by (rule sess_okI) (simp_all add: r robot_new_def path_ok_def ids_ok_def queue_ok_def ws_ok_def
        subs_ok_def replay_ok_def none_requested_def)
  then show ?thesis by (simp add: life_inv_def r robot_new_def wrapped_def id_limit_def)
qed

text \<open>The invariant from any state on: what has happened stays at the front of the history.\<close>

lemma life_inv_restart: "life_inv h0 r \<Longrightarrow> life_inv (r_history r) r"
  by (auto simp: life_inv_def sess_ok_def path_ok_def)

interpretation life: inductive_invariant "robot_start c" "fresh_step c depth" "life_inv []"
  by unfold_locales (auto intro: life_inv_start life_inv_step)

lemma life_inv_steps: "life_inv h0 r \<Longrightarrow> (fresh_step c depth)\<^sup>*\<^sup>* r r' \<Longrightarrow> life_inv h0 r'"
  by (rotate_tac, induction rule: rtranclp_induct) (auto intro: life_inv_step)

lemma life_path: "life_inv h0 r \<Longrightarrow> is_path CsIdle (r_history r) (r_state r) \<and> prefix h0 (r_history r)"
  by (simp add: life_inv_def sess_ok_def path_ok_def)

lemma life_parts:
  assumes "life_inv h0 r"
  shows "inflight_ok (r_state r) (r_inflight r)" "r_ws r \<noteq> None \<Longrightarrow> r_state r \<in> {CsConnecting, CsReady, CsReconnecting}"
    "replaying (r_inflight r) \<Longrightarrow> r_estop_pending r"
    "r_estop_pending r \<Longrightarrow> r_state r \<notin> {CsIdle, CsConnecting, CsReady}"
  using assms by (auto simp: life_inv_def sess_ok_def ws_ok_def replay_ok_def)

lemma later_history:
  assumes "life_inv h0 r" "(fresh_step c depth)\<^sup>*\<^sup>* r r'"
  obtains qs where "r_history r' = r_history r @ qs" "is_path (r_state r) qs (r_state r')"
proof -
  have inv: "life_inv (r_history r) r'" using life_inv_steps [OF life_inv_restart [OF assms(1)] assms(2)] .
  then obtain qs where qs: "r_history r' = r_history r @ qs" using life_path by (auto simp: prefix_def)
  then have "is_path CsIdle (r_history r @ qs) (r_state r')" using life_path [OF inv] by simp
  then obtain m where m: "is_path CsIdle (r_history r) m" "is_path m qs (r_state r')"
    by (auto simp: is_path_append)
  have "m = r_state r" using is_path_unique [OF m(1)] life_path [OF assms(1)] by blast
  then show ?thesis using that [of qs] qs m(2) by simp
qed

end
