(* ===== verification/SubsFacts.thy ===== *)
theory SubsFacts
  imports RobotLife
begin

text \<open>
  What the subscription path promises: the buffer in front of an acknowledgement, the accounting of
  sequence numbers, the rate over the last minute, and where a resumed stream continues.
\<close>

section \<open>The pending buffer\<close>

lemma upd_slot_simps [simp]:
  "r_slots (upd_slot i f r) i = f (r_slots r i)"
  "j \<noteq> i \<Longrightarrow> r_slots (upd_slot i f r) j = r_slots r j"
  "r_dispatcher (upd_slot i f r) = r_dispatcher r"
  by (simp_all add: upd_slot_def)

definition buffer_spec :: "drop_policy \<Rightarrow> nat \<Rightarrow> 'a list \<Rightarrow> 'a list" where
  "buffer_spec pol n xs = (if pol = DropNewest then take n xs else drop (length xs - n) xs)"

lemma buffer_push_slot:
  fixes r :: robot and i :: nat
  defines "s \<equiv> r_slots r i"
  assumes "sl_queue_size s \<noteq> 0"
    and "sl_pending_buffer s = buffer_spec (sl_drop_policy s) (unat (sl_queue_size s)) xs"
    and "sl_drop_count s = d + of_nat (length xs - unat (sl_queue_size s))"
  shows "r_slots (buffer_push i p r) i =
    s\<lparr>sl_pending_buffer := buffer_spec (sl_drop_policy s) (unat (sl_queue_size s)) (xs @ [p]),
      sl_drop_count := d + of_nat (length (xs @ [p]) - unat (sl_queue_size s))\<rparr>"
proof -
  let ?q = "unat (sl_queue_size s)"
  have q: "?q > 0" using assms(2) by (simp add: unat_gt_0)
  show ?thesis
  proof (cases "?q \<le> length xs")
    case True
    then have full: "?q \<le> length (sl_pending_buffer s)" using assms(3) by (auto simp: buffer_spec_def)
    have count: "(of_nat (Suc (length xs) - ?q) :: u64) = of_nat (length xs - ?q) + 1"
      using True by (simp add: Suc_diff_le)
    show ?thesis
    proof (cases "sl_drop_policy s = DropNewest")
      case new: True
      then show ?thesis
        using full True assms(3,4) count
        by (simp add: buffer_push_def drop_one_def s_def [symmetric] buffer_spec_def Let_def algebra_simps)
    next
      case False
      have "drop (Suc (length xs) - ?q) (xs @ [p]) = tl (drop (length xs - ?q) xs) @ [p]"
        using True q by (simp add: Suc_diff_le drop_Suc tl_drop tl_append2)
      then show ?thesis
        using False full True assms(3,4) count
        by (simp add: buffer_push_def drop_one_def s_def [symmetric] buffer_spec_def Let_def algebra_simps)
    qed
  next
    case False
    then have "\<not> ?q \<le> length (sl_pending_buffer s)" using assms(3) by (auto simp: buffer_spec_def)
    then show ?thesis
      using False assms(3,4)
      by (simp add: buffer_push_def s_def [symmetric] buffer_spec_def Let_def)
  qed
qed

text \<open>
  C28. While the acknowledgement of a subscription is awaited, its buffer holds what the drop policy
  says: the first messages that fit (\<open>DropNewest\<close>) or the last ones (\<open>DropOldest\<close>), in their order,
  and \<open>drop_count\<close> counts exactly the others.
\<close>

theorem pending_buffer_policy:
  fixes r :: robot and i :: nat
  assumes "sl_pending_buffer (r_slots r i) = []" "sl_queue_size (r_slots r i) \<noteq> 0"
  defines "s \<equiv> r_slots r i" and "n \<equiv> unat (sl_queue_size (r_slots r i))"
  shows "r_slots (fold (buffer_push i) ps r) i =
    s\<lparr>sl_pending_buffer := (if sl_drop_policy s = DropNewest then take n ps else drop (length ps - n) ps),
      sl_drop_count := sl_drop_count s + of_nat (length ps - n)\<rparr>"
proof -
  have "r_slots (fold (buffer_push i) ps r) i =
    s\<lparr>sl_pending_buffer := buffer_spec (sl_drop_policy s) n ps,
      sl_drop_count := sl_drop_count s + of_nat (length ps - n)\<rparr>"
  proof (induction ps rule: rev_induct)
    case Nil
    then show ?case using assms(1) by (simp add: buffer_spec_def s_def)
  next
    case (snoc p ps)
    let ?r = "fold (buffer_push i) ps r"
    have "sl_queue_size (r_slots ?r i) = sl_queue_size s" "sl_drop_policy (r_slots ?r i) = sl_drop_policy s"
      using snoc by simp_all
    with buffer_push_slot [of ?r i ps "sl_drop_count s" p] show ?case
      using snoc assms(2) by (simp add: n_def s_def)
  qed
  then show ?thesis by (simp add: buffer_spec_def)
qed

definition safety_push :: "u64 \<Rightarrow> decoded_topic_push" where
  "safety_push n = \<lparr>push_topic = ''robot.safety'', push_timestamp_ms = 0, push_seq = n, push_payload = []\<rparr>"

definition small_queue_robot :: robot where
  "small_queue_robot = robot_new (connect_options_default\<lparr>co_subscription_queue_size := 2\<rparr>) None 0 0"

theorem pending_buffer_policy_witness:
  "sl_pending_buffer (r_slots (fold (buffer_push 0) (map safety_push [1, 2, 3]) small_queue_robot) 0)
     = map safety_push [2, 3]
   \<and> sl_drop_count (r_slots (fold (buffer_push 0) (map safety_push [1, 2, 3]) small_queue_robot) 0) = 1"
  using pending_buffer_policy [of small_queue_robot 0 "map safety_push [1, 2, 3]"]
  by (simp add: small_queue_robot_def robot_new_def sub_slot_new_def connect_options_default_def)

section \<open>Sequence numbers of an event stream\<close>

text \<open>What the callbacks of a slot are given: the sequence numbers delivered, the messages reported lost.\<close>

fun seqs_of :: "nat \<Rightarrow> task list \<Rightarrow> u64 list" where
  "seqs_of i [] = []"
| "seqs_of i (TaskData j p # ts) = (if j = i then [push_seq p] else []) @ seqs_of i ts"
| "seqs_of i (_ # ts) = seqs_of i ts"

fun gaps_of :: "nat \<Rightarrow> task list \<Rightarrow> nat" where
  "gaps_of i [] = 0"
| "gaps_of i (TaskStatus j st # ts) =
     (if j = i \<and> ss_kind st = StGap then (case ss_gap_count st of None \<Rightarrow> 0 | Some n \<Rightarrow> unat n) else 0)
     + gaps_of i ts"
| "gaps_of i (_ # ts) = gaps_of i ts"

lemma seqs_of_append [simp]: "seqs_of i (ts @ us) = seqs_of i ts @ seqs_of i us"
  by (induction i ts rule: seqs_of.induct) simp_all

lemma gaps_of_append [simp]: "gaps_of i (ts @ us) = gaps_of i ts + gaps_of i us"
  by (induction i ts rule: gaps_of.induct) simp_all

text \<open>A slot of an event topic with a running dispatcher, past its first message.\<close>

definition streaming :: "nat \<Rightarrow> robot \<Rightarrow> bool" where
  "streaming i r \<longleftrightarrow> running (r_dispatcher r) \<and> sl_semantics (r_slots r i) = Event
     \<and> sl_callback_mode (r_slots r i) = Dispatched \<and> sl_status_callback (r_slots r i)
     \<and> sl_last_seq (r_slots r i) \<notin> {0, - 1}"

lemma slide_slot_frame [simp]:
  "sl_semantics (slide_slot e s) = sl_semantics s" "sl_callback_mode (slide_slot e s) = sl_callback_mode s"
  "sl_status_callback (slide_slot e s) = sl_status_callback s" "sl_last_seq (slide_slot e s) = sl_last_seq s"
  by (simp_all add: slide_slot_def Let_def)

lemma bump_bucket_frame [simp]:
  "sl_semantics (bump_bucket k s) = sl_semantics s" "sl_callback_mode (bump_bucket k s) = sl_callback_mode s"
  "sl_status_callback (bump_bucket k s) = sl_status_callback s" "sl_last_seq (bump_bucket k s) = sl_last_seq s"
  by (simp_all add: bump_bucket_def Let_def)

lemma hand_over_dispatched:
  assumes "sl_callback_mode (r_slots r i) = Dispatched" "running (r_dispatcher r)"
  shows "accepted (r_dispatcher (hand_over i p r)) = accepted (r_dispatcher r) @ [TaskData i p]"
    "running (r_dispatcher (hand_over i p r))"
    "sl_semantics (r_slots (hand_over i p r) i) = sl_semantics (r_slots r i)"
    "sl_callback_mode (r_slots (hand_over i p r) i) = sl_callback_mode (r_slots r i)"
    "sl_status_callback (r_slots (hand_over i p r) i) = sl_status_callback (r_slots r i)"
    "sl_last_seq (r_slots (hand_over i p r) i) = sl_last_seq (r_slots r i)"
  using assms
  by (simp_all add: hand_over_def slide_hz_buckets_def post_task_def disp_post_def Let_def)

lemma post_log_tasks:
  "\<exists>ts. accepted (r_dispatcher (post_log lvl msg r)) = accepted (r_dispatcher r) @ ts
      \<and> seqs_of i ts = [] \<and> gaps_of i ts = 0"
  "running (r_dispatcher (post_log lvl msg r)) = running (r_dispatcher r)"
  "r_slots (post_log lvl msg r) = r_slots r"
  by (auto simp: post_log_def post_task_def disp_post_def split: option.split)

lemma fire_gap:
  assumes "sl_status_callback (r_slots r i)" "running (r_dispatcher r)"
  shows "accepted (r_dispatcher (fire_status i StGap (Some n) EcOk [] r)) = accepted (r_dispatcher r)
      @ [TaskStatus i \<lparr>ss_kind = StGap, ss_reason = [], ss_gap_count = Some n, ss_error_code = EcOk\<rparr>]"
    "running (r_dispatcher (fire_status i StGap (Some n) EcOk [] r))"
    "r_slots (fire_status i StGap (Some n) EcOk [] r) = r_slots r"
  using assms by (simp_all add: fire_status_def post_task_def disp_post_def)

lemma deliver_push_event:
  assumes str: "streaming i r" and p: "push_seq p \<notin> {0, - 1}"
  defines "l \<equiv> sl_last_seq (r_slots r i)" and "r' \<equiv> deliver_push i p r"
  shows "streaming i r' \<and> (\<exists>ts. accepted (r_dispatcher r') = accepted (r_dispatcher r) @ ts
    \<and> (if l < push_seq p
       then sl_last_seq (r_slots r' i) = push_seq p \<and> seqs_of i ts = [push_seq p]
            \<and> gaps_of i ts = unat (push_seq p) - unat l - 1
       else sl_last_seq (r_slots r' i) = l \<and> seqs_of i ts = [] \<and> gaps_of i ts = 0))"
proof -
  let ?n = "push_seq p"
  define r1 where "r1 = upd_slot i (\<lambda>s. s\<lparr>sl_last_seq := ?n\<rparr>) r"
  have l: "l \<noteq> 0" "l \<noteq> - 1" using str by (simp_all add: streaming_def l_def)
  then have succ: "unat (l + 1) = Suc (unat l)"
    using unatSuc [of l] by (metis add.commute add_eq_0_iff)
  have str1: "streaming i r1" using str p by (simp add: streaming_def r1_def)
  note s1 = str1 [unfolded streaming_def]
  have above: "l + 1 \<le> ?n" if "l < ?n"
    using that succ by (simp add: word_less_nat_alt word_le_nat_alt)
  consider (old) "\<not> l < ?n" | (consecutive) "?n = l + 1" | (gap) "?n > l + 1"
    using above by fastforce
  then show ?thesis
  proof cases
    case old
    then have "\<not> ?n = l + 1" "\<not> l + 1 < ?n"
      using succ by (auto simp: word_less_nat_alt)
    then have "\<exists>lvl msg. r' = post_log lvl msg r"
      using str p l old
      by (auto simp: r'_def deliver_push_def streaming_def l_def [symmetric] Let_def)
    then show ?thesis
      using str old post_log_tasks by (fastforce simp: streaming_def l_def)
  next
    case consecutive
    then have "l < ?n" using succ by (simp add: word_less_nat_alt)
    moreover have "r' = hand_over i p r1"
      using str p l consecutive
      by (simp add: r'_def deliver_push_def streaming_def l_def [symmetric] r1_def Let_def)
    moreover have "unat ?n - unat l - 1 = 0" using consecutive succ by simp
    ultimately show ?thesis
      using s1 hand_over_dispatched [of r1 i p] by (simp add: streaming_def) (simp add: r1_def)
  next
    case gap
    then have lt: "l < ?n" and ne: "?n \<noteq> l + 1" using succ by (auto simp: word_less_nat_alt)
    define r2 where "r2 = fire_status i StGap (Some (?n - l - 1)) EcOk [] r1"
    note f = fire_gap [of r1 i "?n - l - 1", folded r2_def]
    have r': "r' = hand_over i p r2"
      using str p l gap ne
      by (simp add: r'_def deliver_push_def streaming_def l_def [symmetric] r1_def r2_def Let_def)
    have "unat (?n - l - 1) = unat ?n - unat l - 1"
      using unat_sub [of l ?n] unat_sub [of 1 "?n - l"] gap succ lt
      by (simp add: word_less_nat_alt word_le_nat_alt)
    then show ?thesis
      using s1 f hand_over_dispatched [of r2 i p] lt r' by (simp add: streaming_def) (simp add: r1_def)
  qed
qed


definition event_robot :: robot where
  "event_robot = (robot_new connect_options_default None 0 1000)
    \<lparr>r_slots := (\<lambda>_. (sub_slot_new connect_options_default ''robot.safety'' 0 FdSafetyEvents True Event)
       \<lparr>sl_state := SubActive, sl_last_seq := 4\<rparr>)\<rparr>"

lemma event_robot_streaming: "streaming 0 event_robot"
  by (simp add: streaming_def event_robot_def robot_new_def dispatcher_new_def sub_slot_new_def
      connect_options_default_def)




end
