(* ===== verification/HzWindow.thy ===== *)
theory HzWindow
  imports SubsFacts
begin

text \<open>
  The rate of a subscription over the last minute: the 60 one-second buckets of a slot, against the
  list of the arrival times (epoch milliseconds) they summarise.
\<close>

section \<open>The buckets\<close>

lemma fold_clear:
  assumes "length bs = 60" "j < 60"
  shows "length (fold (\<lambda>i b. b[nat ((l + i) mod 60) := 0]) xs bs) = 60
    \<and> fold (\<lambda>i b. b[nat ((l + i) mod 60) := 0]) xs bs ! j
        = (if \<exists>i\<in>set xs. (l + i) mod 60 = int j then 0 else bs ! j)"
  using assms(1)
proof (induction xs arbitrary: bs)
  case (Cons x xs)
  have "nat ((l + x) mod 60) = j \<longleftrightarrow> (l + x) mod 60 = int j" by (simp add: nat_eq_iff)
  then show ?case using Cons assms(2) by (auto simp: nth_list_update)
qed simp

lemma clear_buckets_nth:
  assumes "length bs = 60" "j < 60"
  shows "length (clear_buckets l gap bs) = 60"
    "clear_buckets l gap bs ! j = (if \<exists>i\<in>{1..gap}. (l + i) mod 60 = int j then 0 else bs ! j)"
  using fold_clear [OF assms, of l "[1..gap]"] by (simp_all add: clear_buckets_def)

text \<open>The seconds of the window that ends at \<open>l\<close> with residue \<open>j\<close>.\<close>

definition in_bucket :: "int \<Rightarrow> int \<Rightarrow> nat \<Rightarrow> bool" where
  "in_bucket l u j \<longleftrightarrow> l - 60 < u \<and> u mod 60 = int j"

lemma in_bucket_slide:
  assumes "l \<le> c" "u \<le> l" "gap = (if c - l > 60 then 60 else c - l)"
  shows "in_bucket c u j \<longleftrightarrow> in_bucket l u j \<and> \<not> (\<exists>i\<in>{1..gap}. (l + i) mod 60 = int j)"
proof
  assume c: "in_bucket c u j"
  have "\<not> (l + i) mod 60 = int j" if i: "i \<in> {1..gap}" for i
  proof
    assume "(l + i) mod 60 = int j"
    then have "(l + i - u) mod 60 = 0" using c by (metis in_bucket_def mod_eq_dvd_iff mod_0_imp_dvd dvd_imp_mod_0)
    moreover have "0 < l + i - u" "l + i - u < 60"
      using i assms c by (auto simp: in_bucket_def split: if_splits)
    ultimately show False by simp
  qed
  then show "in_bucket l u j \<and> \<not> (\<exists>i\<in>{1..gap}. (l + i) mod 60 = int j)"
    using c assms(1) by (auto simp: in_bucket_def)
next
  assume l: "in_bucket l u j \<and> \<not> (\<exists>i\<in>{1..gap}. (l + i) mod 60 = int j)"
  have "c - 60 < u"
  proof (rule ccontr)
    assume "\<not> c - 60 < u"
    then have "u + 60 - l \<in> {1..gap}" using l assms by (auto simp: in_bucket_def)
    moreover have "(l + (u + 60 - l)) mod 60 = int j" using l by (simp add: in_bucket_def)
    ultimately show False using l by blast
  qed
  then show "in_bucket c u j" using l by (simp add: in_bucket_def)
qed

text \<open>The buckets summarise the arrivals, with \<open>l\<close> the second of the last slide.\<close>

definition tally :: "int \<Rightarrow> ms list \<Rightarrow> nat \<Rightarrow> nat" where
  "tally l ts j = length (filter (\<lambda>t. in_bucket l (t div 1000) j) ts)"

definition hz_ok :: "ms list \<Rightarrow> slot \<Rightarrow> bool" where
  "hz_ok ts s \<longleftrightarrow> length (sl_hz_buckets s) = 60 \<and> sl_hz_bucket_epoch_ms s > 0
    \<and> (\<forall>t\<in>set ts. t div 1000 \<le> sl_hz_bucket_epoch_ms s div 1000)
    \<and> (\<forall>j<60. unat (sl_hz_buckets s ! j) = tally (sl_hz_bucket_epoch_ms s div 1000) ts j)"

lemma hz_ok_slide:
  assumes ok: "hz_ok ts s" and now: "sl_hz_bucket_epoch_ms s \<le> now"
  shows "sl_hz_bucket_epoch_ms (slide_slot now s) div 1000 = now div 1000"
    "hz_ok ts (slide_slot now s)"
proof -
  let ?l = "sl_hz_bucket_epoch_ms s div 1000" and ?c = "now div 1000"
  have le: "?l \<le> ?c" using now by (simp add: zdiv_mono1)
  define gap where "gap = (if ?c - ?l > 60 then 60 else ?c - ?l)"
  show sec: "sl_hz_bucket_epoch_ms (slide_slot now s) div 1000 = now div 1000"
    using ok by (auto simp: slide_slot_def hz_ok_def Let_def)
  have u: "t div 1000 \<le> ?l" if "t \<in> set ts" for t using ok that by (simp add: hz_ok_def)
  have tally: "tally ?c ts j = (if \<exists>i\<in>{1..gap}. (?l + i) mod 60 = int j then 0 else tally ?l ts j)" for j
    unfolding tally_def using in_bucket_slide [OF le u gap_def, of _ j]
    by (auto simp: filter_empty_conv intro!: arg_cong [of _ _ length] filter_cong)
  show "hz_ok ts (slide_slot now s)"
  proof (cases "?c = ?l")
    case True
    then show ?thesis using ok by (simp add: slide_slot_def hz_ok_def Let_def)
  next
    case False
    then have s': "slide_slot now s = s\<lparr>sl_hz_buckets := clear_buckets ?l gap (sl_hz_buckets s),
        sl_hz_bucket_epoch_ms := now\<rparr>"
      using ok by (auto simp: slide_slot_def hz_ok_def gap_def Let_def)
    have "t div 1000 \<le> ?c" if "t \<in> set ts" for t using u [OF that] le by simp
    then show ?thesis
      using ok now tally clear_buckets_nth(1) [of "sl_hz_buckets s" 0 ?l gap]
        clear_buckets_nth(2) [of "sl_hz_buckets s" _ ?l gap]
      unfolding s' hz_ok_def by auto
  qed
qed

lemma hz_ok_bump:
  assumes ok: "hz_ok ts s" and sec: "sl_hz_bucket_epoch_ms s div 1000 = t div 1000" and few: "length ts < 2 ^ 32 - 1"
  shows "hz_ok (ts @ [t]) (bump_bucket (t div 1000) s)"
proof -
  let ?c = "t div 1000"
  define k where "k = nat (?c mod 60)"
  have k: "k < 60" "int k = ?c mod 60" by (simp_all add: k_def nat_less_iff)
  have tally: "tally ?c (ts @ [t]) j = tally ?c ts j + (if j = k then 1 else 0)" for j
    using k(2) by (auto simp: tally_def in_bucket_def)
  have "tally ?c ts j \<le> length ts" for j by (simp add: tally_def)
  then have "unat (sl_hz_buckets s ! k) < 2 ^ 32 - 1"
    using ok k(1) sec few le_less_trans unfolding hz_ok_def by metis
  then have "unat (sl_hz_buckets s ! k + 1) = Suc (unat (sl_hz_buckets s ! k))"
    by (simp add: unat_word_ariths)
  then show ?thesis
    using ok sec k(1) tally
    by (auto simp: hz_ok_def bump_bucket_def k_def [symmetric] nth_list_update Let_def)
qed

section \<open>The total\<close>

lemma tally_sum: "sum_list (map (tally l ts) [0..<60]) = length (filter (\<lambda>t. l - 60 < t div 1000) ts)"
proof (induction ts)
  case Nil
  then show ?case by (simp add: tally_def)
next
  case (Cons t ts)
  define k where "k = nat ((t div 1000) mod 60)"
  have k: "k < 60" "int k = (t div 1000) mod 60" by (simp_all add: k_def nat_less_iff)
  have "tally l (t # ts) = (\<lambda>j. tally l ts j + (if l - 60 < t div 1000 \<and> j = k then 1 else 0))"
    using k(2) by (auto simp: tally_def in_bucket_def fun_eq_iff)
  then have "sum_list (map (tally l (t # ts)) [0..<60])
      = sum_list (map (tally l ts) [0..<60])
        + sum_list (map (\<lambda>j. if l - 60 < t div 1000 \<and> j = k then 1 else 0) [0..<60])"
    by (simp only: sum_list_addf [symmetric])
  moreover have "sum_list (map (\<lambda>j. if l - 60 < t div 1000 \<and> j = k then 1 else 0 :: nat) [0..<60])
      = (if l - 60 < t div 1000 then 1 else 0)"
    using k(1) by (simp add: interv_sum_list_conv_sum_set_nat)
  ultimately show ?case using Cons.IH by simp
qed

lemma bucket_total_sum:
  assumes "sum_list (map unat bs) < 2 ^ 64"
  shows "unat (bucket_total bs) = sum_list (map unat bs)"
proof -
  have "unat (fold (\<lambda>b t. t + ucast b) bs (a :: u64)) = unat a + sum_list (map unat bs)"
    if "unat a + sum_list (map unat bs) < 2 ^ 64" for a
    using that
  proof (induction bs arbitrary: a)
    case (Cons b bs)
    have "unat b < 2 ^ LENGTH(32)" by (rule unsigned_less)
    then have b: "unat (ucast b :: u64) = unat b"
      by (simp add: unsigned_ucast_eq take_bit_nat_eq_self)
    then have "unat (a + ucast b) = unat a + unat b"
      using Cons.prems by (subst unat_add_lem [THEN iffD1]) simp_all
    then show ?case using Cons.IH [of "a + ucast b"] Cons.prems by simp
  qed simp
  from this [of 0] show ?thesis using assms by (simp add: bucket_total_def)
qed

lemma hz_ok_total:
  assumes "hz_ok ts s" "length ts < 2 ^ 32"
  shows "unat (bucket_total (sl_hz_buckets s))
    = length (filter (\<lambda>t. sl_hz_bucket_epoch_ms s div 1000 - 60 < t div 1000) ts)"
proof -
  let ?bs = "sl_hz_buckets s" and ?l = "sl_hz_bucket_epoch_ms s div 1000"
  have "map unat ?bs = map (tally ?l ts) [0..<60]"
    using assms(1) by (auto simp: hz_ok_def intro!: nth_equalityI)
  then have sum: "sum_list (map unat ?bs) = length (filter (\<lambda>t. ?l - 60 < t div 1000) ts)"
    by (simp only: tally_sum)
  have "length (filter (\<lambda>t. ?l - 60 < t div 1000) ts) < 2 ^ 64"
    by (rule le_less_trans [OF length_filter_le]) (use assms(2) in simp)
  then show ?thesis using bucket_total_sum [of ?bs] sum by simp
qed

section \<open>The rate in the diagnostics\<close>

text \<open>Messages handed over at the given times.\<close>

definition hand_over_at :: "nat \<Rightarrow> decoded_topic_push \<Rightarrow> ms \<Rightarrow> robot \<Rightarrow> robot" where
  "hand_over_at i p t r = hand_over i p (r\<lparr>r_epoch_ms := t\<rparr>)"

lemma hand_over_slot:
  "\<exists>n seen. r_slots (hand_over_at i p t r) i =
    bump_bucket (t div 1000) (slide_slot t ((r_slots r i)\<lparr>sl_messages_received := n, sl_last_message_at := seen\<rparr>))"
  by (auto simp: hand_over_at_def hand_over_def slide_hz_buckets_def post_task_def Let_def)
    (auto simp: upd_slot_def)

lemma hz_ok_cong:
  "hz_ok ts (s\<lparr>sl_messages_received := n, sl_last_message_at := seen\<rparr>) = hz_ok ts s"
  by (simp add: hz_ok_def)

lemma fold_hand_over:
  assumes fresh: "sl_hz_buckets (r_slots r i) = replicate 60 0" "sl_hz_bucket_epoch_ms (r_slots r i) = 0"
    and times: "sorted ts" "\<forall>t\<in>set ts. 0 < t" "length ts < 2 ^ 32"
  shows "(ts = [] \<longrightarrow> fold (hand_over_at i p) ts r = r)
    \<and> (ts \<noteq> [] \<longrightarrow> hz_ok ts (r_slots (fold (hand_over_at i p) ts r) i)
        \<and> sl_hz_bucket_epoch_ms (r_slots (fold (hand_over_at i p) ts r) i) \<le> List.last ts)"
  using times
proof (induction ts rule: rev_induct)
  case Nil
  then show ?case by simp
next
  case (snoc t ts)
  let ?r = "fold (hand_over_at i p) ts r"
  obtain n seen where s': "r_slots (hand_over_at i p t ?r) i =
      bump_bucket (t div 1000) (slide_slot t ((r_slots ?r i)\<lparr>sl_messages_received := n, sl_last_message_at := seen\<rparr>))"
    using hand_over_slot by blast
  define s where "s = slide_slot t ((r_slots ?r i)\<lparr>sl_messages_received := n, sl_last_message_at := seen\<rparr>)"
  have before: "t' \<le> t" if "t' \<in> set ts" for t' using snoc.prems(1) that by (auto simp: sorted_append)
  have t: "0 < t" using snoc.prems(2) by simp
  have "hz_ok ts s \<and> sl_hz_bucket_epoch_ms s div 1000 = t div 1000 \<and> sl_hz_bucket_epoch_ms s \<le> t"
  proof (cases "ts = []")
    case True
    then show ?thesis
      using fresh t by (simp add: s_def slide_slot_def hz_ok_def tally_def Let_def)
  next
    case False
    then have ok: "hz_ok ts ((r_slots ?r i)\<lparr>sl_messages_received := n, sl_last_message_at := seen\<rparr>)"
      "sl_hz_bucket_epoch_ms (r_slots ?r i) \<le> t"
      using snoc before [OF last_in_set] by (auto simp: sorted_append hz_ok_cong intro: order_trans)
    then show ?thesis
      using hz_ok_slide [OF ok(1), of t] by (auto simp: s_def slide_slot_def Let_def)
  qed
  moreover have "sl_hz_bucket_epoch_ms (bump_bucket k s) = sl_hz_bucket_epoch_ms s" for k
    by (simp add: bump_bucket_def Let_def)
  ultimately show ?case using hz_ok_bump [of ts s t] snoc.prems(3) s' unfolding s_def by simp
qed

text \<open>
  C27. The rate that \<open>GetDiagnostics\<close> reports for a subscription is the number of messages handed over
  in the last 60 seconds (the current second and the 59 before it), divided by 60: the ring of
  buckets, the clearing of the seconds that went by and a silence of any length included.
\<close>

theorem rate_counts_last_minute:
  assumes "sl_hz_buckets (r_slots r i) = replicate 60 0" "sl_hz_bucket_epoch_ms (r_slots r i) = 0"
    and "sorted ts" "\<forall>t\<in>set ts. 0 < t \<and> t \<le> now" "length ts < 2 ^ 32"
  shows "dsub_received_hz_1min (subscription_stat
      (snd (slide_hz_buckets i ((fold (hand_over_at i p) ts r)\<lparr>r_epoch_ms := now\<rparr>))) topic i)
    = real (length (filter (\<lambda>t. now div 1000 - 60 < t div 1000) ts)) / 60"
proof -
  let ?s = "r_slots (fold (hand_over_at i p) ts r) i"
  have "unat (bucket_total (sl_hz_buckets (slide_slot now ?s)))
      = length (filter (\<lambda>t. now div 1000 - 60 < t div 1000) ts)"
  proof (cases "ts = []")
    case True
    then show ?thesis
      using assms(1,2) by (simp add: slide_slot_def bucket_total_def Let_def numeral_eq_Suc)
  next
    case False
    then have "hz_ok ts ?s" "sl_hz_bucket_epoch_ms ?s \<le> now"
      using fold_hand_over [OF assms(1,2,3) _ assms(5), of p] assms(4) last_in_set [OF False]
      by (auto intro: order_trans)
    then show ?thesis
      using hz_ok_slide [of ts ?s now] hz_ok_total [OF _ assms(5)] by metis
  qed
  then show ?thesis
    by (simp add: subscription_stat_def slide_hz_buckets_def upd_slot_def Let_def del: of_nat_unat)
qed

theorem rate_counts_last_minute_witness:
  "dsub_received_hz_1min (subscription_stat
      (snd (slide_hz_buckets 0 ((fold (hand_over_at 0 (safety_push 1)) [1000, 1500, 50000, 61500] event_robot)
        \<lparr>r_epoch_ms := 61900\<rparr>))) ''robot.safety'' 0) = 2 / 60"
proof -
  have "sl_hz_buckets (r_slots event_robot 0) = replicate 60 0" "sl_hz_bucket_epoch_ms (r_slots event_robot 0) = 0"
    by (simp_all add: event_robot_def sub_slot_new_def)
  from rate_counts_last_minute [OF this, of "[1000, 1500, 50000, 61500]" 61900 "safety_push 1" "''robot.safety''"]
  show ?thesis by simp
qed

end
