(* ===== verification/RobotKeeps.thy ===== *)
theory RobotKeeps
  imports RobotInv
begin

text \<open>
  The contract of an invariant over the whole robot. Most of the state is private to the operations
  that use it; \<open>core\<close> is the rest: the connection state and its history, the dispatcher, what is in
  flight, the robot's description, the progress of a reconnect, the counters, the promises that were set, and how
  many subscriptions were made. The locale \<open>kept\<close> asks
  for an invariant of the core and for the moves that change it, one law each, and its lemmas follow
  every handler and every step once and for all. \<open>Callbacks\<close>, \<open>InfoKnown\<close>, \<open>DiagSnapshot\<close> and
  \<open>Examples\<close> interpret it.
\<close>

section \<open>The core of a robot\<close>

definition core :: "robot \<Rightarrow>
  conn_state \<times> (conn_state \<times> conn_state) list \<times> task dispatcher \<times> (u64 \<times> inflight_rpc) list
    \<times> robot_info option \<times> u64 \<times> metrics \<times> (nat \<times> answer) list \<times> nat" where
  "core r = (r_state r, r_history r, r_dispatcher r, r_inflight r, r_robot_info r, r_subs_pending r, r_metrics r,
     r_answers r, r_next_slot r)"

text \<open>
  The counters as the code keeps them: the histograms stay within their capacity, and nothing counts the
  pings of the user. \<open>counts\<close> says that a change of the counters respects this.
\<close>

definition counters_ok :: "metrics \<Rightarrow> bool" where
  "counters_ok m \<longleftrightarrow> length (mt_rtt_hist m) \<le> kCap \<and> length (rst_latency_hist (mt_cmdvel m)) \<le> kCap
     \<and> length (rst_latency_hist (mt_estop m)) \<le> kCap \<and> mt_ping m = rpc_stat_new"

definition counts :: "(metrics \<Rightarrow> metrics) \<Rightarrow> bool" where
  "counts g \<longleftrightarrow> (\<forall>m. counters_ok m \<longrightarrow> counters_ok (g m))"

lemma countsI: "(\<And>m. counters_ok m \<Longrightarrow> counters_ok (g m)) \<Longrightarrow> counts g"
  by (simp add: counts_def)

lemma rtt_record_bound: "length xs \<le> kCap \<Longrightarrow> length (rtt_record x xs) \<le> kCap"
  by (simp add: rtt_record_def Let_def)

text \<open>What the state callback is told of is posted by \<open>TransitionTo\<close> only.\<close>

fun tells_state :: "task \<Rightarrow> bool" where
  "tells_state (TaskState _ _ _ _) = True"
| "tells_state _ = False"

lemma replaying_delete: "replaying (AList.delete rid ps) \<Longrightarrow> replaying ps"
  by (force simp: replaying_def AList.delete_eq)

lemma replaying_update:
  "replaying (AList.update rid rpc ps) \<Longrightarrow> ir_on_complete rpc = CEStopReplay \<or> replaying ps"
  by (induction ps) (auto simp: replaying_def split: if_splits)

lemma replaying_lookup: "map_of ps rid = Some rpc \<Longrightarrow> ir_on_complete rpc = CEStopReplay \<Longrightarrow> replaying ps"
  by (force simp: replaying_def dest: map_of_SomeD)

text \<open>
  An invariant comes in two grades: \<open>I True\<close> is what holds once a handshake has gone through, \<open>I False\<close>
  what always holds. A completion lambda may be called in either grade, but that of a replay only
  after a handshake.
\<close>

definition keeps :: "(bool \<Rightarrow> robot \<Rightarrow> bool) \<Rightarrow> on_complete_fn \<Rightarrow> bool" where
  "keeps I oc \<longleftrightarrow> (\<forall>b lam resp err r. I b r \<longrightarrow> (lam = CEStopReplay \<longrightarrow> b) \<longrightarrow> safe (I b) (oc lam resp err r))"

section \<open>The contract\<close>

locale kept =
  fixes I :: "bool \<Rightarrow> robot \<Rightarrow> bool"
  assumes frame: "core r' = core r \<Longrightarrow> I b r' = I b r"
    and grade: "I True r \<Longrightarrow> I b r"
    and replays: "I b r \<Longrightarrow> replaying (r_inflight r) \<Longrightarrow> I True r"
    and resumes: "I b r \<Longrightarrow> 0 < r_subs_pending r \<Longrightarrow> I True r"
    and post: "I b r \<Longrightarrow> \<not> tells_state t \<Longrightarrow> I b (post_task t r)"
    and inflight: "I b r \<Longrightarrow> (replaying ps \<Longrightarrow> b \<or> replaying (r_inflight r)) \<Longrightarrow> I b (r\<lparr>r_inflight := ps\<rparr>)"
    and metrics: "I b r \<Longrightarrow> counts g \<Longrightarrow> I b (upd_metrics g r)"
    and move: "I b r \<Longrightarrow> (st = CsReady \<Longrightarrow> b) \<Longrightarrow> I b (transition_to st info r)"
    and pending: "I b r \<Longrightarrow> k = 0 \<or> b \<Longrightarrow> I b (r\<lparr>r_subs_pending := k\<rparr>)"
    and answer: "I b r \<Longrightarrow> map_of (r_answers r) p = None \<Longrightarrow> I b (r\<lparr>r_answers := (p, a) # r_answers r\<rparr>)"
    and slot: "I b r \<Longrightarrow> r_next_slot r \<le> n \<Longrightarrow> I b (r\<lparr>r_next_slot := n\<rparr>)"
    and handshake: "I b r \<Longrightarrow> I True (r\<lparr>r_robot_info := Some ri\<rparr>)"
begin

lemma quiet_fields [simp]:
  "I b (r\<lparr>r_ioc := es\<rparr>) = I b r" "I b (r\<lparr>r_work_guard := x\<rparr>) = I b r"
  "I b (r\<lparr>r_loop_done := x\<rparr>) = I b r" "I b (r\<lparr>r_shutdown_requested := x\<rparr>) = I b r"
  "I b (r\<lparr>r_log_sink := ls\<rparr>) = I b r" "I b (r\<lparr>r_state_handler := h\<rparr>) = I b r"
  "I b (r\<lparr>r_ws := w\<rparr>) = I b r" "I b (r\<lparr>r_next_conn := n\<rparr>) = I b r"
  "I b (r\<lparr>r_next_request_id := k\<rparr>) = I b r" "I b (r\<lparr>r_requests := n\<rparr>) = I b r"
  "I b (r\<lparr>r_active_subs := act\<rparr>) = I b r" "I b (r\<lparr>r_slots := sls\<rparr>) = I b r"
  "I b (r\<lparr>r_inflight_sub := isub\<rparr>) = I b r"
  "I b (r\<lparr>r_sub_ack_timers := sts\<rparr>) = I b r" "I b (r\<lparr>r_heartbeat := hb\<rparr>) = I b r"
  "I b (r\<lparr>r_idle_timer := t\<rparr>) = I b r" "I b (r\<lparr>r_ping_timer := t\<rparr>) = I b r"
  "I b (r\<lparr>r_reconnect_attempt := a\<rparr>) = I b r" "I b (r\<lparr>r_reconnect_total := k\<rparr>) = I b r"
  "I b (r\<lparr>r_reconnect_timer := rt\<rparr>) = I b r" "I b (r\<lparr>r_estop_engaged := x\<rparr>) = I b r"
  "I b (r\<lparr>r_estop_reason := msg\<rparr>) = I b r" "I b (r\<lparr>r_estop_pending := x\<rparr>) = I b r"
  "I b (r\<lparr>r_failure_code := e\<rparr>) = I b r" "I b (r\<lparr>r_failure_message := msg\<rparr>) = I b r"
  "I b (r\<lparr>r_cmdvel_limiter := tb\<rparr>) = I b r" "I b (r\<lparr>r_cmdvel_seq := k\<rparr>) = I b r"
  "I b (r\<lparr>r_next_promise := n\<rparr>) = I b r"
  "I b (r\<lparr>r_wire := wire\<rparr>) = I b r" "I b (r\<lparr>r_inline_calls := ics\<rparr>) = I b r"
  "I b (r\<lparr>r_stderr := lines\<rparr>) = I b r" "I b (r\<lparr>r_looks := n\<rparr>) = I b r"
  "I b (r\<lparr>r_draws := n\<rparr>) = I b r" "I b (r\<lparr>r_now := now\<rparr>) = I b r" "I b (r\<lparr>r_epoch_ms := now\<rparr>) = I b r"
  by (rule frame; simp add: core_def)+

lemma none_inflight [simp]: "I b r \<Longrightarrow> I b (r\<lparr>r_inflight := []\<rparr>)"
  by (rule inflight) simp_all

lemma kept_counts [simp]:
  "I b r \<Longrightarrow> I b (upd_metrics (\<lambda>m. m\<lparr>mt_bytes_sent := f m, mt_bytes_received := g m\<rparr>) r)"
  "I b r \<Longrightarrow> I b (upd_metrics (\<lambda>m. m\<lparr>mt_bytes_received := g m\<rparr>) r)"
  "I b r \<Longrightarrow> I b (upd_metrics (\<lambda>m. m\<lparr>mt_last_ping_sent_ms := t\<rparr>) r)"
  "I b r \<Longrightarrow> I b (count_bytes_sent bs r)" "I b r \<Longrightarrow> I b (record_rtt rtt r)"
  "I b r \<Longrightarrow> I b (upd_cmdvel_stat count_call r)" "I b r \<Longrightarrow> I b (upd_cmdvel_stat count_error r)"
  "I b r \<Longrightarrow> I b (upd_cmdvel_stat (record_latency rtt) r)"
  "I b r \<Longrightarrow> I b (upd_estop_stat count_call r)" "I b r \<Longrightarrow> I b (upd_estop_stat count_error r)"
  "I b r \<Longrightarrow> I b (upd_estop_stat (record_latency rtt) r)"
  unfolding count_bytes_sent_def record_rtt_def upd_cmdvel_stat_def upd_estop_stat_def
  by (erule metrics, rule countsI, simp add: counters_ok_def count_call_def count_error_def record_latency_def
      rtt_record_bound)+

lemma kept_quiet [simp]:
  "I b (upd_slot i f r) = I b r" "I b (upd_heartbeat h r) = I b r" "I b (ws_close_reset r) = I b r"
  "I b (start_heartbeat c r) = I b r" "I b (reset_liveness_on_inbound r) = I b r"
  "I b (post_event e r) = I b r" "I b (snd (next_request_id r)) = I b r" "I b (snd (new_promise r)) = I b r"
  "I b (snd (ws_post_call c n bs r)) = I b r" "I b (snd (ws_is_open c r)) = I b r"
  "I b (snd (next_backoff c a r)) = I b r"
  by (auto simp: upd_slot_def upd_heartbeat_def ws_close_reset_def start_heartbeat_def next_request_id_def
      reset_liveness_on_inbound_def post_event_def new_promise_def ws_post_call_def ws_is_open_def
      next_backoff_def Let_def split: option.split)

lemma kept_posts [simp]:
  "I b r \<Longrightarrow> I b (post_log lvl msg r)" "I b r \<Longrightarrow> I b (fire_status i k gap err reason r)"
  "I b r \<Longrightarrow> I b (snd (send_or_fail c bs r))"
  by (auto simp: post_log_def fire_status_def send_or_fail_def Let_def case_prod_beta intro!: post split: option.split)

lemma kept_inflight [simp]:
  "I b r \<Longrightarrow> ir_on_complete rpc = CEStopReplay \<longrightarrow> b \<or> replaying (r_inflight r) \<Longrightarrow> I b (put_inflight rid rpc r)"
  "I b r \<Longrightarrow> I b (erase_inflight rid r)"
  "I b r \<Longrightarrow> ir_on_complete rpc \<noteq> CEStopReplay \<Longrightarrow> I b (r\<lparr>r_inflight := AList.update rid rpc (r_inflight r)\<rparr>)"
  "I b r \<Longrightarrow> I b (r\<lparr>r_inflight := AList.delete rid (r_inflight r)\<rparr>)"
  "I b r \<Longrightarrow> ir_on_complete rpc \<noteq> CEStopReplay \<Longrightarrow>
    I b (r\<lparr>r_inflight := AList.delete rid (AList.update rid rpc (r_inflight r))\<rparr>)"
  unfolding put_inflight_def erase_inflight_def
  by (erule inflight; use replaying_update replaying_delete in blast)+

lemma kept_move [simp]: "I b r \<Longrightarrow> st \<noteq> CsReady \<or> b \<Longrightarrow> I b (transition_to st info r)"
  by (rule move) simp_all

section \<open>Subscriptions\<close>

lemma kept_slots [simp]:
  "I b r \<Longrightarrow> I b (close_slot code reason i r)" "I b r \<Longrightarrow> I b (pause_slot code reason i r)"
  "I b r \<Longrightarrow> I b (close_and_drop i code reason r)" "I b r \<Longrightarrow> I b (drop_one i r)"
  "I b (snd (slide_hz_buckets i r)) = I b r"
  by (simp_all add: close_slot_def pause_slot_def close_and_drop_def drop_one_def slide_hz_buckets_def Let_def)

lemma kept_hand_over [simp]: "I b r \<Longrightarrow> I b (hand_over i push r)"
  by (simp add: hand_over_def Let_def case_prod_beta post)

lemma kept_push [simp]:
  "I b r \<Longrightarrow> I b (deliver_push i push r)" "I b r \<Longrightarrow> I b (buffer_push i push r)"
  by (simp_all add: deliver_push_def buffer_push_def Let_def)

lemma kept_folds [simp]:
  "I b r \<Longrightarrow> I b (fold (\<lambda>(topic, i). close_slot code reason i) ps r)"
  "I b r \<Longrightarrow> I b (fold (\<lambda>(topic, i). pause_slot code reason i) ps r)"
  "I b r \<Longrightarrow> I b (drain_frames i k fs r)"
proof -
  show "I b r \<Longrightarrow> I b (fold (\<lambda>(topic, i). close_slot code reason i) ps r)"
    "I b r \<Longrightarrow> I b (fold (\<lambda>(topic, i). pause_slot code reason i) ps r)"
    by (induction ps arbitrary: r) (simp_all add: case_prod_beta)
  show "I b r \<Longrightarrow> I b (drain_frames i k fs r)" by (induction fs arbitrary: r) (simp_all add: Let_def)
qed

lemma kept_parts [simp]:
  "I b r \<Longrightarrow> I b (pause_all_subs code msg r)" "I b r \<Longrightarrow> I b (handle_sdk_topic_push push r)"
  "I b (register_subscribe c rid i since r) = I b r" "I b (unregister_subscribe rid i r) = I b r"
  "I b (snd (subscription_stats ps r)) = I b r"
proof -
  show "I b (snd (subscription_stats ps r)) = I b r"
    by (induction ps arbitrary: r) (simp_all add: Let_def case_prod_beta split_paired_all)
qed (simp_all add: pause_all_subs_def handle_sdk_topic_push_def register_subscribe_def unregister_subscribe_def
      Let_def split: option.split sub_state.split)

lemma kept_reconnect_sub_done [simp]:
  assumes "I b r"
  shows "I b (reconnect_sub_done r)"
proof (cases "r_state r = CsReconnecting \<and> 0 < r_subs_pending r")
  case True
  then have "I True r" using resumes [OF assms] by simp
  then have "I True (reconnect_sub_done r)" by (simp add: reconnect_sub_done_def Let_def pending)
  then show ?thesis by (rule grade)
qed (use assms in \<open>auto simp: reconnect_sub_done_def\<close>)

lemma kept_mark_lost [simp]: "I b r \<Longrightarrow> I b (mark_lost c reason msg r)"
  by (simp add: mark_lost_def Let_def case_prod_beta)

lemma kept_activate: "I b r \<Longrightarrow> I b (activate i kind gap new_last next_seq r)"
  by (simp add: activate_def drain_pending_buffer_def Let_def)

section \<open>Losing the connection\<close>

lemma keeps_oc: "keeps I oc \<Longrightarrow> I b r \<Longrightarrow> (lam = CEStopReplay \<Longrightarrow> b) \<Longrightarrow> safe (I b) (oc lam resp err r)"
  by (simp add: keeps_def)

lemma keeps_set_value: "I b r \<Longrightarrow> safe (I b) (set_value p a r)"
  by (simp add: set_value_def answer)

lemma keeps_answer:
  "I b r \<Longrightarrow> (\<And>r. I b r \<Longrightarrow> I b (g r)) \<Longrightarrow> safe (I b) (obind (set_value p a r) (\<lambda>r'. Inr (g r')))"
  by (rule safe_obind [OF keeps_set_value]) simp_all

text \<open>With a replay in flight the robot is of the better grade, so the lambdas of all calls may run.\<close>

lemma graded:
  assumes "\<And>b'. I b' r \<Longrightarrow> (replaying (r_inflight r) \<Longrightarrow> b') \<Longrightarrow> safe (I b') m" "I b r"
  shows "safe (I b) m"
  using assms replays [OF assms(2)] safe_mono [of "I True" m "I b"] grade by metis

lemma keeps_complete_all:
  assumes "keeps I oc"
  shows "I b r \<Longrightarrow> (replaying ps \<Longrightarrow> b) \<Longrightarrow> safe (I b) (complete_all oc resp err ps r)"
proof (induction ps arbitrary: r)
  case (Cons p ps)
  obtain rid rpc where p: "p = (rid, rpc)" by (cases p)
  have b: "ir_on_complete rpc = CEStopReplay \<Longrightarrow> b" "replaying ps \<Longrightarrow> b"
    using Cons.prems(2) by (auto simp: replaying_def p)
  have "safe (I b) (obind (oc (ir_on_complete rpc) resp err r)
      (\<lambda>r1. if map_of (r_inflight r1) rid = None then Inl IteratorInvalidated else complete_all oc resp err ps r1))"
    by (rule safe_obind [OF keeps_oc [OF assms Cons.prems(1) b(1)]]) (simp_all add: Cons.IH b(2))
  then show ?case using Cons.IH [OF Cons.prems(1) b(2)] by (simp add: p)
qed simp

lemma keeps_abort:
  assumes "keeps I oc" "I b r"
  shows "safe (I b) (abort_to_fatal oc code msg r)"
proof (rule graded [OF _ assms(2)])
  fix b' assume b: "I b' r" "replaying (r_inflight r) \<Longrightarrow> b'"
  define r2 where "r2 = (fold (\<lambda>(topic, i). close_slot code (if msg = [] then ''Fatal'' else msg) i)
      (r_active_subs r) r)\<lparr>r_active_subs := []\<rparr>"
  have "session r2 = (session r)\<lparr>s_active := []\<rparr>" by (simp add: r2_def)
  from arg_cong [OF this, of s_inflight] have "r_inflight r2 = r_inflight r" by simp
  then have "safe (I b') (complete_all oc (fake_response code msg) code (r_inflight r2) r2)"
    using b by (intro keeps_complete_all [OF assms(1)]) (simp_all add: r2_def)
  then show "safe (I b') (abort_to_fatal oc code msg r)"
    unfolding abort_to_fatal_def Let_def r2_def by (rule safe_obind) simp
qed

lemma keeps_do_reconnect: "keeps I oc \<Longrightarrow> I b r \<Longrightarrow> safe (I b) (do_reconnect c oc attempt r)"
  by (simp add: do_reconnect_def Let_def case_prod_beta keeps_abort)

lemma keeps_transport_close:
  assumes "keeps I oc" "I b r"
  shows "safe (I b) (on_transport_close c oc reason msg r)"
proof (rule graded [OF _ assms(2)])
  fix b' assume b: "I b' r" "replaying (r_inflight r) \<Longrightarrow> b'"
  have "safe (I b') (obind (complete_all oc resp reason (r_inflight r) (pause_all_subs reason msg r))
      (\<lambda>r2. do_reconnect c oc (r_reconnect_attempt (mark_lost c reason msg r2) + 1) (mark_lost c reason msg r2)))" for resp
    by (rule safe_obind [of "I b'"], rule keeps_complete_all [OF assms(1)])
      (use b in \<open>simp_all add: keeps_do_reconnect [OF assms(1)]\<close>)
  then show "safe (I b') (on_transport_close c oc reason msg r)"
    using b(1) by (simp add: on_transport_close_def Let_def)
qed

lemma keeps_fail: "keeps I oc \<Longrightarrow> I b r \<Longrightarrow> safe (I b) (fail_and_reconnect c oc what code msg reset r)"
  by (simp add: fail_and_reconnect_def Let_def case_prod_beta keeps_do_reconnect)

section \<open>The handshake and the lambdas\<close>

lemma keeps_send_subscribe: "keeps I oc \<Longrightarrow> I b r \<Longrightarrow> safe (I b) (send_subscribe c oc i since r)"
  by (simp add: send_subscribe_def Let_def case_prod_beta keeps_transport_close split: sum.split)

lemma keeps_for_each:
  "(\<And>i r. I b r \<Longrightarrow> safe (I b) (body i r)) \<Longrightarrow> I b r \<Longrightarrow> safe (I b) (for_each_sub body ps r)"
proof (induction ps arbitrary: r)
  case (Cons p ps)
  obtain topic i where p: "p = (topic, i)" by (cases p)
  show ?case unfolding p for_each_sub.simps
    by (rule safe_obind [OF Cons.prems(1) [OF Cons.prems(2)]]) (simp add: Cons.IH Cons.prems(1))
qed simp

lemma keeps_do_estop_replay: "keeps I oc \<Longrightarrow> I True r \<Longrightarrow> safe (I True) (do_estop_replay c oc r)"
  by (simp add: do_estop_replay_def Let_def case_prod_beta keeps_transport_close split: sum.split)

lemma keeps_resume:
  assumes "keeps I oc" "I True r"
  shows "safe (I True) (resume_session c oc r)"
proof -
  have "safe (I True) (obind (resubscribe_all c oc r) (\<lambda>r. if r_estop_pending r then do_estop_replay c oc r else Inr r))"
    if "I True r" for r
  proof (rule safe_obind)
    show "safe (I True) (resubscribe_all c oc r)" unfolding resubscribe_all_def
      by (rule keeps_for_each) (use that assms(1) in \<open>simp_all add: resubscribe_one_def Let_def keeps_send_subscribe\<close>)
  qed (simp add: keeps_do_estop_replay [OF assms(1)])
  then show ?thesis using assms(2) by (simp add: resume_session_def Let_def pending)
qed

lemma keeps_handshake:
  assumes "keeps I oc" "I b r"
  shows "safe (I b) (complete_handshake c oc again resp err r)"
proof -
  have first: "safe (I True) (for_each_sub (subscribe_pending c oc) ps r)" if "I True r" for ps r
    by (rule keeps_for_each) (use that assms(1) in \<open>simp_all add: subscribe_pending_def keeps_send_subscribe\<close>)
  have ok: "I True (start_heartbeat c (r\<lparr>r_robot_info := Some ri\<rparr>))" for ri
    using handshake [OF assms(2)] by simp
  show ?thesis
  proof (cases "err = EcOk \<and> dr_success resp \<and> dr_has_handshake resp")
    case True
    then have "safe (I True) (complete_handshake c oc again resp err r)"
      using ok first keeps_resume [OF assms(1)] by (simp add: complete_handshake_def Let_def)
    then show ?thesis by (rule safe_mono) (rule grade)
  next
    case False
    then show ?thesis
      using assms by (auto simp: complete_handshake_def Let_def keeps_abort keeps_fail)
  qed
qed

lemma keeps_estop_replay: "keeps I oc \<Longrightarrow> I True r \<Longrightarrow> safe (I True) (complete_estop_replay c oc resp err r)"
  by (simp add: complete_estop_replay_def Let_def keeps_transport_close)

lemma keeps_body:
  assumes "keeps I oc"
  shows "keeps I (on_complete_body c oc)"
  unfolding keeps_def
proof (intro allI impI)
  fix b lam resp err r assume "I b r" "lam = CEStopReplay \<longrightarrow> b"
  then show "safe (I b) (on_complete_body c oc lam resp err r)"
    using assms by (cases lam) (simp_all add: on_complete_body_def keeps_handshake keeps_set_value
        keeps_estop_replay complete_unsubscribe_def complete_cmd_vel_def complete_estop_def Let_def
        keeps_transport_close split: option.split)
qed

lemma keeps_on_complete: "keeps I (call_on_complete c depth)"
  by (induction depth) (simp_all add: keeps_body, simp add: keeps_def)

section \<open>Every handler\<close>

lemma keeps_subscribe_ack:
  assumes "keeps I oc" "I b r"
  shows "safe (I b) (handle_subscribe_ack c oc resp r)"
proof -
  have "safe (I b) (ack_failed c oc i resp r)" "I b (ack_telemetry i resp r)" "safe (I b) (ack_event c oc i resp r)"
    if "I b r" for i r
    using that assms(1) by (simp_all add: ack_failed_def ack_telemetry_def ack_event_def Let_def case_prod_beta
        keeps_abort keeps_transport_close keeps_send_subscribe kept_activate split: error_category.split)
  then show ?thesis using assms(2) by (simp add: handle_subscribe_ack_def Let_def split: option.split)
qed

lemma keeps_subscribe: "keeps I oc \<Longrightarrow> I b r \<Longrightarrow> safe (I b) (handle_subscribe c oc i r)"
  by (simp add: handle_subscribe_def Let_def keeps_send_subscribe)

lemma kept_unsub_async: "I b r \<Longrightarrow> I b (handle_unsub_async c topic r)"
  by (simp add: handle_unsub_async_def Let_def case_prod_beta split: option.split sum.split)

lemma keeps_unsub_sync: "I b r \<Longrightarrow> safe (I b) (handle_unsub_sync c topic p r)"
  by (simp add: handle_unsub_sync_def Let_def case_prod_beta keeps_set_value keeps_answer split: option.split sum.split)

lemma keeps_register_call:
  "I b r \<Longrightarrow> lam \<noteq> CEStopReplay \<Longrightarrow> (\<And>r. I b r \<Longrightarrow> I b (on_error r)) \<Longrightarrow> (\<And>r. I b r \<Longrightarrow> I b (sent r)) \<Longrightarrow>
    safe (I b) (register_call c mname enq deadline lam encode failed on_error sent p r)"
  by (simp add: register_call_def Let_def case_prod_beta keeps_set_value keeps_answer split: sum.split)

lemma keeps_calls:
  assumes "I b r"
  shows "safe (I b) (handle_cmd_vel c vx vy wz sq t0 p r)" "safe (I b) (handle_estop c engage reason t0 p r)"
    "safe (I b) (handle_invoke c mname deadline enc p r)" "safe (I b) (handle_ping c t0 p r)"
  unfolding handle_cmd_vel_def handle_estop_def handle_invoke_def handle_ping_def
  by (rule keeps_register_call [OF assms]; simp)+

lemma keeps_connect:
  assumes "keeps I oc" "I b r"
  shows "safe (I b) (establish_connection c oc again r)" "safe (I b) (on_reconnect_timer c oc attempt r)"
proof -
  have ws: "safe (I b) (connect_ws c oc again r)" if "I b r" for again r
    using that assms(1) by (simp add: connect_ws_def send_handshake_def Let_def case_prod_beta keeps_abort keeps_fail
        split: sum.split)
  have est: "safe (I b) (establish_connection c oc again r)" if "I b r" for again r
    using that by (simp add: establish_connection_def ws)
  show "safe (I b) (establish_connection c oc again r)" "safe (I b) (on_reconnect_timer c oc attempt r)"
    using assms(2) by (simp_all add: on_reconnect_timer_def est)
qed

lemma keeps_close:
  assumes "keeps I oc" "I b r"
  shows "safe (I b) (handle_close c oc r)"
proof (rule graded [OF _ assms(2)])
  fix b' assume b: "I b' r" "replaying (r_inflight r) \<Longrightarrow> b'"
  define r2 where "r2 = (transition_to CsShutdown (change_info ''user Close()'' EcCancelled [] 0 (r_reconnect_attempt r) []) r)
    \<lparr>r_idle_timer := None, r_ping_timer := None, r_reconnect_timer := None, r_sub_ack_timers := []\<rparr>"
  have "session r2 = (s_goto CsShutdown (session r))\<lparr>s_sub_timers := False\<rparr>" by (simp add: r2_def)
  from arg_cong [OF this, of s_inflight] have "r_inflight r2 = r_inflight r" by simp
  then have "safe (I b') (complete_all oc decoded_response_default EcCancelled (r_inflight r2) r2)"
    using b by (intro keeps_complete_all [OF assms(1)]) (simp_all add: r2_def)
  then show "safe (I b') (handle_close c oc r)"
    unfolding handle_close_def Let_def r2_def by (rule safe_obind) simp
qed

lemma keeps_timers:
  assumes "keeps I oc" "I b r"
  shows "safe (I b) (on_idle_timer c oc r)" "safe (I b) (on_ping_deadline c oc r)" "safe (I b) (on_rpc_timeout c oc rid r)"
    "safe (I b) (on_sub_ack_timeout c oc i rid r)"
proof -
  have ping: "I b (snd (send_heartbeat_ping c k lam r))" if "I b r" "lam \<noteq> CEStopReplay" for k lam r
    using that by (simp add: send_heartbeat_ping_def Let_def case_prod_beta split: sum.split)
  show "safe (I b) (on_idle_timer c oc r)" "safe (I b) (on_ping_deadline c oc r)" "safe (I b) (on_sub_ack_timeout c oc i rid r)"
    using assms by (simp_all add: on_idle_timer_def on_ping_deadline_def on_sub_ack_timeout_def Let_def case_prod_beta
        ping keeps_transport_close)
  have "safe (I b) (obind (oc (CHandshake x) resp err r) (\<lambda>r2. Inr (ws_close_reset r2)))" if "I b r" for x resp err r
    by (rule safe_obind [OF keeps_oc [OF assms(1) that]]) simp_all
  then show "safe (I b) (on_rpc_timeout c oc rid r)"
    using assms by (simp add: on_rpc_timeout_def Let_def keeps_set_value keeps_answer keeps_transport_close
        split: option.split completion.split)
qed

lemma keeps_response:
  assumes "keeps I oc" "I b r"
  shows "safe (I b) (handle_sdk_response c oc resp r)"
proof (cases "\<not> dr_has_subscribe resp \<and> map_of (r_inflight r) (dr_request_id resp) \<noteq> None")
  case True
  then obtain rpc where rpc: "map_of (r_inflight r) (dr_request_id resp) = Some rpc" by blast
  show ?thesis
  proof (rule graded [OF _ assms(2)])
    fix b' assume "I b' r" "replaying (r_inflight r) \<Longrightarrow> b'"
    then show "safe (I b') (handle_sdk_response c oc resp r)"
      using True rpc replaying_lookup [OF rpc] by (simp add: handle_sdk_response_def Let_def keeps_oc [OF assms(1)])
  qed
qed (use assms in \<open>auto simp: handle_sdk_response_def keeps_subscribe_ack\<close>)

lemma keeps_inbound: "keeps I oc \<Longrightarrow> I b r \<Longrightarrow> safe (I b) (on_inbound_message c oc bs r)"
  by (simp add: on_inbound_message_def Let_def keeps_response split: inbound.split)

lemma keeps_event:
  assumes "keeps I oc" "I b r"
  shows "safe (I b) (handle_event c oc e r)"
  using assms by (cases e) (simp_all add: handle_event_def keeps_connect keeps_close keeps_inbound keeps_transport_close
      keeps_subscribe kept_unsub_async keeps_unsub_sync keeps_calls keeps_timers keeps_set_value full_diagnostics_def
      Let_def case_prod_beta)

section \<open>Every step\<close>

lemma kept_user: "I b r \<Longrightarrow> user_step c r r' \<Longrightarrow> I b r'"
  by (erule user_step.cases)
    (simp_all add: step_simps subscribe_internal_def facade_destroy_def Let_def case_prod_beta slot)

lemma kept_timer: "I b r \<Longrightarrow> timer_step r r' \<Longrightarrow> I b r'"
  by (erule timer_step.cases) (auto intro!: kept_inflight(1) dest: replaying_lookup)

lemma kept_round:
  assumes "I b r" "loop_round c depth r = Some (Inr r')"
  shows "I b r'"
proof -
  obtain e es where "handle_event c (call_on_complete c depth) e (r\<lparr>r_ioc := es\<rparr>) = Inr r'"
    using assms(2) by (auto simp: loop_round_def split: if_splits list.splits)
  moreover have "safe (I b) (handle_event c (call_on_complete c depth) e (r\<lparr>r_ioc := es\<rparr>))"
    using assms(1) by (simp add: keeps_event [OF keeps_on_complete])
  ultimately show ?thesis by simp
qed

text \<open>The worker of the dispatcher changes the dispatcher alone; its law is left to the invariant.\<close>

lemma kept_step:
  assumes worker: "\<And>d. worker_round (r_dispatcher r) = Some d \<Longrightarrow> I b (r\<lparr>r_dispatcher := d\<rparr>)"
    and "I b r" "robot_step c depth r r'"
  shows "I b r'"
  using assms(3)
proof (cases rule: robot_step.cases)
  case user
  then show ?thesis by (rule kept_user [OF assms(2)])
next
  case timer
  then show ?thesis by (rule kept_timer [OF assms(2)])
next
  case round
  then show ?thesis by (rule kept_round [OF assms(2)])
qed (use assms(1,2) in simp_all)

end

end
