(* ===== verification/Sample.thy ===== *)
theory Sample
  imports RobotLife
begin

text \<open>
  A concrete environment, at which the theorems of the development are applied: a wire on which every
  message is a byte or two, a server that can be reached, a WebSocket that stays open, and the runs of
  the control loop in it.
\<close>

section \<open>The environment\<close>

definition sample_handshake :: handshake_response_pb where
  "sample_handshake =
    \<lparr>hr_protocol_version = ''v1'', hr_robot_sn = ''X2'', hr_robot_model = ''karo'',
     hr_granted_capabilities = no_capabilities,
     hr_available_topics =
       [\<lparr>tp_name = ''robot.safety'', tp_description = [], tp_default_hz = 0, tp_max_hz = 0,
         tp_delivery_semantics = 1\<rparr>],
     hr_session_token = []\<rparr>"

definition sample_reply :: "u8 \<Rightarrow> bool \<Rightarrow> int \<Rightarrow> response_payload \<Rightarrow> sdk_response_pb" where
  "sample_reply rid ok code payload =
    \<lparr>rp_request_id = ucast rid, rp_success = ok, rp_error_code = code, rp_message = [],
     rp_server_timestamp_ms = 0, rp_payload = payload\<rparr>"

text \<open>\<open>[request, kind]\<close> is a response, \<open>[seq]\<close> a push of \<open>robot.safety\<close>.\<close>

fun sample_parse :: "bytes \<Rightarrow> sdk_response_pb option" where
  "sample_parse [rid, kind] =
     (if kind = 0 then Some (sample_reply rid True 0 (PayHandshake sample_handshake))
      else if kind = 1
      then Some (sample_reply rid True 0 (PaySubscribe
             \<lparr>sa_topic = ''robot.safety'', sa_accepted = True, sa_reject_reason = 0, sa_next_seq = 1,
              sa_message = []\<rparr>))
      else if kind = 2
      then Some (sample_reply rid True 0 (PayRpc
             \<lparr>rr_id = ucast rid, rr_code = 0, rr_message = [], rr_payload = []\<rparr>))
      else None)"
| "sample_parse _ = None"

fun sample_push :: "bytes \<Rightarrow> topic_push_pb option" where
  "sample_push [n] = Some \<lparr>pp_topic = ''robot.safety'', pp_timestamp_ms = 0, pp_payload = [], pp_seq = ucast n\<rparr>"
| "sample_push _ = None"

definition sample_pb :: protobuf where
  "sample_pb =
    \<lparr>ser_command = (\<lambda>cmd. Some [ucast (cmd_request_id cmd)]), ser_cmd_vel = (\<lambda>_. Some []),
     ser_emergency_stop = (\<lambda>_. Some []), ser_create_move_task = (\<lambda>_. Some []),
     ser_cancel_task = (\<lambda>_. Some []), ser_pause_task = (\<lambda>_. Some []),
     ser_resume_task = (\<lambda>_. Some []), parse_response = sample_parse, parse_topic_push = sample_push,
     parse_cmd_vel_response = (\<lambda>_. None), parse_ping_response = (\<lambda>_. None),
     parse_robot_state = (\<lambda>_. None), parse_create_task_response = (\<lambda>_. None),
     parse_task_event = (\<lambda>_. None), parse_safety_state = (\<lambda>_. None), to_float = (\<lambda>x. x)\<rparr>"

definition sample_opts :: connect_options where
  "sample_opts = connect_options_default\<lparr>co_access_token := [1]\<rparr>"

definition sample_ctx :: ctx where
  "sample_ctx =
    \<lparr>cx_opts = sample_opts, cx_pb = sample_pb,
     cx_ssl = \<lparr>load_pem_ca = (\<lambda>_. None), load_pem_certificate = (\<lambda>_. None),
               load_pem_private_key = (\<lambda>_. None)\<rparr>,
     cx_x509 = \<lparr>bio_new_mem_buf = (\<lambda>_. True), pem_read_x509 = (\<lambda>_. Some 0), i2d_x509 = (\<lambda>_. [1])\<rparr>,
     cx_connect = (\<lambda>_. Some None), cx_open = (\<lambda>_. True), cx_random = (\<lambda>_. 1 / 2)\<rparr>"

definition sample_start :: robot where
  "sample_start = (robot_new sample_opts None 0 1000)\<lparr>r_work_guard := True\<rparr>"

section \<open>Running the robot\<close>

text \<open>
  A script of what users, server, network and clock do; \<open>Round\<close> runs the oldest handler of the loop.
  An action that is not possible where it stands fails.
\<close>

datatype action =
    Connect
  | Inbound bytes
  | Lost
  | SubscribeSafety
  | Unsubscribe nat
  | EStop string
  | CmdVel
  | Ping
  | Stop
  | Wait int
  | ReconnectTimer
  | Round

definition do_action :: "ctx \<Rightarrow> nat \<Rightarrow> action \<Rightarrow> robot \<Rightarrow> robot option" where
  "do_action c depth a r =
    (case a of
       Connect \<Rightarrow> Some (post_event EvConnect r)
     | Inbound b \<Rightarrow> if r_next_conn r > 0 then Some (post_event (EvInbound b) r) else None
     | Lost \<Rightarrow>
         if r_next_conn r > 0 then Some (post_event (EvTransportClose EcTransportFailure []) r) else None
     | SubscribeSafety \<Rightarrow> Some (snd (subscribe_safety_events c True r))
     | Unsubscribe i \<Rightarrow> if i < r_next_slot r then Some (snd (facade_unsubscribe True False i r)) else None
     | EStop reason \<Rightarrow> Some (snd (emergency_stop_call False True reason r))
     | CmdVel \<Rightarrow> Some (snd (cmd_vel_call False 1 0 0 r))
     | Ping \<Rightarrow> Some (snd (ping_call False r))
     | Stop \<Rightarrow> Some (close_call r)
     | Wait d \<Rightarrow> if 0 \<le> d then Some (r\<lparr>r_now := r_now r + d, r_epoch_ms := r_epoch_ms r\<rparr>) else None
     | ReconnectTimer \<Rightarrow>
         (case r_reconnect_timer r of
            None \<Rightarrow> None
          | Some (t, attempt) \<Rightarrow>
              if t \<le> r_now r then Some (post_event (EvReconnect attempt) (r\<lparr>r_reconnect_timer := None\<rparr>))
              else None)
     | Round \<Rightarrow> (case loop_round c depth r of Some (Inr r') \<Rightarrow> Some r' | _ \<Rightarrow> None))"

fun run_script :: "ctx \<Rightarrow> nat \<Rightarrow> action list \<Rightarrow> robot \<Rightarrow> robot" where
  "run_script c depth [] r = r"
| "run_script c depth (a # as) r =
     (case do_action c depth a r of
        None \<Rightarrow> r
      | Some r' \<Rightarrow> if r_requests r' < 100 then run_script c depth as r' else r)"

lemma do_action_step:
  assumes "do_action c depth a r = Some r'"
  shows "robot_step c depth r r'"
proof (cases a)
  case ReconnectTimer
  then show ?thesis
    using assms by (auto simp: do_action_def split: option.splits if_splits
        intro!: robot_step.timer timer_step.reconnect)
next
  case (Wait d)
  then show ?thesis
    using assms robot_step.tick [of r "r_now r + d" c depth "r_epoch_ms r"]
    by (auto simp: do_action_def split: if_splits)
next
  case Round
  then show ?thesis
    using assms by (auto simp: do_action_def split: option.splits sum.splits intro: robot_step.round)
qed (use assms in \<open>auto simp: do_action_def split: if_splits intro: robot_step.intros user_step.intros\<close>)

lemma run_script_steps:
  "(fresh_step c depth)\<^sup>*\<^sup>* r (run_script c depth as r)"
proof (induction as arbitrary: r)
  case (Cons a as)
  show ?case
  proof (cases "do_action c depth a r")
    case (Some r')
    show ?thesis
    proof (cases "r_requests r' < 100")
      case True
      then have "fresh_step c depth r r'" using do_action_step [OF Some] by (simp add: fresh_step_def id_limit_def)
      then show ?thesis using Cons.IH [of r'] Some True by (simp add: converse_rtranclp_into_rtranclp)
    qed (use Some in simp)
  qed simp
qed simp

lemma reach_steps: "reach start step s \<Longrightarrow> step\<^sup>*\<^sup>* s t \<Longrightarrow> reach start step t"
  by (rotate_tac, induction rule: rtranclp_induct) (auto intro: reach_step)

definition sampled :: "action list \<Rightarrow> robot" where
  "sampled as = run_script sample_ctx 3 as sample_start"

lemma sampled_reach: "reach (robot_start sample_ctx) (fresh_step sample_ctx 3) (sampled as)"
proof -
  have "robot_create sample_opts None 0 1000 = Inr sample_start"
    by (simp add: robot_create_def validate_opts_def sample_opts_def connect_options_default_def
        sample_start_def)
  then have "robot_start sample_ctx sample_start"
    unfolding robot_start_def by (auto simp: sample_ctx_def)
  then show ?thesis
    unfolding sampled_def using reach_steps [OF reach_start run_script_steps] by blast
qed

text \<open>Some runs: to \<open>Ready\<close>, with a stop engaged, and through a lost connection.\<close>

definition to_ready :: "action list" where
  "to_ready = [Connect, Round, Inbound [1, 0], Round]"

definition to_stopped :: "action list" where
  "to_stopped = to_ready @ [EStop ''obstacle'', Round, Inbound [2, 2], Round]"

definition to_replay :: "action list" where
  "to_replay = to_stopped @ [Lost, Round, Wait 60000000000, ReconnectTimer, Round, Inbound [3, 0], Round]"

lemma sample_ready: "r_state (sampled to_ready) = CsReady"
  by code_simp

definition to_closed :: "action list" where
  "to_closed = to_ready @ [Stop, Round]"

lemma sample_closed: "r_state (sampled to_closed) = CsShutdown"
  by code_simp

lemma sample_replay:
  "r_state (sampled to_replay) = CsReconnecting" "replaying (r_inflight (sampled to_replay))"
  by code_simp+

end
