(* ===== verification/Callbacks.thy ===== *)
theory Callbacks
  imports RobotKeeps Sample
begin

text \<open>
  What the user's state callback is told: the state changes of the robot reach it through the
  dispatcher's queue, in their order. \<open>told\<close> is the invariant over both components.
\<close>

section \<open>The changes posted\<close>

definition changes :: "task list \<Rightarrow> (conn_state \<times> conn_state) list" where
  "changes ts = concat (map (\<lambda>t. case t of TaskState h a b info \<Rightarrow> [(a, b)] | _ \<Rightarrow> []) ts)"

lemma changes_simps [simp]:
  "changes [] = []" "changes (ts @ us) = changes ts @ changes us"
  "changes (TaskState h a b info # ts) = (a, b) # changes ts" "changes (TaskLog h' lvl msg # ts) = changes ts"
  "changes (TaskStatus i ss # ts) = changes ts" "changes (TaskData i push # ts) = changes ts"
  by (simp_all add: changes_def)

definition told :: "robot \<Rightarrow> bool" where
  "told r \<longleftrightarrow> subseq (changes (accepted (r_dispatcher r))) (r_history r)
     \<and> accepted (r_dispatcher r) = executed (r_dispatcher r) @ queue (r_dispatcher r)"

lemma told_core: "core r' = core r \<Longrightarrow> told r' = told r"
  by (simp add: told_def core_def)

lemma told_post: "\<not> tells_state t \<Longrightarrow> told (post_task t r) = told r"
  by (cases t) (auto simp: told_def post_task_def disp_post_def)

lemma told_quiet [simp]:
  "told (r\<lparr>r_inflight := ps\<rparr>) = told r" "told (r\<lparr>r_subs_pending := k\<rparr>) = told r"
  "told (r\<lparr>r_robot_info := ri\<rparr>) = told r" "told (upd_metrics g r) = told r"
  "told (r\<lparr>r_stderr := lines\<rparr>) = told r" "told (r\<lparr>r_answers := as\<rparr>) = told r"
  "told (r\<lparr>r_next_slot := n\<rparr>) = told r"
  by (simp_all add: told_def upd_metrics_def)

lemma told_log [simp]: "told (post_log lvl msg r) = told r"
  by (simp add: post_log_def told_post split: option.split)

text \<open>The one operation that changes both sides.\<close>

lemma told_transition:
  assumes "told r"
  shows "told (transition_to st info r)"
proof (cases "r_state r = st")
  case False
  define r1 where "r1 = r\<lparr>r_state := st, r_history := r_history r @ [(r_state r, st)]\<rparr>"
  define r4 where "r4 = post_log LogInfo (''state transition '' @ conn_state_name (r_state r) @ '' -> '' @ conn_state_name st
      @ (if ch_reason info = [] then [] else '' ('' @ ch_reason info @ '')''))
    (if ch_error_code info \<noteq> EcOk
     then upd_metrics (\<lambda>m. m\<lparr>mt_last_error_code := ch_error_code info, mt_last_error_msg := ch_error_message info\<rparr>)
            (upd_metrics (\<lambda>m. m\<lparr>mt_last_state_change_ms := r_epoch_ms r\<rparr>) r1)
     else upd_metrics (\<lambda>m. m\<lparr>mt_last_state_change_ms := r_epoch_ms r\<rparr>) r1)"
  have "told r1" using assms by (auto simp: told_def r1_def intro: list_emb_append2 subseq_order.trans)
  then have t4: "told r4" by (simp add: r4_def)
  have same: "subseq (changes (accepted (r_dispatcher r4))) (r_history r) \<and> r_history r4 = r_history r @ [(r_state r, st)]"
    using assms by (auto simp: told_def r4_def r1_def post_log_def post_task_def disp_post_def upd_metrics_def
        split: option.split)
  have "subseq (changes (accepted (r_dispatcher r4)) @ [(r_state r, st)]) (r_history r @ [(r_state r, st)])"
    using same by (simp add: list_emb_append_mono)
  then have "told (post_task (TaskState h (r_state r) st i) r4)" for h i
    using t4 same by (auto simp: told_def post_task_def disp_post_def simp flip: append_assoc)
  moreover have "transition_to st info r
      = post_state_callback (r_state r) st (info\<lparr>ch_reconnect_attempt := r_reconnect_attempt r4\<rparr>) r4"
    using False by (simp only: transition_to_def r4_def r1_def Let_def if_False)
  ultimately show ?thesis using t4 by (simp add: post_state_callback_def split: option.split)
qed (use assms in \<open>simp add: transition_to_def\<close>)

section \<open>Every step\<close>

interpretation told_kept: kept "\<lambda>_. told"
  by (unfold_locales, rule told_core) (simp_all add: told_post told_transition)

lemma told_worker: "told r \<Longrightarrow> worker_round (r_dispatcher r) = Some d \<Longrightarrow> told (r\<lparr>r_dispatcher := d\<rparr>)"
  by (auto simp: told_def worker_round_def split: if_splits list.splits)

lemma told_step: "told r \<Longrightarrow> robot_step c depth r r' \<Longrightarrow> told r'"
  using told_kept.kept_step told_worker by blast

interpretation told: inductive_invariant "robot_start c" "fresh_step c depth" told for c depth
proof unfold_locales
  fix r assume "robot_start c r"
  then show "told r"
    by (auto simp: robot_start_def robot_create_def robot_new_def told_def dispatcher_new_def split: option.splits)
qed (auto simp: fresh_step_def intro: told_step)

lemma changes_prefix: "subseq (changes ts) h \<Longrightarrow> ts = us @ vs \<Longrightarrow> subseq (changes us) h"
  using subseq_order.trans [OF prefix_imp_subseq [OF prefixI [OF refl]]] by simp

text \<open>
  C15. What the state callback is told is what happened: in every reachable state the changes the
  dispatcher's worker has handed to the user's callback, in the order it ran them, are a subsequence of the
  state changes of the robot (all of those posted while a callback was registered and the dispatcher took
  posts), and these lead by legal changes from \<open>Idle\<close> to the current state. No change is reported that did
  not happen, none twice, and none out of order.
\<close>

theorem state_callback_in_order:
  assumes "reach (robot_start c) (fresh_step c depth) r"
  shows "subseq (changes (executed (r_dispatcher r))) (r_history r)
    \<and> changes (accepted (r_dispatcher r)) = changes (executed (r_dispatcher r)) @ changes (queue (r_dispatcher r))
    \<and> is_path CsIdle (r_history r) (r_state r)"
proof -
  have t: "told r" by (rule told.reach_inv [OF assms])
  moreover have "is_path CsIdle (r_history r) (r_state r)"
    using life_path life.reach_inv [OF assms] by blast
  ultimately show ?thesis using changes_prefix unfolding told_def by (metis changes_simps(2))
qed

text \<open>A run with a state callback, after one round of the worker.\<close>

definition watched :: robot where
  "watched = run_script sample_ctx 3 to_ready (sample_start\<lparr>r_state_handler := Some 0\<rparr>)"

definition called_back :: robot where
  "called_back = watched\<lparr>r_dispatcher := the (worker_round (r_dispatcher watched))\<rparr>"

lemma called_back_facts:
  "worker_round (r_dispatcher watched) \<noteq> None
   \<and> changes (executed (r_dispatcher called_back)) = [(CsIdle, CsConnecting)]
   \<and> r_history called_back = [(CsIdle, CsConnecting), (CsConnecting, CsReady)] \<and> r_requests called_back = 1"
  by code_simp

lemma called_back_reach: "reach (robot_start sample_ctx) (fresh_step sample_ctx 3) called_back"
proof -
  have "sampled [] = sample_start" by (simp add: sampled_def)
  then have start: "reach (robot_start sample_ctx) (fresh_step sample_ctx 3) sample_start"
    using sampled_reach [of "[]"] by simp
  have "r_requests sample_start = 0" by (simp add: sample_start_def robot_new_def)
  then have "fresh_step sample_ctx 3 sample_start (sample_start\<lparr>r_state_handler := Some 0\<rparr>)"
    by (simp add: fresh_step_def id_limit_def robot_step.user user_step.state_handler)
  from reach_steps [OF reach_step [OF start this] run_script_steps]
  have w: "reach (robot_start sample_ctx) (fresh_step sample_ctx 3) watched" by (simp add: watched_def)
  obtain d where "worker_round (r_dispatcher watched) = Some d" using called_back_facts by auto
  then have "fresh_step sample_ctx 3 watched called_back"
    using called_back_facts by (simp add: fresh_step_def id_limit_def called_back_def robot_step.worker)
  then show ?thesis using w by (rule reach_step [rotated])
qed

theorem state_callback_in_order_witness:
  "subseq [(CsIdle, CsConnecting)] (r_history called_back) \<and> length (r_history called_back) = 2"
  using state_callback_in_order [OF called_back_reach] called_back_facts by simp

end
