(* ===== verification/RobotApi.thy ===== *)
theory RobotApi
  imports RobotLoop
begin

text \<open>
  The class \<open>Robot\<close> of \<open>src/robot.cpp\<close>: every public method with what it forwards to, called from one
  of the three kinds of threads. A result may be a promise the caller waits on; the task methods turn
  its outcome into their result with \<open>create_task_result_of\<close> and \<open>task_command_result_of\<close>.
\<close>

section \<open>The public methods\<close>

datatype thread = UserThread | DispatcherThread | ControlThread

datatype api_call =
    ApiSetConnectionStateHandler "nat option"
  | ApiSetLogHandler "nat option"
  | ApiConnect
  | ApiClose
  | ApiState
  | ApiIsConnected
  | ApiInfo
  | ApiSubscribeRobotStatus double bool
  | ApiSubscribeTaskEvents bool
  | ApiSubscribeSafetyEvents bool
  | ApiCmdVel double double double
  | ApiEmergencyStop bool string
  | ApiCreateTaskToMarker string
  | ApiCreateTaskToPose double double double
  | ApiCancelTask string
  | ApiPauseTask string
  | ApiResumeTask string
  | ApiPing
  | ApiGetDiagnostics

datatype api_result =
    ResNothing
  | ResState conn_state
  | ResBool bool
  | ResInfo "robot_info option"
  | ResSubscription nat
  | ResCmdVel "cmdvel_result call"
  | ResEStop "estop_result call"
  | ResTask "rpc_outcome call"
  | ResPing "ms call"
  | ResDiagnostics "diagnostics call"

definition call_robot :: "ctx \<Rightarrow> thread \<Rightarrow> api_call \<Rightarrow> robot \<Rightarrow> api_result \<times> robot" where
  "call_robot c th call r =
    (let on_dispatcher = (th = DispatcherThread)
     in case call of
       ApiSetConnectionStateHandler h \<Rightarrow> (ResNothing, r\<lparr>r_state_handler := h\<rparr>)
     | ApiSetLogHandler h \<Rightarrow> (ResNothing, r\<lparr>r_log_sink := set_handler h (r_log_sink r)\<rparr>)
     | ApiConnect \<Rightarrow> (ResNothing, post_event EvConnect r)
     | ApiClose \<Rightarrow> (ResNothing, close_call r)
     | ApiState \<Rightarrow> (ResState (r_state r), r)
     | ApiIsConnected \<Rightarrow> (ResBool (r_state r = CsReady), r)
     | ApiInfo \<Rightarrow> (ResInfo (r_robot_info r), r)
     | ApiSubscribeRobotStatus hz cb \<Rightarrow> map_prod ResSubscription id (subscribe_robot_status c hz cb r)
     | ApiSubscribeTaskEvents cb \<Rightarrow> map_prod ResSubscription id (subscribe_task_events c cb r)
     | ApiSubscribeSafetyEvents cb \<Rightarrow> map_prod ResSubscription id (subscribe_safety_events c cb r)
     | ApiCmdVel vx vy wz \<Rightarrow> map_prod ResCmdVel id (cmd_vel_call on_dispatcher vx vy wz r)
     | ApiEmergencyStop engage reason \<Rightarrow>
         map_prod ResEStop id (emergency_stop_call on_dispatcher engage reason r)
     | ApiCreateTaskToMarker m \<Rightarrow>
         map_prod ResTask id (create_navigation_task_to_marker c m on_dispatcher r)
     | ApiCreateTaskToPose x y theta \<Rightarrow>
         map_prod ResTask id (create_navigation_task_to_pose c x y theta on_dispatcher r)
     | ApiCancelTask t \<Rightarrow> map_prod ResTask id (cancel_task c t on_dispatcher r)
     | ApiPauseTask t \<Rightarrow> map_prod ResTask id (pause_task c t on_dispatcher r)
     | ApiResumeTask t \<Rightarrow> map_prod ResTask id (resume_task c t on_dispatcher r)
     | ApiPing \<Rightarrow> map_prod ResPing id (ping_call on_dispatcher r)
     | ApiGetDiagnostics \<Rightarrow> map_prod ResDiagnostics id (get_diagnostics (th \<noteq> UserThread) r))"

section \<open>Which calls wait\<close>

definition awaits :: "'a call \<Rightarrow> nat set" where
  "awaits w = (case w of WaitsFor p \<Rightarrow> {p} | Returns _ \<Rightarrow> {})"

fun result_awaits :: "api_result \<Rightarrow> nat set" where
  "result_awaits (ResCmdVel w) = awaits w"
| "result_awaits (ResEStop w) = awaits w"
| "result_awaits (ResTask w) = awaits w"
| "result_awaits (ResPing w) = awaits w"
| "result_awaits (ResDiagnostics w) = awaits w"
| "result_awaits _ = {}"

lemma awaits_simps [simp]: "awaits (WaitsFor p) = {p}" "awaits (Returns x) = {}"
  by (simp_all add: awaits_def)

fun remote_call :: "api_call \<Rightarrow> bool" where
  "remote_call (ApiCmdVel _ _ _) = True"
| "remote_call (ApiEmergencyStop _ _) = True"
| "remote_call (ApiCreateTaskToMarker _) = True"
| "remote_call (ApiCreateTaskToPose _ _ _) = True"
| "remote_call (ApiCancelTask _) = True"
| "remote_call (ApiPauseTask _) = True"
| "remote_call (ApiResumeTask _) = True"
| "remote_call ApiPing = True"
| "remote_call _ = False"

fun throttled :: "api_call \<Rightarrow> robot \<Rightarrow> bool" where
  "throttled (ApiCmdVel _ _ _) r = (\<not> fst (try_acquire_at (r_now r) (r_cmdvel_limiter r)))"
| "throttled _ r = False"

lemmas api_defs = call_robot_def cmd_vel_call_def emergency_stop_call_def task_call_def ping_call_def
  create_navigation_task_to_marker_def create_navigation_task_to_pose_def cancel_task_def pause_task_def
  resume_task_def get_diagnostics_def subscribe_robot_status_def subscribe_task_events_def
  subscribe_safety_events_def subscribe_internal_def close_call_def new_promise_def post_event_def

lemma stat_frame [simp]:
  "r_ioc (upd_cmdvel_stat f r) = r_ioc r" "r_next_promise (upd_cmdvel_stat f r) = r_next_promise r"
  by (simp_all add: upd_cmdvel_stat_def upd_metrics_def)

text \<open>The transition system of the robot has every method of the class.\<close>

lemma api_calls_are_steps: "snd (call_robot c th call r) = r \<or> user_step c r (snd (call_robot c th call r))"
  by (cases call)
    (auto simp: call_robot_def create_navigation_task_to_marker_def create_navigation_task_to_pose_def
      cancel_task_def pause_task_def resume_task_def Let_def intro: user_step.intros)

text \<open>Only a round of the control thread sets a promise.\<close>

definition other_step :: "ctx \<Rightarrow> nat \<Rightarrow> robot \<Rightarrow> robot \<Rightarrow> bool" where
  "other_step c depth r r' \<longleftrightarrow> robot_step c depth r r' \<and> loop_round c depth r \<noteq> Some (Inr r')"

lemma answers_frame [simp]:
  "r_answers (upd_slot i f r) = r_answers r" "r_answers (upd_cmdvel_stat g r) = r_answers r"
  "r_answers (post_event e r) = r_answers r" "r_answers (put_inflight rid x r) = r_answers r"
  by (simp_all add: upd_slot_def upd_cmdvel_stat_def upd_metrics_def post_event_def put_inflight_def)

lemma user_step_answers: "user_step c r r' \<Longrightarrow> r_answers r' = r_answers r"
  by (induction rule: user_step.induct)
    (auto simp: api_defs facade_unsubscribe_def facade_destroy_def unsubscribe_request_def Let_def split: prod.splits)

lemma timer_step_answers: "timer_step r r' \<Longrightarrow> r_answers r' = r_answers r"
  by (induction rule: timer_step.induct) auto

lemma other_step_answers: "other_step c depth r r' \<Longrightarrow> r_answers r' = r_answers r"
  unfolding other_step_def
  by (auto elim!: robot_stepE dest: user_step_answers timer_step_answers)

lemma other_steps_answers: "(other_step c depth)\<^sup>*\<^sup>* r r' \<Longrightarrow> r_answers r' = r_answers r"
  by (induction rule: rtranclp_induct) (auto dest: other_step_answers)

end
