(* ===== verification/InfoKnown.thy ===== *)
theory InfoKnown
  imports Callbacks RobotApi
begin

text \<open>
  The description of the robot that \<open>info()\<close> returns: it comes with the first handshake and is there in
  every state a user may ask for it, so that a client which has seen \<open>Ready\<close> may dereference it.
\<close>

text \<open>Before the first handshake the robot is not \<open>Ready\<close>, and has nothing of a reconnect to finish.\<close>

definition info_ok :: "bool \<Rightarrow> robot \<Rightarrow> bool" where
  "info_ok b r \<longleftrightarrow> (r_robot_info r = None \<longrightarrow>
     \<not> b \<and> r_subs_pending r = 0 \<and> \<not> replaying (r_inflight r) \<and> CsReady \<notin> snd ` set (r_history r))"

lemma move_frame_known:
  "r_robot_info (transition_to st info r) = r_robot_info r"
  "r_subs_pending (transition_to st info r) = r_subs_pending r"
  "r_inflight (transition_to st info r) = r_inflight r"
  "r_history (transition_to st info r) = (if r_state r = st then r_history r else r_history r @ [(r_state r, st)])"
proof -
  show "r_robot_info (transition_to st info r) = r_robot_info r"
    "r_subs_pending (transition_to st info r) = r_subs_pending r"
    by (simp_all add: transition_to_def post_state_callback_def post_log_def post_task_def upd_metrics_def Let_def
        split: option.split)
  show "r_inflight (transition_to st info r) = r_inflight r"
    "r_history (transition_to st info r) = (if r_state r = st then r_history r else r_history r @ [(r_state r, st)])"
    using arg_cong [OF session_transition, of s_inflight st info r] arg_cong [OF session_transition, of s_history st info r]
    by (simp_all add: s_goto_def del: session_transition split: if_splits)
qed

interpretation info_kept: kept info_ok
proof unfold_locales
  show "core r' = core r \<Longrightarrow> info_ok b r' = info_ok b r" for r' r b by (simp add: info_ok_def core_def)
  show "info_ok b r \<Longrightarrow> (st = CsReady \<Longrightarrow> b) \<Longrightarrow> info_ok b (transition_to st info r)" for b r st info
    by (auto simp: info_ok_def move_frame_known)
qed (auto simp: info_ok_def post_task_def upd_metrics_def)

interpretation info: inductive_invariant "robot_start c" "fresh_step c depth" "info_ok False" for c depth
proof unfold_locales
  fix r assume "robot_start c r"
  then show "info_ok False r"
    by (auto simp: robot_start_def robot_create_def robot_new_def info_ok_def split: option.splits)
next
  fix r r' assume "info_ok False r" "fresh_step c depth r r'"
  then show "info_ok False r'"
    using info_kept.kept_step [of r False c depth r'] by (simp add: fresh_step_def info_ok_def)
qed

lemma path_to_ready: "is_path a ps CsReady \<Longrightarrow> a \<noteq> CsReady \<Longrightarrow> CsReady \<in> snd ` set ps"
  by (induction ps arbitrary: a) force+

text \<open>What the callback was told happened, so the robot has been \<open>Ready\<close>.\<close>

lemma told_ready:
  assumes "reach (robot_start c) (fresh_step c depth) r" "CsReady \<in> snd ` set (changes (executed (r_dispatcher r)))"
  shows "CsReady \<in> snd ` set (r_history r)"
proof -
  have "subseq (changes (executed (r_dispatcher r))) (r_history r)"
    using told.reach_inv [OF assms(1)] changes_prefix unfolding told_def by blast
  then have "set (changes (executed (r_dispatcher r))) \<subseteq> set (r_history r)"
    by (metis notin_set_nthsI subsetI subseq_conv_nths)
  then show ?thesis using assms(2) by blast
qed

lemma info_after_ready:
  assumes "reach (robot_start c) (fresh_step c depth) r"
    and "r_state r = CsReady \<or> CsReady \<in> snd ` set (changes (executed (r_dispatcher r)))"
  shows "r_robot_info r \<noteq> None"
proof -
  have "is_path CsIdle (r_history r) (r_state r)" using life_path life.reach_inv [OF assms(1)] by blast
  then have "CsReady \<in> snd ` set (r_history r)"
    using assms(2) told_ready [OF assms(1)] path_to_ready [of CsIdle "r_history r"] by auto
  then show ?thesis using info.reach_inv [OF assms(1)] by (auto simp: info_ok_def)
qed

text \<open>
  C16. A client that has seen \<open>Ready\<close> can ask for the robot: once the state callback has been told of a
  change to \<open>Ready\<close>, or \<open>IsConnected()\<close> returns true, \<open>info()\<close> is not empty, from any thread, whatever has
  happened to the connection since.
\<close>

theorem info_known_once_ready:
  assumes "reach (robot_start c) (fresh_step c depth) r"
    and "fst (call_robot c th ApiIsConnected r) = ResBool True
      \<or> CsReady \<in> snd ` set (changes (executed (r_dispatcher r)))"
  shows "\<exists>ri. fst (call_robot c th ApiInfo r) = ResInfo (Some ri)"
  using info_after_ready [OF assms(1)] assms(2) by (auto simp: call_robot_def)

theorem info_known_once_ready_witness:
  "r_state (sampled (to_ready @ [Lost, Round])) = CsTransientFailure
   \<and> (\<exists>ri. fst (call_robot sample_ctx UserThread ApiInfo (sampled to_ready)) = ResInfo (Some ri))"
proof -
  have "r_state (sampled (to_ready @ [Lost, Round])) = CsTransientFailure" by code_simp
  then show ?thesis
    using info_known_once_ready [OF sampled_reach, of UserThread to_ready] sample_ready by (simp add: call_robot_def)
qed

end
