(* ===== verification/Examples.thy ===== *)
theory Examples
  imports InfoKnown
begin

text \<open>
  The sample programs under \<open>examples\<close>: four clients of the class \<open>Robot\<close>, each a main thread that calls
  the robot, sleeps and waits, next to the robot's own threads. Every program is a function from its
  program point and the robot to the next point and the robot after the call it makes; \<open>None\<close> means that
  it waits. The arguments, the files and the signals are parameters; what is printed is left out.
  A program that reads \<open>*info\<close> of an empty \<open>std::optional\<close> ends in \<open>Undefined\<close>.
\<close>

section \<open>Starting\<close>

text \<open>\<open>read_file\<close> is a parameter: the contents of each path, empty when it cannot be read.\<close>

definition demo_options :: "(string \<Rightarrow> string) \<Rightarrow> string \<Rightarrow> string \<Rightarrow> string \<Rightarrow> connect_options" where
  "demo_options files client host cert_dir = connect_options_default
     \<lparr>co_host := host, co_cert_pem := files (cert_dir @ ''/cert.pem''),
      co_key_pem := files (cert_dir @ ''/key.pem''), co_ca_pem := files (cert_dir @ ''/ca.pem''),
      co_insecure_skip_verify := True, co_client_id := client\<rparr>"

text \<open>
  The arguments (without the name of the program), the options and the robot. \<open>teleop\<close> catches the
  exception of the constructor, the others end in \<open>std::terminate\<close>.
\<close>

datatype launch = Quit int | Terminate sdk_exception | Started robot

definition start_demo ::
  "bool \<Rightarrow> (string \<Rightarrow> string) \<Rightarrow> string \<Rightarrow> string list \<Rightarrow> string option \<Rightarrow> int \<Rightarrow> ms \<Rightarrow> launch" where
  "start_demo catches files client args env now epoch =
    (case args of
       host # cert_dir # _ \<Rightarrow>
         (case robot_create (demo_options files client host cert_dir) env now epoch of
            Inl e \<Rightarrow> if catches then Quit 1 else Terminate e
          | Inr r \<Rightarrow> Started r)
     | _ \<Rightarrow> Quit 1)"

definition start_teleop :: "(string \<Rightarrow> string) \<Rightarrow> string list \<Rightarrow> string option \<Rightarrow> int \<Rightarrow> ms \<Rightarrow> launch" where
  "start_teleop files = start_demo True files ''teleop-example/2.0''"

definition start_e2e :: "(string \<Rightarrow> string) \<Rightarrow> string list \<Rightarrow> string option \<Rightarrow> int \<Rightarrow> ms \<Rightarrow> launch" where
  "start_e2e files = start_demo False files ''estop-cmdvel-e2e/2.0''"

definition start_subscribe_status :: "(string \<Rightarrow> string) \<Rightarrow> string list \<Rightarrow> string option \<Rightarrow> int \<Rightarrow> ms \<Rightarrow> launch" where
  "start_subscribe_status files = start_demo False files ''subscribe-status-example/2.0''"

definition start_emergency_stop :: "(string \<Rightarrow> string) \<Rightarrow> string list \<Rightarrow> string option \<Rightarrow> int \<Rightarrow> ms \<Rightarrow> launch" where
  "start_emergency_stop files = start_demo False files ''estop-example/2.0''"

section \<open>The state callback\<close>

text \<open>The calls of the handler the program registered, number 0, by the dispatcher's worker.\<close>

fun state_calls :: "task list \<Rightarrow> (conn_state \<times> state_change_info) list" where
  "state_calls (TaskState h old_s new_s info # ts) = (if h = 0 then [(new_s, info)] else []) @ state_calls ts"
| "state_calls (_ # ts) = state_calls ts"
| "state_calls [] = []"

record demo_flags =
  df_ready :: bool
  df_fatal :: bool
  df_err :: error_code
  df_err_msg :: string

definition no_flags :: demo_flags where
  "no_flags = \<lparr>df_ready = False, df_fatal = False, df_err = EcOk, df_err_msg = []\<rparr>"

definition on_state_demo :: "conn_state \<times> state_change_info \<Rightarrow> demo_flags \<Rightarrow> demo_flags" where
  "on_state_demo call f =
    (let f1 = (if fst call = CsReady then f\<lparr>df_ready := True\<rparr> else f)
     in if fst call = CsFatal then f1\<lparr>df_fatal := True\<rparr> else f1)"

definition on_state_teleop :: "conn_state \<times> state_change_info \<Rightarrow> demo_flags \<Rightarrow> demo_flags" where
  "on_state_teleop call f =
    (if fst call = CsReady \<and> \<not> df_ready f then f\<lparr>df_ready := True\<rparr>
     else if fst call = CsFatal
     then f\<lparr>df_fatal := True, df_err := ch_error_code (snd call), df_err_msg := ch_error_message (snd call)\<rparr>
     else f)"

definition flags_of :: "(conn_state \<times> state_change_info \<Rightarrow> demo_flags \<Rightarrow> demo_flags) \<Rightarrow> robot \<Rightarrow> demo_flags" where
  "flags_of on_state r = fold on_state (state_calls (executed (r_dispatcher r))) no_flags"

section \<open>Connecting\<close>

datatype 'b point =
    AtHandler
  | AtLogHandler
  | AtConnect
  | AwaitReady int
  | Connected
  | Body 'b
  | Exited int
  | Undefined

text \<open>
  The beginning all programs share: the handlers, \<open>Connect()\<close>, and the wait of at most 30 seconds for the
  callback to set a flag. Leaving \<open>main\<close> destroys the robot, which closes it.
\<close>

definition connect_demo ::
  "bool \<Rightarrow> (conn_state \<times> state_change_info \<Rightarrow> demo_flags \<Rightarrow> demo_flags) \<Rightarrow> ctx \<Rightarrow> 'b point \<Rightarrow> robot \<Rightarrow>
    ('b point \<times> robot) option" where
  "connect_demo logs on_state c pc r =
    (case pc of
       AtHandler \<Rightarrow> Some (if logs then AtLogHandler else AtConnect,
                          snd (call_robot c UserThread (ApiSetConnectionStateHandler (Some 0)) r))
     | AtLogHandler \<Rightarrow> Some (AtConnect, snd (call_robot c UserThread (ApiSetLogHandler (Some 0)) r))
     | AtConnect \<Rightarrow> Some (AwaitReady (after_ms 30000 r), snd (call_robot c UserThread ApiConnect r))
     | AwaitReady t \<Rightarrow>
         let f = flags_of on_state r
         in if df_ready f \<or> df_fatal f \<or> t \<le> r_now r
            then (if df_ready f then Some (Connected, r) else Some (Exited 2, close_call r))
            else None
     | _ \<Rightarrow> None)"

text \<open>What a synchronous call returns, once its promise is set.\<close>

definition estop_answer :: "estop_result call \<Rightarrow> robot \<Rightarrow> estop_result option" where
  "estop_answer w r =
    (case w of Returns x \<Rightarrow> Some x
     | WaitsFor p \<Rightarrow> (case map_of (r_answers r) p of Some (AnsEStop x) \<Rightarrow> Some x | _ \<Rightarrow> None))"

definition cmdvel_answer :: "cmdvel_result call \<Rightarrow> robot \<Rightarrow> cmdvel_result option" where
  "cmdvel_answer w r =
    (case w of Returns x \<Rightarrow> Some x
     | WaitsFor p \<Rightarrow> (case map_of (r_answers r) p of Some (AnsCmdVel x) \<Rightarrow> Some x | _ \<Rightarrow> None))"

definition unsub_answer :: "error_code call \<Rightarrow> robot \<Rightarrow> error_code option" where
  "unsub_answer w r =
    (case w of Returns x \<Rightarrow> Some x
     | WaitsFor p \<Rightarrow> (case map_of (r_answers r) p of Some (AnsUnsubscribe x) \<Rightarrow> Some x | _ \<Rightarrow> None))"

section \<open>\<open>estop_cmdvel_e2e.cpp\<close>\<close>

datatype e2e =
    EEngage
  | EAwaitEngage "estop_result call"
  | ESettle1 int estop_result
  | EAwaitDrive estop_result "cmdvel_result call"
  | ESettle2 int estop_result cmdvel_result
  | EAwaitRelease estop_result cmdvel_result "estop_result call"
  | ESettle3 int estop_result cmdvel_result estop_result
  | EAwaitHalt estop_result cmdvel_result estop_result "cmdvel_result call"

definition step2_ok :: "cmdvel_result \<Rightarrow> bool" where
  "step2_ok r2 \<longleftrightarrow> \<not> cvr_accepted r2 \<and> (cvr_code r2 = EcControlEStopActive \<or> cvr_code r2 \<noteq> EcOk)"

definition step4_ok :: "cmdvel_result \<Rightarrow> bool" where
  "step4_ok r4 \<longleftrightarrow> cvr_accepted r4 \<and> cvr_code r4 = EcOk"

definition e2e_verdict :: "estop_result \<Rightarrow> cmdvel_result \<Rightarrow> estop_result \<Rightarrow> cmdvel_result \<Rightarrow> int" where
  "e2e_verdict r1 r2 r3 r4 = (if er_ok r1 \<and> step2_ok r2 \<and> er_ok r3 \<and> step4_ok r4 then 0 else 2)"

definition e2e_body :: "e2e \<Rightarrow> robot \<Rightarrow> (e2e point \<times> robot) option" where
  "e2e_body b r =
    (case b of
       EEngage \<Rightarrow>
         let (w, r') = emergency_stop_call False True ''e2e test trigger'' r in Some (Body (EAwaitEngage w), r')
     | EAwaitEngage w \<Rightarrow> map_option (\<lambda>r1. (Body (ESettle1 (after_ms 300 r) r1), r)) (estop_answer w r)
     | ESettle1 t r1 \<Rightarrow>
         if r_now r < t then None
         else let (w, r') = cmd_vel_call False (1 / 10) 0 0 r in Some (Body (EAwaitDrive r1 w), r')
     | EAwaitDrive r1 w \<Rightarrow> map_option (\<lambda>r2. (Body (ESettle2 (after_ms 300 r) r1 r2), r)) (cmdvel_answer w r)
     | ESettle2 t r1 r2 \<Rightarrow>
         if r_now r < t then None
         else let (w, r') = emergency_stop_call False False ''e2e test release'' r
              in Some (Body (EAwaitRelease r1 r2 w), r')
     | EAwaitRelease r1 r2 w \<Rightarrow> map_option (\<lambda>r3. (Body (ESettle3 (after_ms 500 r) r1 r2 r3), r)) (estop_answer w r)
     | ESettle3 t r1 r2 r3 \<Rightarrow>
         if r_now r < t then None
         else let (w, r') = cmd_vel_call False 0 0 0 r in Some (Body (EAwaitHalt r1 r2 r3 w), r')
     | EAwaitHalt r1 r2 r3 w \<Rightarrow>
         map_option (\<lambda>r4. (Exited (e2e_verdict r1 r2 r3 r4), close_call r)) (cmdvel_answer w r))"

definition e2e_next :: "ctx \<Rightarrow> bool \<Rightarrow> e2e point \<Rightarrow> robot \<Rightarrow> (e2e point \<times> robot) option" where
  "e2e_next c interrupted pc r =
    (case pc of
       Connected \<Rightarrow> Some (if r_robot_info r = None then Undefined else Body EEngage, r)
     | Body b \<Rightarrow> e2e_body b r
     | _ \<Rightarrow> connect_demo False on_state_demo c pc r)"

section \<open>\<open>emergency_stop.cpp\<close>\<close>

datatype estop_demo =
    SEngage
  | SAwaitEngage "estop_result call"
  | SHold int
  | SAwaitRelease "estop_result call"

definition estop_body :: "estop_demo \<Rightarrow> robot \<Rightarrow> (estop_demo point \<times> robot) option" where
  "estop_body b r =
    (case b of
       SEngage \<Rightarrow>
         let (w, r') = emergency_stop_call False True ''demo: triggering soft estop'' r
         in Some (Body (SAwaitEngage w), r')
     | SAwaitEngage w \<Rightarrow>
         map_option (\<lambda>r1. if \<not> er_ok r1 then (Exited 3, close_call r) else (Body (SHold (after_ms 5000 r)), r))
           (estop_answer w r)
     | SHold t \<Rightarrow>
         if r_now r < t then None
         else let (w, r') = emergency_stop_call False False ''demo end'' r in Some (Body (SAwaitRelease w), r')
     | SAwaitRelease w \<Rightarrow>
         map_option (\<lambda>r2. (Exited (if \<not> er_ok r2 then 4 else 0), close_call r)) (estop_answer w r))"

definition estop_next :: "ctx \<Rightarrow> bool \<Rightarrow> estop_demo point \<Rightarrow> robot \<Rightarrow> (estop_demo point \<times> robot) option" where
  "estop_next c interrupted pc r =
    (case pc of
       Connected \<Rightarrow> Some (Body SEngage, r)
     | Body b \<Rightarrow> estop_body b r
     | _ \<Rightarrow> connect_demo False on_state_demo c pc r)"

section \<open>\<open>subscribe_status.cpp\<close>\<close>

definition service_state_name :: "service_state \<Rightarrow> string" where
  "service_state_name s =
    (case s of
       SvIdle \<Rightarrow> ''Idle''
     | SvTask \<Rightarrow> ''Task''
     | SvMapping \<Rightarrow> ''Mapping''
     | SvStarting \<Rightarrow> ''Starting''
     | SvShuttingDown \<Rightarrow> ''ShuttingDown''
     | SvUpgrading \<Rightarrow> ''Upgrading''
     | SvRemoteControl \<Rightarrow> ''RemoteControl''
     | SvGotoCharging \<Rightarrow> ''GotoCharging''
     | SvOther _ \<Rightarrow> ''Unknown'')"

text \<open>The subscription is destroyed before the robot.\<close>

datatype status_demo =
    WLoop nat
  | WSleep nat int
  | WAwaitUnsubscribe nat "error_code call"

definition status_body :: "bool \<Rightarrow> status_demo \<Rightarrow> robot \<Rightarrow> (status_demo point \<times> robot) option" where
  "status_body interrupted b r =
    (case b of
       WLoop i \<Rightarrow>
         if \<not> interrupted then Some (Body (WSleep i (after_ms 100 r)), r)
         else let (w, r') = facade_unsubscribe True False i r in Some (Body (WAwaitUnsubscribe i w), r')
     | WSleep i t \<Rightarrow> if r_now r < t then None else Some (Body (WLoop i), r)
     | WAwaitUnsubscribe i w \<Rightarrow>
         map_option (\<lambda>err. (Exited 0, close_call (facade_destroy True i r))) (unsub_answer w r))"

definition status_next :: "ctx \<Rightarrow> bool \<Rightarrow> status_demo point \<Rightarrow> robot \<Rightarrow> (status_demo point \<times> robot) option" where
  "status_next c interrupted pc r =
    (case pc of
       Connected \<Rightarrow>
         (case r_robot_info r of
            None \<Rightarrow> Some (Undefined, r)
          | Some ri \<Rightarrow>
              if \<not> telemetry_read (ri_granted_capabilities ri) then Some (Exited 2, close_call r)
              else let (i, r') = subscribe_robot_status c 5 True r in Some (Body (WLoop i), r'))
     | Body b \<Rightarrow> status_body interrupted b r
     | _ \<Rightarrow> connect_demo False on_state_demo c pc r)"

section \<open>\<open>teleop.cpp\<close>\<close>

record teleop =
  tp_total :: u64
  tp_accepted :: u64
  tp_disconnected :: u64
  tp_next_tick :: int

datatype teleop_demo =
    TLoop teleop
  | TAwait teleop "cmdvel_result call"
  | TSleep teleop
  | TAwaitHalt teleop "cmdvel_result call"

definition count_tick :: "cmdvel_result \<Rightarrow> teleop \<Rightarrow> teleop" where
  "count_tick res t =
    (let t1 = t\<lparr>tp_total := tp_total t + 1\<rparr>;
         t2 = (if cvr_accepted res then t1\<lparr>tp_accepted := tp_accepted t1 + 1\<rparr>
               else if cvr_code res = EcDisconnected then t1\<lparr>tp_disconnected := tp_disconnected t1 + 1\<rparr>
               else t1)
     in t2\<lparr>tp_next_tick := tp_next_tick t2 + 100000000\<rparr>)"

definition teleop_body :: "bool \<Rightarrow> teleop_demo \<Rightarrow> robot \<Rightarrow> (teleop_demo point \<times> robot) option" where
  "teleop_body interrupted b r =
    (case b of
       TLoop t \<Rightarrow>
         if \<not> interrupted
         then let (w, r') = cmd_vel_call False (2 / 10) 0 0 r in Some (Body (TAwait t w), r')
         else let (w, r') = cmd_vel_call False 0 0 0 r in Some (Body (TAwaitHalt t w), r')
     | TAwait t w \<Rightarrow> map_option (\<lambda>res. (Body (TSleep (count_tick res t)), r)) (cmdvel_answer w r)
     | TSleep t \<Rightarrow> if r_now r < tp_next_tick t then None else Some (Body (TLoop t), r)
     | TAwaitHalt t w \<Rightarrow> map_option (\<lambda>res. (Exited 0, close_call r)) (cmdvel_answer w r))"

definition teleop_next :: "ctx \<Rightarrow> bool \<Rightarrow> teleop_demo point \<Rightarrow> robot \<Rightarrow> (teleop_demo point \<times> robot) option" where
  "teleop_next c interrupted pc r =
    (case pc of
       Connected \<Rightarrow>
         (case r_robot_info r of
            None \<Rightarrow> Some (Exited 2, close_call r)
          | Some ri \<Rightarrow>
              if \<not> chassis_control (ri_granted_capabilities ri) then Some (Exited 2, close_call r)
              else Some (Body (TLoop \<lparr>tp_total = 0, tp_accepted = 0, tp_disconnected = 0, tp_next_tick = r_now r\<rparr>), r))
     | Body b \<Rightarrow> teleop_body interrupted b r
     | _ \<Rightarrow> connect_demo True on_state_teleop c pc r)"

section \<open>A program and its robot\<close>

text \<open>
  The program runs next to the robot's threads, the network and the clock; a signal sets \<open>g_shutdown\<close>, which
  two of the programs read.
\<close>

inductive demo_step ::
  "(bool \<Rightarrow> 'b point \<Rightarrow> robot \<Rightarrow> ('b point \<times> robot) option) \<Rightarrow> ctx \<Rightarrow> nat \<Rightarrow>
    'b point \<times> bool \<times> robot \<Rightarrow> 'b point \<times> bool \<times> robot \<Rightarrow> bool" for nxt c depth where
  program: "nxt s p r = Some (p', r') \<Longrightarrow> demo_step nxt c depth (p, s, r) (p', s, r')"
| signal: "demo_step nxt c depth (p, s, r) (p, True, r)"
| surroundings: "fresh_step c depth r r' \<Longrightarrow> demo_step nxt c depth (p, s, r) (p, s, r')"

inductive_cases demo_stepE: "demo_step nxt c depth (p, s, r) (p', s', r')"

definition demo_start :: "launch \<Rightarrow> 'b point \<times> bool \<times> robot \<Rightarrow> bool" where
  "demo_start l st \<longleftrightarrow> (case st of (p, s, r) \<Rightarrow> p = AtHandler \<and> \<not> s \<and> l = Started r)"

section \<open>Reachable programs\<close>

lemma user_requests: "user_step c r r' \<Longrightarrow> r_requests r' = r_requests r"
  by (induction rule: user_step.induct)
    (simp_all add: step_simps subscribe_internal_def facade_destroy_def new_promise_def post_event_def upd_slot_def
      upd_cmdvel_stat_def upd_metrics_def Let_def case_prod_beta)

lemma calls_reach:
  assumes "(user_step c)\<^sup>*\<^sup>* r r'" "reach (robot_start c) (fresh_step c depth) r"
  shows "reach (robot_start c) (fresh_step c depth) r'"
  using assms
proof (induction rule: rtranclp_induct)
  case (step r1 r2)
  then have r1: "reach (robot_start c) (fresh_step c depth) r1" by blast
  then have "r_requests r1 < id_limit" using life.reach_inv [OF r1] by (simp add: life_inv_def wrapped_def)
  then have "fresh_step c depth r1 r2"
    using user_requests [OF step.hyps(2)] step.hyps(2) by (simp add: fresh_step_def robot_step.user)
  with r1 show ?case by (rule reach_step)
qed

text \<open>Subscriptions stay, and so do the promises that were set.\<close>

interpretation slots_kept: kept "\<lambda>_ r. n \<le> r_next_slot r" for n
proof unfold_locales
  show "core r' = core r \<Longrightarrow> (n \<le> r_next_slot r') = (n \<le> r_next_slot r)" for r' r by (simp add: core_def)
  show "n \<le> r_next_slot r \<Longrightarrow> n \<le> r_next_slot (transition_to st info r)" for r st info
    using arg_cong [OF session_transition, of s_next_slot st info r] by (simp del: session_transition)
qed (simp_all add: post_task_def upd_metrics_def)

interpretation answers_kept: kept "\<lambda>_ r. map_of (r_answers r) p = Some a" for p a
proof unfold_locales
  show "core r' = core r \<Longrightarrow> (map_of (r_answers r') p = Some a) = (map_of (r_answers r) p = Some a)" for r' r
    by (simp add: core_def)
  show "map_of (r_answers r) p = Some a \<Longrightarrow> map_of (r_answers (transition_to st info r)) p = Some a" for r st info
    by (simp add: transition_to_def post_state_callback_def post_log_def post_task_def upd_metrics_def Let_def
        split: option.split)
qed (auto simp: post_task_def upd_metrics_def)

lemma fresh_kept:
  assumes "fresh_step c depth r r'"
  shows "r_next_slot r \<le> r_next_slot r'" "map_of (r_answers r) p = Some a \<Longrightarrow> map_of (r_answers r') p = Some a"
    "r_robot_info r \<noteq> None \<Longrightarrow> r_robot_info r' \<noteq> None"
proof -
  have s: "robot_step c depth r r'" using assms by (simp add: fresh_step_def)
  show "r_next_slot r \<le> r_next_slot r'" by (rule slots_kept.kept_step [OF _ _ s]) simp_all
  show "map_of (r_answers r) p = Some a \<Longrightarrow> map_of (r_answers r') p = Some a"
    by (rule answers_kept.kept_step [OF _ _ s]) simp_all
  show "r_robot_info r \<noteq> None \<Longrightarrow> r_robot_info r' \<noteq> None"
    using info_kept.kept_step [of r True c depth r'] s by (simp add: info_ok_def)
qed

end
