(* ===== verification/Ledger.thy ===== *)
theory Ledger
  imports RobotLife "HOL-Library.Multiset"
begin

text \<open>
  Who owes an answer. Every synchronous call that waits has a promise; the promise is carried by a
  handler in the queue, then by the entry of a call in flight, then it is set. \<open>balanced\<close> says that each
  promise handed out is in exactly one of these places, and the lemmas that every handler keeps the
  balance and never sets a promise twice.
\<close>

section \<open>The books\<close>

fun owes :: "completion \<Rightarrow> nat multiset" where
  "owes (CUnsubscribe _ p) = {#p#}"
| "owes (CCmdVel _ p) = {#p#}"
| "owes (CEStop _ _ _ p) = {#p#}"
| "owes (CInvoke p) = {#p#}"
| "owes (CPing _ p) = {#p#}"
| "owes _ = {#}"

fun event_owes :: "event \<Rightarrow> nat multiset" where
  "event_owes (EvUnsubSync _ p) = {#p#}"
| "event_owes (EvCmdVel _ _ _ _ _ p) = {#p#}"
| "event_owes (EvEStop _ _ _ p) = {#p#}"
| "event_owes (EvInvoke _ _ _ p) = {#p#}"
| "event_owes (EvPing _ p) = {#p#}"
| "event_owes (EvDiagnostics p) = {#p#}"
| "event_owes _ = {#}"

definition inflight_owes :: "(u64 \<times> inflight_rpc) list \<Rightarrow> nat multiset" where
  "inflight_owes ps = sum_list (map (\<lambda>p. owes (ir_on_complete (snd p))) ps)"

definition queue_owes :: "event list \<Rightarrow> nat multiset" where
  "queue_owes es = sum_list (map event_owes es)"

definition answered :: "robot \<Rightarrow> nat multiset" where
  "answered r = mset (map fst (r_answers r))"

lemma owes_simps [simp]:
  "inflight_owes [] = {#}" "inflight_owes (p # ps) = owes (ir_on_complete (snd p)) + inflight_owes ps"
  "queue_owes [] = {#}" "queue_owes (e # es) = event_owes e + queue_owes es"
  "queue_owes (es @ fs) = queue_owes es + queue_owes fs"
  by (simp_all add: inflight_owes_def queue_owes_def)

type_synonym ledger = "(u64 \<times> inflight_rpc) list \<times> event list \<times> (nat \<times> answer) list \<times> nat \<times> nat \<times> u64 \<times> bool"

definition ledger :: "robot \<Rightarrow> ledger" where
  "ledger r = (r_inflight r, r_ioc r, r_answers r, r_next_promise r, r_requests r, r_next_request_id r, r_loop_done r)"

definition ids_fit :: "robot \<Rightarrow> bool" where
  "ids_fit r \<longleftrightarrow> distinct (map fst (r_inflight r)) \<and> (\<forall>k\<in>set (map fst (r_inflight r)). unat k \<le> r_requests r)
     \<and> r_next_request_id r = of_nat (Suc (r_requests r))"

text \<open>\<open>m\<close> are the promises in the hands of the handler that is running, those in flight included.\<close>

definition books :: "nat multiset \<Rightarrow> robot \<Rightarrow> bool" where
  "books m r \<longleftrightarrow> m + queue_owes (r_ioc r) + answered r = mset [0..<r_next_promise r]"

text \<open>A replay in flight is there without a call of the user.\<close>

definition alone :: "(u64 \<times> inflight_rpc) list \<Rightarrow> bool" where
  "alone ps \<longleftrightarrow> (replaying ps \<longrightarrow> inflight_owes ps = {#})"

definition fair :: "nat multiset \<Rightarrow> robot \<Rightarrow> bool" where
  "fair m r \<longleftrightarrow> alone (r_inflight r) \<and> books (m + inflight_owes (r_inflight r)) r"

text \<open>The state inside a handler, with the queue \<open>q\<close> behind it, and the state between two handlers.\<close>

definition balanced :: "event list \<Rightarrow> nat multiset \<Rightarrow> robot \<Rightarrow> bool" where
  "balanced q m r \<longleftrightarrow> ids_fit r \<and> r_ioc r = q \<and> fair m r"

definition settled :: "robot \<Rightarrow> bool" where
  "settled r \<longleftrightarrow> ids_fit r \<and> fair {#} r"

lemma balanced_cong:
  assumes "ledger r' = ledger r"
  shows "balanced q m r' = balanced q m r"
  using assms by (simp add: ledger_def balanced_def fair_def ids_fit_def books_def answered_def)

lemma books_cong:
  assumes "ledger r' = ledger r"
  shows "books m r' = books m r"
  using assms by (simp add: ledger_def books_def answered_def)

lemma ledger_eqD:
  assumes "ledger r' = ledger r"
  shows "r_inflight r' = r_inflight r" "r_requests r' = r_requests r" "r_ioc r' = r_ioc r"
    "r_answers r' = r_answers r" "r_next_promise r' = r_next_promise r" "r_loop_done r' = r_loop_done r"
  using assms by (simp_all add: ledger_def)

text \<open>An outcome that is not a second answer, and whose state satisfies \<open>P\<close>.\<close>

definition good :: "(robot \<Rightarrow> bool) \<Rightarrow> robot outcome \<Rightarrow> bool" where
  "good P m \<longleftrightarrow> (case m of Inl x \<Rightarrow> x \<noteq> PromiseSatisfied | Inr r \<Rightarrow> P r)"

lemma good_simps [simp]: "good P (Inr r) = P r" "good P (Inl x) = (x \<noteq> PromiseSatisfied)"
  by (simp_all add: good_def)

lemma good_obind:
  assumes "good P m" "\<And>r. m = Inr r \<Longrightarrow> P r \<Longrightarrow> good Q (f r)"
  shows "good Q (obind m f)"
  using assms by (cases m) simp_all

lemma good_mono: "good P m \<Longrightarrow> (\<And>r. m = Inr r \<Longrightarrow> P r \<Longrightarrow> Q r) \<Longrightarrow> good Q m"
  by (cases m) simp_all

text \<open>An outcome that is no crash at all.\<close>

definition fine :: "(robot \<Rightarrow> bool) \<Rightarrow> robot outcome \<Rightarrow> bool" where
  "fine P m \<longleftrightarrow> (\<exists>r. m = Inr r \<and> P r)"

lemma fine_simps [simp]: "fine P (Inr r) = P r" "\<not> fine P (Inl x)"
  by (simp_all add: fine_def)

lemma fine_good: "fine P m \<Longrightarrow> good P m"
  by (auto simp: fine_def)

lemma fine_obind:
  assumes "fine P m" "\<And>r. P r \<Longrightarrow> fine Q (f r)"
  shows "fine Q (obind m f)"
  using assms by (auto simp: fine_def)

lemma fine_mono: "fine P m \<Longrightarrow> (\<And>r. P r \<Longrightarrow> Q r) \<Longrightarrow> fine Q m"
  by (auto simp: fine_def)

section \<open>Operations that leave the books alone\<close>

lemma ledger_upd [simp]:
  "ledger (r\<lparr>r_state := st\<rparr>) = ledger r"
  "ledger (r\<lparr>r_work_guard := b\<rparr>) = ledger r"
  "ledger (r\<lparr>r_shutdown_requested := b\<rparr>) = ledger r"
  "ledger (r\<lparr>r_dispatcher := d\<rparr>) = ledger r"
  "ledger (r\<lparr>r_log_sink := l\<rparr>) = ledger r"
  "ledger (r\<lparr>r_state_handler := h\<rparr>) = ledger r"
  "ledger (r\<lparr>r_ws := w\<rparr>) = ledger r"
  "ledger (r\<lparr>r_next_conn := n\<rparr>) = ledger r"
  "ledger (r\<lparr>r_robot_info := ri\<rparr>) = ledger r"
  "ledger (r\<lparr>r_active_subs := act\<rparr>) = ledger r"
  "ledger (r\<lparr>r_slots := sls\<rparr>) = ledger r"
  "ledger (r\<lparr>r_next_slot := n\<rparr>) = ledger r"
  "ledger (r\<lparr>r_inflight_sub := isub\<rparr>) = ledger r"
  "ledger (r\<lparr>r_sub_ack_timers := sts\<rparr>) = ledger r"
  "ledger (r\<lparr>r_heartbeat := hb\<rparr>) = ledger r"
  "ledger (r\<lparr>r_idle_timer := t\<rparr>) = ledger r"
  "ledger (r\<lparr>r_ping_timer := t\<rparr>) = ledger r"
  "ledger (r\<lparr>r_reconnect_attempt := a\<rparr>) = ledger r"
  "ledger (r\<lparr>r_reconnect_total := k\<rparr>) = ledger r"
  "ledger (r\<lparr>r_reconnect_timer := rt\<rparr>) = ledger r"
  "ledger (r\<lparr>r_estop_engaged := b\<rparr>) = ledger r"
  "ledger (r\<lparr>r_estop_reason := msg\<rparr>) = ledger r"
  "ledger (r\<lparr>r_subs_pending := k\<rparr>) = ledger r"
  "ledger (r\<lparr>r_estop_pending := b\<rparr>) = ledger r"
  "ledger (r\<lparr>r_failure_code := e\<rparr>) = ledger r"
  "ledger (r\<lparr>r_failure_message := msg\<rparr>) = ledger r"
  "ledger (r\<lparr>r_cmdvel_limiter := tb\<rparr>) = ledger r"
  "ledger (r\<lparr>r_cmdvel_seq := k\<rparr>) = ledger r"
  "ledger (r\<lparr>r_metrics := mt\<rparr>) = ledger r"
  "ledger (r\<lparr>r_wire := wire\<rparr>) = ledger r"
  "ledger (r\<lparr>r_inline_calls := ics\<rparr>) = ledger r"
  "ledger (r\<lparr>r_stderr := lines\<rparr>) = ledger r"
  "ledger (r\<lparr>r_history := hist\<rparr>) = ledger r"
  "ledger (r\<lparr>r_looks := n\<rparr>) = ledger r"
  "ledger (r\<lparr>r_draws := n\<rparr>) = ledger r"
  "ledger (r\<lparr>r_now := now\<rparr>) = ledger r"
  "ledger (r\<lparr>r_epoch_ms := now\<rparr>) = ledger r"
  by (simp_all add: ledger_def answered_def)

lemma ledger_quiet [simp]:
  "ledger (upd_slot i g r) = ledger r"
  "ledger (upd_metrics f r) = ledger r"
  "ledger (upd_heartbeat h r) = ledger r"
  "ledger (post_task t r) = ledger r"
  "ledger (count_bytes_sent b r) = ledger r"
  by (simp_all add: upd_slot_def upd_metrics_def upd_heartbeat_def post_task_def count_bytes_sent_def)

lemma ledger_logging [simp]:
  "ledger (post_state_callback s1 s2 info r) = ledger r"
  "ledger (post_log lvl msg r) = ledger r"
  "ledger (fire_status i k gap err reason r) = ledger r"
  "ledger (ws_close_reset r) = ledger r"
  by (simp_all add: post_state_callback_def post_log_def fire_status_def ws_close_reset_def split: option.split)

lemma ledger_transition [simp]: "ledger (transition_to st info r) = ledger r"
proof -
  have "ledger (r\<lparr>r_state := st, r_history := h\<rparr>) = ledger r" for h by (simp add: ledger_def answered_def)
  then show ?thesis by (simp add: transition_to_def Let_def)
qed

lemma ledger_looks [simp]:
  "ledger (snd (ws_post_call c n b r)) = ledger r"
  "ledger (snd (send_or_fail c b r)) = ledger r"
  "ledger (snd (ws_is_open c r)) = ledger r"
  "ledger (snd (next_backoff c attempt r)) = ledger r"
  by (auto simp: ws_post_call_def send_or_fail_def ws_is_open_def next_backoff_def Let_def split: option.split)

lemma ledger_looksD:
  "send_or_fail c b r = (ok, r') \<Longrightarrow> ledger r' = ledger r"
  "ws_is_open c r = (ok, r') \<Longrightarrow> ledger r' = ledger r"
  "next_backoff c attempt r = (d, r') \<Longrightarrow> ledger r' = ledger r"
  using ledger_looks by (metis snd_conv)+

lemma ledger_slots [simp]:
  "ledger (close_slot code reason i r) = ledger r"
  "ledger (pause_slot code reason i r) = ledger r"
  "ledger (close_and_drop i code reason r) = ledger r"
  "ledger (drop_one i r) = ledger r"
  "ledger (hand_over i push r) = ledger r"
  "ledger (deliver_push i push r) = ledger r"
  "ledger (buffer_push i push r) = ledger r"
proof -
  show drop: "ledger (drop_one i r) = ledger r" for r by (simp add: drop_one_def)
  show hand: "ledger (hand_over i push r) = ledger r" for r
    by (simp add: hand_over_def slide_hz_buckets_def Let_def)
  show "ledger (deliver_push i push r) = ledger r" by (simp add: deliver_push_def Let_def hand)
  show "ledger (buffer_push i push r) = ledger r" by (simp add: buffer_push_def Let_def drop)
qed (simp_all add: close_slot_def pause_slot_def close_and_drop_def Let_def)

lemma ledger_folds [simp]:
  "ledger (fold (\<lambda>(topic, i). close_slot code reason i) ps r) = ledger r"
  "ledger (fold (\<lambda>(topic, i). pause_slot code reason i) ps r) = ledger r"
  by (induction ps arbitrary: r) auto

lemma ledger_drain_frames [simp]: "ledger (drain_frames i k ps r) = ledger r"
  by (induction ps arbitrary: r) (simp_all add: Let_def)

lemma ledger_parts [simp]:
  "ledger (pause_all_subs code msg r) = ledger r"
  "ledger (drain_pending_buffer i k r) = ledger r"
  "ledger (handle_sdk_topic_push push r) = ledger r"
  "ledger (reconnect_sub_done r) = ledger r"
  "ledger (reset_liveness_on_inbound r) = ledger r"
  "ledger (start_heartbeat c r) = ledger r"
  "ledger (record_rtt rtt r) = ledger r"
  "ledger (upd_cmdvel_stat f r) = ledger r"
  "ledger (upd_estop_stat f r) = ledger r"
  "ledger (register_subscribe c rid i since r) = ledger r"
  "ledger (unregister_subscribe rid i r) = ledger r"
  by (simp_all add: pause_all_subs_def drain_pending_buffer_def handle_sdk_topic_push_def
      reconnect_sub_done_def reset_liveness_on_inbound_def start_heartbeat_def record_rtt_def
      upd_cmdvel_stat_def upd_estop_stat_def register_subscribe_def unregister_subscribe_def Let_def
      split: option.split sub_state.split)

lemma ledger_activate [simp]: "ledger (activate i kind gap new_last next_seq r) = ledger r"
  by (simp add: activate_def Let_def)

lemma ledger_stats [simp]: "ledger (snd (subscription_stats ps r)) = ledger r"
  by (induction ps r rule: subscription_stats.induct)
    (simp_all add: slide_hz_buckets_def Let_def case_prod_beta)

lemma ledger_full_diagnostics [simp]: "ledger (snd (full_diagnostics r)) = ledger r"
  by (simp add: full_diagnostics_def Let_def case_prod_beta)

end
