(* ===== verification/Promises.thy ===== *)
theory Promises
  imports Ledger
begin

text \<open>
  Every handler keeps the books of the promises: it passes the promise it was given on or sets it
  once. The nested completions are settled by induction on the stack, then the handlers one by one.
\<close>

section \<open>Setting a promise\<close>

definition carried :: "robot \<Rightarrow> robot \<Rightarrow> bool" where
  "carried r r' \<longleftrightarrow> r_inflight r' \<in> {r_inflight r, []} \<and> r_ioc r' = r_ioc r \<and> r_requests r' = r_requests r
     \<and> r_next_request_id r' = r_next_request_id r"

lemma carried_refl [simp]: "carried r r"
  by (simp add: carried_def)

lemma carried_ioc: "carried r r' \<Longrightarrow> r_ioc r' = r_ioc r"
  by (simp add: carried_def)

lemma carried_trans: "carried r1 r2 \<Longrightarrow> carried r2 r3 \<Longrightarrow> carried r1 r3"
  by (auto simp: carried_def)

lemma carried_cong:
  assumes "ledger r1 = ledger r" "ledger r1' = ledger r'"
  shows "carried r1 r1' = carried r r'"
  using assms by (simp add: ledger_def carried_def)

lemma carried_ledger: "ledger r' = ledger r \<Longrightarrow> carried r r'"
  by (simp add: ledger_def carried_def)

lemma unset_promise:
  assumes "books (add_mset p m) r"
  shows "map_of (r_answers r) p = None"
proof -
  have "count (add_mset p m + queue_owes (r_ioc r) + answered r) p \<le> 1"
    using assms by (simp add: books_def count_mset_set')
  then have "p \<notin># answered r" by (simp add: not_in_iff)
  then show ?thesis by (simp add: answered_def map_of_eq_None_iff)
qed

lemma set_value_fine:
  assumes "books (add_mset p m) r" "ledger r1 = ledger r"
  shows "fine (\<lambda>r'. books m r' \<and> carried r r' \<and> r_inflight r' = r_inflight r) (set_value p a r1)"
proof -
  have b: "books (add_mset p m) r1" using assms(1) unfolding books_cong [OF assms(2)] .
  from unset_promise [OF this] have "set_value p a r1 = Inr (r1\<lparr>r_answers := (p, a) # r_answers r1\<rparr>)"
    by (simp add: set_value_def)
  moreover have "books m (r1\<lparr>r_answers := (p, a) # r_answers r1\<rparr>)"
    using b by (simp add: books_def answered_def)
  moreover have "r_inflight r1 = r_inflight r" "carried r r1"
    using ledger_eqD(1) [OF assms(2)] carried_ledger [OF assms(2)] by simp_all
  ultimately show ?thesis by (simp add: carried_def)
qed

lemma set_value_then:
  assumes "books (add_mset p m) r" "ledger r1 = ledger r" "\<And>s. ledger (f s) = ledger s"
  shows "fine (\<lambda>r'. books m r' \<and> carried r r' \<and> r_inflight r' = r_inflight r)
    (obind (set_value p a r1) (\<lambda>s. Inr (f s)))"
proof (rule fine_obind [OF set_value_fine [OF assms(1,2)]])
  fix s assume s: "books m s \<and> carried r s \<and> r_inflight s = r_inflight r"
  have "books m (f s)" "carried s (f s)" "r_inflight (f s) = r_inflight s"
    using s books_cong [OF assms(3)] carried_ledger [OF assms(3)] ledger_eqD(1) [OF assms(3)] by blast+
  then show "fine (\<lambda>r'. books m r' \<and> carried r r' \<and> r_inflight r' = r_inflight r) (Inr (f s))"
    using s carried_trans [of r s] by simp
qed

section \<open>The completions of calls that fail\<close>

lemma unsubscribe_closes_ledger:
  "ledger (case map_of (r_active_subs r) topic of None \<Rightarrow> r
     | Some i \<Rightarrow> let ra = fire_status i StClosed None code msg
           (upd_slot i (\<lambda>s. s\<lparr>sl_state := SubClosed, sl_error_code := code\<rparr>) r)
         in ra\<lparr>r_active_subs := std_map_erase topic (r_active_subs ra)\<rparr>) = ledger r"
  by (simp add: Let_def split: option.split)

text \<open>A call of the user, answered with success or failure; a handshake or a ping that failed.\<close>

definition plain :: "error_code \<Rightarrow> completion \<Rightarrow> bool" where
  "plain err lam \<longleftrightarrow> lam \<noteq> CEStopReplay \<and> (err = EcOk \<longrightarrow> (\<forall>b. lam \<noteq> CHandshake b))"

lemma plain_completion:
  assumes "books (owes lam + m) r" "plain err lam"
  shows "fine (\<lambda>r'. books m r' \<and> carried r r' \<and> r_inflight r' = r_inflight r) (on_complete_body c oc lam resp err r)"
proof (cases lam)
  case (CUnsubscribe topic p)
  then show ?thesis
    using assms set_value_fine [where r = r and p = p and m = m] unsubscribe_closes_ledger
    by (simp add: on_complete_body_def complete_unsubscribe_def Let_def)
next
  case (CCmdVel t0 p)
  then show ?thesis
    using assms set_value_fine [where r = r and p = p and m = m]
    by (simp add: on_complete_body_def complete_cmd_vel_def Let_def)
next
  case (CEStop engage reason t0 p)
  then show ?thesis
    using assms set_value_fine [where r = r and p = p and m = m]
    by (simp add: on_complete_body_def complete_estop_def Let_def)
next
  case (CInvoke p)
  then show ?thesis using assms set_value_fine [where r = r and p = p and m = m]
    by (simp add: on_complete_body_def)
next
  case (CPing t0 p)
  then show ?thesis using assms set_value_fine [where r = r and p = p and m = m]
    by (simp add: on_complete_body_def)
next
  case (CHandshake b)
  then have "err \<noteq> EcOk" using assms(2) by (auto simp: plain_def)
  then show ?thesis using assms CHandshake by (simp add: on_complete_body_def complete_handshake_def)
next
  case (CHeartbeat t)
  have same: "ledger (record_rtt d r) = ledger r" for d by simp
  show ?thesis using assms CHeartbeat books_cong [OF same] carried_ledger [OF same] ledger_eqD(1) [OF same]
    by (simp add: on_complete_body_def)
qed (use assms in \<open>simp_all add: on_complete_body_def plain_def\<close>)

section \<open>Losing everything in flight\<close>

text \<open>What a completion owes to its caller when the call failed, whatever the stack.\<close>

definition failing_ok :: "on_complete_fn \<Rightarrow> bool" where
  "failing_ok oc \<longleftrightarrow> (\<forall>lam resp err m r. err \<noteq> EcOk \<longrightarrow> books (owes lam + m) r \<longrightarrow>
     (lam = CEStopReplay \<longrightarrow> inflight_owes (r_inflight r) = {#}) \<longrightarrow>
     good (\<lambda>r'. books m r' \<and> carried r r') (oc lam resp err r))"

lemma failing_okD:
  assumes "failing_ok oc" "err \<noteq> EcOk" "books (owes lam + m) r"
    "lam = CEStopReplay \<Longrightarrow> inflight_owes (r_inflight r) = {#}"
  shows "good (\<lambda>r'. books m r' \<and> carried r r') (oc lam resp err r)"
  using assms unfolding failing_ok_def by blast

definition settles :: "nat multiset \<Rightarrow> robot \<Rightarrow> robot outcome \<Rightarrow> bool" where
  "settles m r out \<longleftrightarrow> good (\<lambda>r'. fair m r' \<and> carried r r') out"

lemma complete_all_good:
  assumes oc: "failing_ok oc" and err: "err \<noteq> EcOk \<or> ps = []"
    and replay: "replaying ps \<longrightarrow> inflight_owes (r_inflight r) = {#}"
    and books: "books (inflight_owes ps + m) r"
  shows "good (\<lambda>r'. books m r' \<and> carried r r') (complete_all oc resp err ps r)"
  using err replay books
proof (induction ps arbitrary: r)
  case (Cons p ps)
  obtain rid rpc where p: "p = (rid, rpc)" by (cases p)
  have err: "err \<noteq> EcOk" using Cons.prems(1) by simp
  have later: "good (\<lambda>r'. books m r' \<and> carried r r') (complete_all oc resp err ps r1)"
    if "books (inflight_owes ps + m) r1" "carried r r1" for r1
  proof -
    have "replaying ps \<longrightarrow> inflight_owes (r_inflight r1) = {#}"
      using Cons.prems(2) that(2) by (auto simp: replaying_def carried_def)
    from Cons.IH [OF _ this that(1)] err show ?thesis
      by (rule_tac good_mono) (use carried_trans [OF that(2)] in auto)
  qed
  show ?case
  proof (cases "ir_on_complete rpc = CNone")
    case True
    then show ?thesis using later [of r] Cons.prems(3) by (simp add: p)
  next
    case False
    have "good (\<lambda>r1. books (inflight_owes ps + m) r1 \<and> carried r r1) (oc (ir_on_complete rpc) resp err r)"
    proof (rule failing_okD [OF oc err])
      show "books (owes (ir_on_complete rpc) + (inflight_owes ps + m)) r"
        using Cons.prems(3) by (simp add: p ac_simps)
      show "inflight_owes (r_inflight r) = {#}" if "ir_on_complete rpc = CEStopReplay"
        using Cons.prems(2) that by (simp add: p replaying_def)
    qed
    then show ?thesis using False later unfolding p complete_all.simps
      by (auto intro!: good_obind [where P = "\<lambda>r1. books (inflight_owes ps + m) r1 \<and> carried r r1"])
  qed
qed simp

lemma fair_cong:
  assumes "ledger r' = ledger r"
  shows "fair m r' = fair m r"
  using assms by (simp add: ledger_def fair_def books_def answered_def)

lemma fair_emptied: "books m r \<Longrightarrow> r_inflight r = [] \<Longrightarrow> fair m r"
  by (simp add: fair_def alone_def)

text \<open>Complete everything, empty the map, and go on without touching the books.\<close>

lemma settle_all:
  assumes oc: "failing_ok oc" and err: "err \<noteq> EcOk \<or> r_inflight r = []" and bal: "fair m r"
    and r1: "ledger r1 = ledger r"
    and rest: "\<And>r2. fair m (r2\<lparr>r_inflight := []\<rparr>) \<Longrightarrow> settles m (r2\<lparr>r_inflight := []\<rparr>) (f r2)"
  shows "settles m r (obind (complete_all oc resp err (r_inflight r1) r1) f)"
  unfolding settles_def
proof (rule good_obind)
  note l = ledger_eqD [OF r1]
  have b: "fair m r1" using bal unfolding fair_cong [OF r1] .
  show "good (\<lambda>r'. books m r' \<and> carried r1 r') (complete_all oc resp err (r_inflight r1) r1)"
    using b err l(1) by (intro complete_all_good [OF oc]) (simp_all add: fair_def alone_def ac_simps)
  fix r2 assume r2: "books m r2 \<and> carried r1 r2"
  have "books m (r2\<lparr>r_inflight := []\<rparr>)" using r2 by (simp add: books_def answered_def)
  then have "fair m (r2\<lparr>r_inflight := []\<rparr>)" by (rule fair_emptied) simp
  then have "good (\<lambda>r'. fair m r' \<and> carried (r2\<lparr>r_inflight := []\<rparr>) r') (f r2)" using rest by (simp add: settles_def)
  moreover have "carried r (r2\<lparr>r_inflight := []\<rparr>)"
    using r2 carried_cong [OF r1 refl] by (auto simp: carried_def)
  ultimately show "good (\<lambda>r'. fair m r' \<and> carried r r') (f r2)"
    using carried_trans by (auto elim!: good_mono)
qed

lemma settles_ledger: "fair m r \<Longrightarrow> ledger r' = ledger r \<Longrightarrow> settles m r (Inr r')"
  using fair_cong [of r' r m] carried_ledger [of r' r] by (simp add: settles_def)

lemma abort_settles:
  assumes "failing_ok oc" "err \<noteq> EcOk \<or> r_inflight r = []" "fair m r"
  shows "settles m r (abort_to_fatal oc err msg r)"
  unfolding abort_to_fatal_def Let_def
proof (rule settle_all [OF assms])
  fix r2 :: robot assume "fair m (r2\<lparr>r_inflight := []\<rparr>)"
  then show "settles m (r2\<lparr>r_inflight := []\<rparr>) (Inr (transition_to CsFatal (change_info msg err msg 0
      (r_reconnect_attempt (ws_close_reset (upd_heartbeat (\<lambda>h. h\<lparr>hb_ping_deadline_active := False\<rparr>)
        (r2\<lparr>r_inflight := [], r_sub_ack_timers := [], r_inflight_sub := [], r_idle_timer := None,
             r_ping_timer := None, r_reconnect_timer := None\<rparr>)))) [])
      (ws_close_reset (upd_heartbeat (\<lambda>h. h\<lparr>hb_ping_deadline_active := False\<rparr>)
        (r2\<lparr>r_inflight := [], r_sub_ack_timers := [], r_inflight_sub := [], r_idle_timer := None,
             r_ping_timer := None, r_reconnect_timer := None\<rparr>)))))"
    by (rule settles_ledger) simp
qed simp

lemma settles_after:
  assumes "ledger r1 = ledger r" "settles m r1 out"
  shows "settles m r out"
  using assms(2) carried_cong [OF assms(1) refl] by (simp add: settles_def)

lemma do_reconnect_settles:
  assumes "failing_ok oc" "fair m r"
  shows "settles m r (do_reconnect c oc attempt r)"
proof -
  obtain d r1 where b: "next_backoff c (attempt - 1) r = (d, r1)" by fastforce
  have "ledger r1 = ledger r" using ledger_looksD(3) [OF b] .
  then have "settles m r (Inr (r1\<lparr>r_reconnect_attempt := attempt - 1, r_reconnect_timer := t\<rparr>))" for t
    using assms(2) by (intro settles_ledger) simp_all
  then show ?thesis
    using settles_ledger [OF assms(2) refl] abort_settles [OF assms(1) _ assms(2)]
    by (simp add: do_reconnect_def b Let_def)
qed

lemma fail_settles:
  assumes "failing_ok oc" "fair m r"
  shows "settles m r (fail_and_reconnect c oc what code msg reset r)"
proof -
  obtain d r1 where b: "next_backoff c (r_reconnect_attempt r) r = (d, r1)" by fastforce
  have l: "ledger r1 = ledger r" using ledger_looksD(3) [OF b] .
  have "settles m r (do_reconnect c oc attempt r3)" if "ledger r3 = ledger r" for r3 attempt
    using settles_after [OF that do_reconnect_settles [OF assms(1)]] assms(2) fair_cong [OF that] by simp
  then show ?thesis using l by (simp add: fail_and_reconnect_def b Let_def)
qed

lemma close_settles:
  assumes "failing_ok oc" "reason \<noteq> EcOk \<or> r_inflight r = []" "fair m r"
  shows "settles m r (on_transport_close c oc reason msg r)"
proof (cases "r_state r = CsShutdown \<or> r_state r = CsFatal")
  case True
  then show ?thesis using assms(3) by (auto simp: on_transport_close_def settles_def)
next
  case False
  have "settles m (r2\<lparr>r_inflight := []\<rparr>)
      (do_reconnect c oc (r_reconnect_attempt (mark_lost c reason msg r2) + 1) (mark_lost c reason msg r2))"
    if "fair m (r2\<lparr>r_inflight := []\<rparr>)" for r2
  proof -
    have l: "ledger (mark_lost c reason msg r2) = ledger (r2\<lparr>r_inflight := []\<rparr>)"
      by (simp add: mark_lost_def Let_def case_prod_beta)
    then show ?thesis
      using settles_after [OF l do_reconnect_settles [OF assms(1)]] that fair_cong [OF l] by simp
  qed
  then have "settles m r (obind (complete_all oc (fake_response reason msg) reason
      (r_inflight (pause_all_subs reason msg r)) (pause_all_subs reason msg r))
      (\<lambda>r2. do_reconnect c oc (r_reconnect_attempt (mark_lost c reason msg r2) + 1) (mark_lost c reason msg r2)))"
    by (intro settle_all [OF assms]) simp_all
  then show ?thesis using False by (simp add: on_transport_close_def Let_def)
qed

text \<open>The knot of the completions, for every stack.\<close>

lemma failing_completions: "failing_ok (call_on_complete c depth)"
proof (induction depth)
  case 0
  show ?case by (simp add: failing_ok_def)
next
  case (Suc depth)
  let ?oc = "call_on_complete c depth"
  have "good (\<lambda>r'. books m r' \<and> carried r r') (on_complete_body c ?oc lam resp err r)"
    if err: "err \<noteq> EcOk" and books: "books (owes lam + m) r"
      and replay: "lam = CEStopReplay \<Longrightarrow> inflight_owes (r_inflight r) = {#}" for lam resp err m r
  proof (cases "lam = CEStopReplay")
    case False
    then have "plain err lam" using err by (simp add: plain_def)
    show ?thesis by (rule good_mono [OF fine_good [OF plain_completion [OF books \<open>plain err lam\<close>]]]) simp
  next
    case True
    let ?r1 = "r\<lparr>r_estop_pending := False\<rparr>"
    have "fair m ?r1" using books replay [OF True] by (simp add: True fair_def alone_def books_def answered_def)
    from close_settles [OF Suc.IH _ this, of err c "''estop replay failed''"] err
    have "settles m r (on_transport_close c ?oc err ''estop replay failed'' ?r1)"
      by (intro settles_after [where r = r]) simp_all
    moreover have "on_complete_body c ?oc lam resp err r = on_transport_close c ?oc err ''estop replay failed'' ?r1"
      using True err by (simp add: on_complete_body_def complete_estop_replay_def Let_def)
    ultimately show ?thesis using replay [OF True]
      unfolding settles_def by (auto simp: fair_def carried_def elim!: good_mono)
  qed
  then show ?case by (simp add: failing_ok_def)
qed

section \<open>Losing everything in flight without a crash\<close>

text \<open>The answers that report a failure with the given code (a ping reports -1).\<close>

fun failed_with :: "error_code \<Rightarrow> answer \<Rightarrow> bool" where
  "failed_with err (AnsUnsubscribe e) = (e = err)"
| "failed_with err (AnsCmdVel v) = (\<not> cvr_accepted v \<and> cvr_code v = err)"
| "failed_with err (AnsEStop v) = (\<not> er_ok v \<and> er_code v = err)"
| "failed_with err (AnsRpc v) = (ro_code v = err)"
| "failed_with err (AnsPing d) = (d = -1)"
| "failed_with err (AnsDiagnostics d) = False"

text \<open>The calls with the promises \<open>ps\<close> were answered with the error between two states.\<close>

definition answers_failed :: "error_code \<Rightarrow> nat multiset \<Rightarrow> robot \<Rightarrow> robot \<Rightarrow> bool" where
  "answers_failed err ps r r' \<longleftrightarrow> (\<exists>as. r_answers r' = as @ r_answers r \<and> mset (map fst as) = ps
     \<and> (\<forall>a\<in>set as. failed_with err (snd a)))"

lemma answers_failed_refl [simp]: "answers_failed err {#} r r"
  by (simp add: answers_failed_def)

lemma answers_failed_trans:
  assumes "answers_failed err ps r r1" "answers_failed err qs r1 r'"
  shows "answers_failed err (ps + qs) r r'"
proof -
  obtain as bs where "r_answers r1 = as @ r_answers r" "mset (map fst as) = ps"
    "\<forall>a\<in>set as. failed_with err (snd a)" "r_answers r' = bs @ r_answers r1" "mset (map fst bs) = qs"
    "\<forall>a\<in>set bs. failed_with err (snd a)"
    using assms by (auto simp: answers_failed_def)
  then show ?thesis unfolding answers_failed_def by (intro exI [of _ "bs @ as"]) (auto simp: ac_simps)
qed

lemma answers_failed_cong:
  assumes "ledger r1 = ledger r" "ledger r1' = ledger r'"
  shows "answers_failed err ps r1 r1' = answers_failed err ps r r'"
  using assms by (simp add: answers_failed_def ledger_def)

lemma set_value_failed:
  assumes "set_value p a r1 = Inr r'" "ledger r1 = ledger r" "failed_with err a"
  shows "answers_failed err {#p#} r r'"
  using assms ledger_eqD(4) [OF assms(2)] unfolding answers_failed_def
  by (intro exI [of _ "[(p, a)]"]) (auto simp: set_value_def split: if_splits)

lemma fail_one_answers:
  assumes "err \<noteq> EcOk" "lam \<noteq> CEStopReplay" "on_complete_body c oc lam resp err r = Inr r'"
  shows "answers_failed err (owes lam) r r'"
proof (cases lam)
  case (CUnsubscribe topic p)
  then show ?thesis using assms set_value_failed [where r = r]
    by (auto simp: on_complete_body_def complete_unsubscribe_def)
next
  case (CCmdVel t0 p)
  then show ?thesis using assms set_value_failed [where r = r]
    by (auto simp: on_complete_body_def complete_cmd_vel_def cmdvel_failed_def)
next
  case (CEStop engage reason t0 p)
  then show ?thesis using assms set_value_failed [where r = r]
    by (auto simp: on_complete_body_def complete_estop_def estop_failed_def Let_def)
next
  case (CInvoke p)
  then show ?thesis using assms set_value_failed [where r = r]
    by (auto simp: on_complete_body_def invoke_outcome_def rpc_failed_def)
next
  case (CPing t0 p)
  then show ?thesis using assms set_value_failed [where r = r] by (auto simp: on_complete_body_def)
qed (use assms in \<open>auto simp: on_complete_body_def complete_handshake_def\<close>)

text \<open>
  One frame of the stack is enough when no replay is in flight, and also for \<open>Close\<close>, which has
  changed the state before.
\<close>

definition released :: "error_code \<Rightarrow> nat multiset \<Rightarrow> nat multiset \<Rightarrow> robot \<Rightarrow> robot \<Rightarrow> bool" where
  "released err ps m r r' \<longleftrightarrow> books m r' \<and> answers_failed err ps r r' \<and> r_inflight r' = r_inflight r
     \<and> r_state r' = r_state r"

lemma fail_one_fine:
  assumes "books (owes lam + m) r" "err \<noteq> EcOk" "lam \<noteq> CEStopReplay \<or> r_state r = CsShutdown"
  shows "fine (released err (owes lam) m r) (call_on_complete c (Suc d) lam resp err r)"
proof (cases "lam = CEStopReplay")
  case True
  then show ?thesis
    using assms by (simp add: on_complete_body_def complete_estop_replay_def on_transport_close_def
        released_def answers_failed_def books_def answered_def Let_def)
next
  case False
  then have "plain err lam" using assms(2) by (simp add: plain_def)
  from plain_completion [OF assms(1) this] obtain r' where
    r': "call_on_complete c (Suc d) lam resp err r = Inr r'" "books m r'" "r_inflight r' = r_inflight r"
    unfolding fine_def call_on_complete.simps by blast
  have "r_state r' = r_state r"
    using arg_cong [OF session_complete_error [OF assms(2) False r'(1)], of s_state] by simp
  moreover have "answers_failed err (owes lam) r r'"
    using fail_one_answers [OF assms(2) False] r'(1) by simp
  ultimately show ?thesis using r' unfolding fine_def released_def by blast
qed

lemma complete_all_fine:
  assumes "books (inflight_owes ps + m) r" "err \<noteq> EcOk" "\<not> replaying ps \<or> r_state r = CsShutdown"
    "set ps \<subseteq> set (r_inflight r)"
  shows "fine (released err (inflight_owes ps) m r) (complete_all (call_on_complete c (Suc d)) resp err ps r)"
  using assms(1,3,4)
proof (induction ps arbitrary: r)
  case (Cons p ps)
  obtain rid rpc where p: "p = (rid, rpc)" by (cases p)
  have later: "fine (released err (inflight_owes (p # ps)) m r)
      (complete_all (call_on_complete c (Suc d)) resp err ps r1)"
    if r1: "released err (owes (ir_on_complete rpc)) (inflight_owes ps + m) r r1" for r1
  proof -
    have "\<not> replaying ps \<or> r_state r1 = CsShutdown" "set ps \<subseteq> set (r_inflight r1)"
      "books (inflight_owes ps + m) r1"
      using Cons.prems(2,3) r1 by (auto simp: replaying_def released_def)
    from Cons.IH [OF this(3,1,2)] show ?thesis
      by (rule fine_mono) (use r1 answers_failed_trans in \<open>auto simp: released_def p\<close>)
  qed
  have "(rid, rpc) \<in> set (r_inflight r)" using Cons.prems(3) p by simp
  then have mem: "map_of (r_inflight r) rid \<noteq> None" using weak_map_of_SomeI by fastforce
  have books: "books (owes (ir_on_complete rpc) + (inflight_owes ps + m)) r"
    using Cons.prems(1) by (simp add: p ac_simps)
  show ?case
  proof (cases "ir_on_complete rpc = CNone")
    case True
    then have "released err (owes (ir_on_complete rpc)) (inflight_owes ps + m) r r"
      using books by (simp add: released_def)
    from later [OF this] show ?thesis using True by (simp add: p)
  next
    case False
    have "ir_on_complete rpc \<noteq> CEStopReplay \<or> r_state r = CsShutdown"
      using Cons.prems(2) by (auto simp: p replaying_def)
    from fail_one_fine [OF books assms(2) this, of c d resp] show ?thesis
      unfolding p complete_all.simps if_not_P [OF False]
    proof (rule fine_obind)
      fix r1 assume r1: "released err (owes (ir_on_complete rpc)) (inflight_owes ps + m) r r1"
      then have "map_of (r_inflight r1) rid \<noteq> None" using mem by (simp add: released_def)
      then show "fine (released err (inflight_owes ((rid, rpc) # ps)) m r)
          (if map_of (r_inflight r1) rid = None then Inl IteratorInvalidated
           else complete_all (call_on_complete c (Suc d)) resp err ps r1)"
        using later [OF r1] p by simp
    qed
  qed
qed (simp add: released_def)

end
