(* ===== verification/PromiseCalls.thy ===== *)
theory PromiseCalls
  imports Promises
begin

text \<open>
  The handlers of the control thread keep the books: subscribing, connecting, the calls of the user,
  responses, timers. A handler that registers a call does so under a new id.
\<close>

section \<open>The map of calls in flight\<close>

lemma inflight_owes_delete:
  assumes "distinct (map fst ps)" "map_of ps rid = Some x"
  shows "inflight_owes ps = owes (ir_on_complete x) + inflight_owes (AList.delete rid ps)"
  using assms
proof (induction ps)
  case (Cons p ps)
  show ?case
  proof (cases "fst p = rid")
    case True
    then have "rid \<notin> fst ` set ps" using Cons.prems(1) by auto
    then show ?thesis using Cons.prems(2) True by (cases p) (simp add: delete_id)
  next
    case False
    then show ?thesis using Cons by (cases p) simp
  qed
qed simp

lemma inflight_owes_update:
  assumes "distinct (map fst ps)"
  shows "inflight_owes (AList.update rid x ps) = owes (ir_on_complete x) + inflight_owes (AList.delete rid ps)"
  using assms
proof (induction ps)
  case (Cons p ps)
  show ?case
  proof (cases "fst p = rid")
    case True
    then have "rid \<notin> fst ` set ps" using Cons.prems(1) by auto
    then show ?thesis using True by (cases p) (simp add: delete_id)
  next
    case False
    then show ?thesis using Cons by (cases p) (simp add: ac_simps)
  qed
qed simp

lemma alone_delete:
  assumes "alone ps" "distinct (map fst ps)"
  shows "alone (AList.delete rid ps)"
proof (cases "map_of ps rid")
  case None
  then show ?thesis using assms(1) by (simp add: delete_id map_of_eq_None_iff)
next
  case (Some x)
  have "replaying (AList.delete rid ps) \<Longrightarrow> replaying ps"
    using delete_subset [of rid ps] by (auto simp: replaying_def)
  then show ?thesis
    using assms(1) inflight_owes_delete [OF assms(2) Some] by (auto simp: alone_def)
qed

lemma keys_delete: "map fst (AList.delete k ps) = filter (\<lambda>k'. k' \<noteq> k) (map fst ps)"
  by (induction ps) auto

lemma ids_fit_erase: "ids_fit r \<Longrightarrow> ids_fit (erase_inflight rid r)"
  by (auto simp: ids_fit_def erase_inflight_def keys_delete distinct_filter)

lemma erase_balanced:
  assumes "balanced q m r" "map_of (r_inflight r) rid = Some x"
  shows "balanced q (owes (ir_on_complete x) + m) (erase_inflight rid r)"
proof -
  have d: "distinct (map fst (r_inflight r))" using assms(1) by (simp add: balanced_def ids_fit_def)
  have "ids_fit (erase_inflight rid r)" using assms(1) ids_fit_erase by (simp add: balanced_def)
  moreover have "alone (r_inflight (erase_inflight rid r))"
    using assms(1) alone_delete [OF _ d] by (simp add: balanced_def fair_def erase_inflight_def)
  ultimately show ?thesis
    using assms(1) inflight_owes_delete [OF d assms(2)]
    by (clarsimp simp: balanced_def fair_def books_def answered_def erase_inflight_def ac_simps)
qed

lemma ids_fit_next:
  assumes "ids_fit r"
  shows "ids_fit (snd (next_request_id r))"
proof -
  have "r_next_request_id r + 1 = of_nat (Suc (Suc (r_requests r)))"
    using assms by (simp add: ids_fit_def)
  moreover have "\<forall>k\<in>set (map fst (r_inflight r)). unat k \<le> Suc (r_requests r)"
    using assms unfolding ids_fit_def by (blast intro: le_SucI)
  ultimately show ?thesis using assms unfolding ids_fit_def next_request_id_def by simp
qed

lemma request_balanced:
  assumes "next_request_id r = (rid, r1)" "balanced q m r"
  shows "balanced q m r1" "unat rid \<le> r_requests r1" "r_inflight r1 = r_inflight r"
proof -
  have ids: "ids_fit r" and r1: "r1 = snd (next_request_id r)" using assms by (simp_all add: balanced_def)
  have rid: "rid = of_nat (r_requests r1)"
    using assms(1) ids unfolding next_request_id_def ids_fit_def by auto
  show "r_inflight r1 = r_inflight r" by (simp add: r1 next_request_id_def)
  show "unat rid \<le> r_requests r1" unfolding rid by (simp add: unat_of_nat)
  show "balanced q m r1"
    using assms(2) ids_fit_next [OF ids] unfolding r1
    by (clarsimp simp: balanced_def fair_def books_def answered_def next_request_id_def)
qed

text \<open>Before the ids wrap around, the next one is not in flight.\<close>

lemma request_fresh:
  assumes "next_request_id r = (rid, r1)" "balanced q m r" "r_requests r < id_limit"
  shows "rid \<notin> fst ` set (r_inflight r1)"
proof
  have r1: "rid = r_next_request_id r" "r_inflight r1 = r_inflight r"
    using assms(1) by (auto simp: next_request_id_def)
  have ids: "r_next_request_id r = of_nat (Suc (r_requests r))"
    "\<forall>k\<in>set (map fst (r_inflight r)). unat k \<le> r_requests r"
    using assms(2) unfolding balanced_def ids_fit_def by blast+
  assume "rid \<in> fst ` set (r_inflight r1)"
  then have "unat rid \<le> r_requests r" using ids(2) r1 by auto
  moreover have "unat rid = Suc (r_requests r)"
    using assms(3) unfolding r1 ids unat_of_nat id_limit_def by (simp add: take_bit_nat_eq_self del: of_nat_Suc)
  ultimately show False by simp
qed

text \<open>A call may be registered: not a replay, nor next to one, unless nothing is owed.\<close>

definition may_join :: "completion \<Rightarrow> robot \<Rightarrow> bool" where
  "may_join lam r \<longleftrightarrow> owes lam + inflight_owes (r_inflight r) = {#}
     \<or> lam \<noteq> CEStopReplay \<and> \<not> replaying (r_inflight r)"

lemma put_balanced:
  assumes "balanced q (owes (ir_on_complete x) + m) r" "rid \<notin> fst ` set (r_inflight r)"
    "unat rid \<le> r_requests r" "may_join (ir_on_complete x) r"
  shows "balanced q m (put_inflight rid x r)"
proof -
  let ?ps = "AList.update rid x (r_inflight r)"
  have ids: "distinct (map fst (r_inflight r))" "\<forall>k\<in>fst ` set (r_inflight r). unat k \<le> r_requests r"
    "r_next_request_id r = of_nat (Suc (r_requests r))" and fair: "r_ioc r = q" "fair (owes (ir_on_complete x) + m) r"
    using assms(1) unfolding balanced_def ids_fit_def by auto
  have owed: "inflight_owes ?ps = owes (ir_on_complete x) + inflight_owes (r_inflight r)"
    using inflight_owes_update [OF ids(1)] assms(2) by (simp add: delete_id)
  have "ids_fit (put_inflight rid x r)"
    using ids assms(3) distinct_update [OF ids(1), of rid x]
    by (auto simp: ids_fit_def put_inflight_def dom_update)
  moreover have "alone ?ps"
  proof -
    have "replaying ?ps \<Longrightarrow> ir_on_complete x = CEStopReplay \<or> replaying (r_inflight r)"
      using update_subset [of rid x "r_inflight r"] by (auto simp: replaying_def)
    then show ?thesis using assms(4) by (auto simp: alone_def may_join_def owed)
  qed
  ultimately show ?thesis
    using fair by (clarsimp simp: balanced_def fair_def books_def answered_def put_inflight_def owed ac_simps)
qed

section \<open>Subscribing\<close>

text \<open>An outcome that keeps the books, and an empty map empty.\<close>

definition serves :: "event list \<Rightarrow> nat multiset \<Rightarrow> robot \<Rightarrow> robot outcome \<Rightarrow> bool" where
  "serves q m r out \<longleftrightarrow> good (\<lambda>r'. balanced q m r' \<and> (r_inflight r = [] \<longrightarrow> r_inflight r' = [])) out"

lemma carried_ids: "ids_fit r \<Longrightarrow> carried r r' \<Longrightarrow> ids_fit r'"
  by (auto simp: ids_fit_def carried_def)

lemma settles_serves: "settles m r out \<Longrightarrow> balanced q m r \<Longrightarrow> serves q m r out"
  unfolding settles_def serves_def
  by (elim good_mono) (auto simp: balanced_def carried_def dest: carried_ids)

lemma serves_ledger:
  assumes "balanced q m r" "ledger r' = ledger r"
  shows "serves q m r (Inr r')"
  using balanced_cong [OF assms(2), of q m] ledger_eqD(1) [OF assms(2)] assms(1) by (simp add: serves_def)

lemma serves_after:
  assumes "serves q m r1 out" "r_inflight r1 = r_inflight r"
  shows "serves q m r out"
  using assms by (simp add: serves_def)

lemma serves_obind:
  assumes "serves q m r out" "\<And>r1. balanced q m r1 \<Longrightarrow> (r_inflight r = [] \<longrightarrow> r_inflight r1 = []) \<Longrightarrow> serves q m r1 (f r1)"
  shows "serves q m r (obind out f)"
  using assms(1) unfolding serves_def
proof (rule good_obind)
  fix r1 assume "balanced q m r1 \<and> (r_inflight r = [] \<longrightarrow> r_inflight r1 = [])"
  then show "good (\<lambda>r'. balanced q m r' \<and> (r_inflight r = [] \<longrightarrow> r_inflight r' = [])) (f r1)"
    using assms(2) [of r1] unfolding serves_def by (auto elim: good_mono)
qed

lemma serves_balanced: "serves q m r out \<Longrightarrow> good (balanced q m) out"
  unfolding serves_def by (auto elim: good_mono)

lemma close_serves:
  assumes "balanced q m r" "ledger r1 = ledger r" "err \<noteq> EcOk \<or> r_inflight r = []"
  shows "serves q m r (on_transport_close c (call_on_complete c depth) err msg r1)"
proof -
  have b: "balanced q m r1" using assms(1) balanced_cong [OF assms(2)] by simp
  have "settles m r1 (on_transport_close c (call_on_complete c depth) err msg r1)"
    using assms(3) b ledger_eqD(1) [OF assms(2)]
    by (intro close_settles failing_completions) (auto simp: balanced_def)
  from settles_serves [OF this b] show ?thesis
    using serves_after ledger_eqD(1) [OF assms(2)] by blast
qed

lemma abort_serves:
  assumes "balanced q m r" "ledger r1 = ledger r" "err \<noteq> EcOk \<or> r_inflight r = []"
  shows "serves q m r (abort_to_fatal (call_on_complete c depth) err msg r1)"
proof -
  have b: "balanced q m r1" using assms(1) balanced_cong [OF assms(2)] by simp
  have "settles m r1 (abort_to_fatal (call_on_complete c depth) err msg r1)"
    using assms(3) b ledger_eqD(1) [OF assms(2)]
    by (intro abort_settles failing_completions) (auto simp: balanced_def)
  from settles_serves [OF this b] show ?thesis
    using serves_after ledger_eqD(1) [OF assms(2)] by blast
qed

lemma fail_serves:
  assumes "balanced q m r" "ledger r1 = ledger r"
  shows "serves q m r (fail_and_reconnect c (call_on_complete c depth) what code msg reset r1)"
proof -
  have b: "balanced q m r1" using assms(1) balanced_cong [OF assms(2)] by simp
  have "settles m r1 (fail_and_reconnect c (call_on_complete c depth) what code msg reset r1)"
    using b by (intro fail_settles failing_completions) (auto simp: balanced_def)
  from settles_serves [OF this b] show ?thesis
    using serves_after ledger_eqD(1) [OF assms(2)] by blast
qed

lemma send_subscribe_serves:
  assumes "balanced q m r"
  shows "serves q m r (send_subscribe c (call_on_complete c depth) i since r)"
proof -
  obtain rid r1 where r1: "next_request_id r = (rid, r1)" by fastforce
  note q = request_balanced [OF r1 assms]
  let ?s = "effective_since (r_slots r1 i) since"
  have "serves q m r1 (send_subscribe c (call_on_complete c depth) i since r)"
  proof (cases "encode_subscribe (cx_pb c) rid (sl_topic (r_slots r1 i)) (sl_desired_hz (r_slots r1 i)) ?s
      (if ?s > 0 then co_history_limit (cx_opts c) else 0)")
    case (Inl e)
    then show ?thesis using r1 serves_ledger [OF q(1)] by (simp add: send_subscribe_def Let_def)
  next
    case (Inr b)
    obtain ok r2 where r2: "send_or_fail c b (register_subscribe c rid i ?s r1) = (ok, r2)" by fastforce
    have l: "ledger r2 = ledger r1" using ledger_looksD(1) [OF r2] by simp
    then have "ledger (unregister_subscribe rid i r2) = ledger r1" by simp
    then show ?thesis
      using r1 r2 Inr serves_ledger [OF q(1) l] close_serves [OF q(1)] by (simp add: send_subscribe_def Let_def)
  qed
  then show ?thesis using serves_after q(3) by blast
qed

lemma for_each_sub_serves:
  assumes "balanced q m r" "\<And>i r. balanced q m r \<Longrightarrow> serves q m r (body i r)"
  shows "serves q m r (for_each_sub body ps r)"
  using assms(1)
proof (induction ps arbitrary: r)
  case Nil
  then show ?case using serves_ledger [OF Nil.prems refl] by simp
next
  case (Cons p ps)
  obtain topic i where p: "p = (topic, i)" by fastforce
  show ?case unfolding p for_each_sub.simps
    by (rule serves_obind [OF assms(2) [OF Cons.prems]]) (use Cons.IH in \<open>auto simp: serves_def\<close>)
qed

section \<open>The handshake and the replay\<close>

lemma put_first:
  assumes "balanced q m r" "r_inflight r = []" "owes (ir_on_complete x) = {#}" "unat rid \<le> r_requests r"
  shows "balanced q m (put_inflight rid x r)"
  using assms by (intro put_balanced) (simp_all add: may_join_def)

lemma erase_first:
  assumes "ledger r3 = ledger (put_inflight rid x r)" "r_inflight r = []"
  shows "ledger (erase_inflight rid r3) = ledger r"
  using assms by (simp add: ledger_def erase_inflight_def put_inflight_def answered_def)

lemma replay_serves:
  assumes bal: "balanced q m r" and empty: "r_inflight r = []"
  shows "good (balanced q m) (do_estop_replay c (call_on_complete c depth) r)"
proof -
  obtain rid r1 where r1: "next_request_id r = (rid, r1)" by fastforce
  note q = request_balanced [OF r1 bal]
  define x where "x = \<lparr>ir_request_id = rid, ir_method = ''safety.emergency_stop.replay'',
    ir_enqueued_at = r_now r1, ir_on_complete = CEStopReplay,
    ir_timeout = Some (after_ms (co_estop_rpc_timeout (cx_opts c)) r1)\<rparr>"
  let ?r2 = "put_inflight rid x r1"
  have b2: "balanced q m ?r2" using q empty by (intro put_first) (simp_all add: x_def)
  have up: "good (balanced q m) (on_transport_close c (call_on_complete c depth) EcTransportFailure msg
      ((erase_inflight rid r3)\<lparr>r_estop_pending := False\<rparr>))" if "ledger r3 = ledger ?r2" for r3 msg
    using close_serves [OF q(1), of "(erase_inflight rid r3)\<lparr>r_estop_pending := False\<rparr>"]
      erase_first [OF that] q(3) empty by (intro serves_balanced [where r = r1]) simp
  show ?thesis
  proof (cases "encode_emergency_stop (cx_pb c) rid True (r_estop_reason ?r2 @ replay_suffix)")
    case (Inl e)
    then show ?thesis using r1 up [of ?r2] by (simp add: do_estop_replay_def x_def [symmetric] Let_def)
  next
    case (Inr b)
    obtain ok r3 where r3: "send_or_fail c b ?r2 = (ok, r3)" by fastforce
    have l: "ledger r3 = ledger ?r2" using ledger_looksD(1) [OF r3] .
    then show ?thesis
      using r1 r3 Inr up [OF l] serves_balanced [OF serves_ledger [OF b2 l]]
      by (simp add: do_estop_replay_def x_def [symmetric] Let_def)
  qed
qed

lemma resume_serves:
  assumes "balanced q m r" "r_inflight r = []"
  shows "good (balanced q m) (resume_session c (call_on_complete c depth) r)"
proof -
  let ?r1 = "r\<lparr>r_subs_pending := of_nat (length (r_active_subs r)), r_estop_pending := r_estop_engaged r,
    r_failure_code := EcOk\<rparr>"
  have l: "ledger ?r1 = ledger r" by simp
  have b1: "balanced q m ?r1" using assms(1) balanced_cong [OF l] by simp
  have "serves q m ?r1 (resubscribe_all c (call_on_complete c depth) ?r1)"
    unfolding resubscribe_all_def
  proof (rule for_each_sub_serves [OF b1])
    fix i r' assume b: "balanced q m r'"
    let ?r2 = "upd_slot i (\<lambda>s. s\<lparr>sl_fresh_retry_done := False\<rparr>) r'"
    have l: "ledger ?r2 = ledger r'" by simp
    have "balanced q m ?r2" using b balanced_cong [OF l] by simp
    from send_subscribe_serves [OF this]
    show "serves q m r' (resubscribe_one c (call_on_complete c depth) i r')"
      unfolding resubscribe_one_def Let_def by (rule serves_after) (use ledger_eqD(1) [OF l] in simp)
  qed
  then have "good (balanced q m) (obind (resubscribe_all c (call_on_complete c depth) ?r1)
      (\<lambda>r2. if r_estop_pending r2 then do_estop_replay c (call_on_complete c depth) r2 else Inr r2))"
    unfolding serves_def by (rule good_obind) (use assms(2) replay_serves in auto)
  moreover have "balanced q m r'" if "ledger r' = ledger r" for r'
    using assms(1) balanced_cong [OF that] by simp
  ultimately show ?thesis unfolding resume_session_def Let_def by simp
qed

lemma handshake_serves:
  assumes "balanced q m r" "r_inflight r = []"
  shows "good (balanced q m) (complete_handshake c (call_on_complete c depth) b resp err r)"
proof (cases "err \<noteq> EcOk \<or> \<not> dr_success resp \<or> \<not> dr_has_handshake resp")
  case True
  then show ?thesis
    using assms serves_balanced [OF abort_serves [OF assms(1) refl]] serves_balanced [OF fail_serves [OF assms(1) refl]]
    by (auto simp: complete_handshake_def Let_def)
next
  case False
  define r1 where "r1 = start_heartbeat c (r\<lparr>r_robot_info := Some (robot_info_of_response resp)\<rparr>)"
  define r2 where "r2 = transition_to CsReady (change_info ''handshake ok'' EcOk [] 0 0 []) r1"
  have l: "ledger r1 = ledger r" "ledger r2 = ledger r" by (simp_all add: r1_def r2_def)
  have b: "balanced q m r1" "balanced q m r2" using assms(1) l [THEN balanced_cong, of q m] by simp_all
  have "serves q m r2 (for_each_sub (subscribe_pending c (call_on_complete c depth)) (r_active_subs r2) r2)"
    using send_subscribe_serves serves_ledger
    by (intro for_each_sub_serves [OF b(2)]) (simp add: subscribe_pending_def)
  from serves_balanced [OF this] show ?thesis
    using False resume_serves [OF b(1)] ledger_eqD(1) [OF l(1)] assms(2)
    by (simp add: complete_handshake_def Let_def r1_def r2_def)
qed

lemma send_handshake_serves:
  assumes bal: "balanced q m r" and empty: "r_inflight r = []"
  shows "good (balanced q m) (send_handshake c (call_on_complete c depth) b r)"
proof -
  obtain rid r1 where r1: "next_request_id r = (rid, r1)" by fastforce
  note q = request_balanced [OF r1 bal]
  define x where "x = \<lparr>ir_request_id = rid, ir_method = ''handshake'', ir_enqueued_at = r_now r1,
    ir_on_complete = CHandshake b, ir_timeout = Some (after_ms (co_connect_timeout (cx_opts c)) r1)\<rparr>"
  let ?r2 = "put_inflight rid x r1"
  have b2: "balanced q m ?r2" using q empty by (intro put_first) (simp_all add: x_def)
  show ?thesis
  proof (cases "encode_handshake c rid")
    case (Inl e)
    then show ?thesis
      using r1 serves_balanced [OF abort_serves [OF q(1) refl]] q(3) empty by (simp add: send_handshake_def)
  next
    case (Inr y)
    obtain ok r3 where r3: "send_or_fail c y ?r2 = (ok, r3)" by fastforce
    have l: "ledger r3 = ledger ?r2" using ledger_looksD(1) [OF r3] .
    have "ledger (erase_inflight rid r3) = ledger r1" using erase_first [OF l] q(3) empty by simp
    from serves_balanced [OF fail_serves [OF q(1) this]] serves_balanced [OF serves_ledger [OF b2 l]]
    show ?thesis using r1 r3 Inr by (simp add: send_handshake_def x_def [symmetric] Let_def)
  qed
qed

lemma connect_serves:
  assumes bal: "balanced q m r" and empty: "r_inflight r = []"
  shows "good (balanced q m) (connect_ws c (call_on_complete c depth) b r)"
proof -
  have "good (balanced q m) (abort_to_fatal (call_on_complete c depth) code msg r1)"
    "good (balanced q m) (fail_and_reconnect c (call_on_complete c depth) what code msg reset r1)"
    if "ledger r1 = ledger r" for r1 code msg what reset
    using serves_balanced [OF abort_serves [OF bal that]] serves_balanced [OF fail_serves [OF bal that]] empty
    by simp_all
  moreover
  have "good (balanced q m) (send_handshake c (call_on_complete c depth) b r1)" if "ledger r1 = ledger r" for r1
    using send_handshake_serves bal empty balanced_cong [OF that, of q m] ledger_eqD(1) [OF that] by simp
  ultimately show ?thesis by (simp add: connect_ws_def Let_def split: sum.split)
qed

lemma establish_serves:
  assumes "balanced q m r" "r_inflight r = []"
  shows "good (balanced q m) (establish_connection c (call_on_complete c depth) b r)"
proof -
  have l: "ledger (transition_to st info r) = ledger r" for st info by simp
  show ?thesis
    using connect_serves [OF assms] connect_serves [of q m "transition_to _ _ r"] assms
      balanced_cong [OF l, of q m] ledger_eqD(1) [OF l] by (simp add: establish_connection_def)
qed

end
