(* ===== verification/PromiseLoop.thy ===== *)
theory PromiseLoop
  imports PromiseCalls
begin

text \<open>
  The handlers of \<open>handle_event\<close> keep the books, and so does every step of the robot: the invariant
  \<open>accounts\<close> of the transition system.
\<close>

section \<open>Answers and responses\<close>

lemma answered_balanced:
  assumes "balanced q (add_mset p m) r"
    "books (m + inflight_owes (r_inflight r)) r'" "carried r r'" "r_inflight r' = r_inflight r"
  shows "balanced q m r'"
  using assms carried_ids [of r r'] carried_ioc by (auto simp: balanced_def fair_def)

lemma answer_good:
  assumes "balanced q (add_mset p m) r" "ledger r1 = ledger r"
  shows "good (balanced q m) (set_value p a r1)"
    and "(\<And>s. ledger (f s) = ledger s) \<Longrightarrow> good (balanced q m) (obind (set_value p a r1) (\<lambda>s. Inr (f s)))"
proof -
  have b: "books (add_mset p (m + inflight_owes (r_inflight r))) r"
    using assms(1) by (simp add: balanced_def fair_def)
  show "good (balanced q m) (set_value p a r1)"
    by (rule good_mono [OF fine_good [OF set_value_fine [OF b assms(2)]]]) (use answered_balanced [OF assms(1)] in blast)
  show "good (balanced q m) (obind (set_value p a r1) (\<lambda>s. Inr (f s)))" if "\<And>s. ledger (f s) = ledger s"
    by (rule good_mono [OF fine_good [OF set_value_then [OF b assms(2) that]]]) (use answered_balanced [OF assms(1)] in blast)
qed

lemma plain_good:
  assumes "balanced q (owes lam + m) r" "plain err lam"
  shows "good (balanced q m) (on_complete_body c oc lam resp err r)"
proof -
  have "books (owes lam + (m + inflight_owes (r_inflight r))) r"
    using assms(1) by (simp add: balanced_def fair_def ac_simps)
  from fine_good [OF plain_completion [OF this assms(2)]] show ?thesis
    by (rule good_mono) (use assms(1) carried_ids carried_ioc in \<open>auto simp: balanced_def fair_def\<close>)
qed

lemma replay_done_good:
  assumes "balanced q m r" "r_inflight r = []"
  shows "good (balanced q m) (complete_estop_replay c (call_on_complete c depth) resp err r)"
proof -
  have "ledger (r\<lparr>r_estop_pending := False\<rparr>) = ledger r" by simp
  from close_serves [OF assms(1) this] assms(2)
  have "good (balanced q m) (on_transport_close c (call_on_complete c depth) code msg (r\<lparr>r_estop_pending := False\<rparr>))"
    for code msg by (intro serves_balanced [where r = r]) simp
  moreover have "balanced q m r'" if "ledger r' = ledger r" for r'
    using assms(1) balanced_cong [OF that] by simp
  ultimately show ?thesis by (simp add: complete_estop_replay_def Let_def)
qed

lemma completion_good:
  assumes bal: "balanced q (owes lam + m) r" and free: "r_inflight r = [] \<or> plain err lam"
  shows "good (balanced q m) (call_on_complete c depth lam resp err r)"
proof (cases depth)
  case (Suc d)
  have "plain err lam \<or> lam = CEStopReplay \<or> (\<exists>b. lam = CHandshake b)"
    by (auto simp: plain_def)
  then show ?thesis
    using bal free plain_good [OF bal] replay_done_good [of q m r] handshake_serves [of q m r]
    unfolding Suc call_on_complete.simps by (auto simp: on_complete_body_def plain_def)
qed simp

lemma ack_failed_good:
  assumes "balanced q m r"
  shows "good (balanced q m) (ack_failed c (call_on_complete c depth) i resp r)"
proof -
  let ?r1 = "r\<lparr>r_failure_code := dr_sdk_code resp, r_failure_message := dr_message resp\<rparr>"
  have "ledger ?r1 = ledger r" by simp
  note abort = serves_balanced [OF abort_serves [OF assms refl]] serves_balanced [OF close_serves [OF assms this]]
  have "balanced q m r'" if "ledger r' = ledger r" for r'
    using assms balanced_cong [OF that] by simp
  then show ?thesis using abort by (cases "dr_sdk_code resp = EcOk") (auto simp: ack_failed_def split: error_category.split)
qed

lemma subscribe_ack_good:
  assumes "balanced q m r"
  shows "good (balanced q m) (handle_subscribe_ack c (call_on_complete c depth) resp r)"
proof -
  have keep: "balanced q m r'" if "ledger r' = ledger r" for r'
    using assms balanced_cong [OF that] by simp
  have "good (balanced q m) (send_subscribe c (call_on_complete c depth) i 0 r')" if "ledger r' = ledger r" for r' i
    using serves_balanced [OF send_subscribe_serves [OF keep [OF that]]] .
  moreover have "good (balanced q m) (ack_failed c (call_on_complete c depth) i resp r')" if "ledger r' = ledger r" for r' i
    using ack_failed_good [OF keep [OF that]] .
  ultimately show ?thesis using keep
    by (simp add: handle_subscribe_ack_def ack_telemetry_def ack_event_def Let_def case_prod_beta split: option.split)
qed

text \<open>After the erase of a call that is not plain nothing is in flight.\<close>

lemma erased_empty:
  assumes "inflight_ok st ps" "map_of ps rid = Some x" "\<not> plain EcOk (ir_on_complete x)"
  shows "AList.delete rid ps = []"
proof -
  have "(rid, x) \<in> set ps" "lifecycle_lambda (ir_on_complete x)"
    using assms(2,3) map_of_SomeD by (fastforce simp: plain_def lifecycle_lambda_def split: completion.split)+
  with assms(1) show ?thesis by (cases st) (fastforce simp: inflight_ok_def only_lambda_def)+
qed

lemma response_good:
  assumes "balanced q m r" "inflight_ok st (r_inflight r)"
  shows "good (balanced q m) (handle_sdk_response c (call_on_complete c depth) resp r)"
proof (cases "dr_has_subscribe resp")
  case True
  then show ?thesis using subscribe_ack_good [OF assms(1)] by (simp add: handle_sdk_response_def)
next
  case False
  have keep: "balanced q m r'" if "ledger r' = ledger r" for r'
    using assms(1) balanced_cong [OF that] by simp
  show ?thesis
  proof (cases "map_of (r_inflight r) (dr_request_id resp)")
    case None
    then show ?thesis using False keep by (simp add: handle_sdk_response_def)
  next
    case (Some x)
    let ?r1 = "erase_inflight (dr_request_id resp) r"
    have "r_inflight ?r1 = [] \<or> plain EcOk (ir_on_complete x)"
      using erased_empty [OF assms(2) Some] by (auto simp: erase_inflight_def)
    from completion_good [OF erase_balanced [OF assms(1) Some] this] erase_balanced [OF assms(1) Some]
    show ?thesis
      using False Some by (cases "ir_on_complete x = CNone") (simp_all add: handle_sdk_response_def Let_def)
  qed
qed

lemma rpc_timeout_good:
  assumes "balanced q m r" "inflight_ok st (r_inflight r)"
  shows "good (balanced q m) (on_rpc_timeout c (call_on_complete c depth) rid r)"
proof (cases "map_of (r_inflight r) rid")
  case None
  then show ?thesis using assms(1) by (simp add: on_rpc_timeout_def)
next
  case (Some x)
  let ?r1 = "erase_inflight rid r"
  note b = erase_balanced [OF assms(1) Some]
  show ?thesis
  proof (cases "ir_on_complete x")
    case CEStopReplay
    have "ledger (?r1\<lparr>r_estop_pending := False\<rparr>) = ledger ?r1" by simp
    from serves_balanced [OF close_serves [OF b this, of EcTimeout]] show ?thesis
      using Some CEStopReplay by (simp add: on_rpc_timeout_def Let_def)
  next
    case (CHandshake h)
    have "balanced q m (ws_close_reset r2)" if "balanced q m r2" for r2
      using that balanced_cong [of "ws_close_reset r2" r2] by simp
    moreover have "good (balanced q m) (call_on_complete c depth (CHandshake h) resp EcTimeout ?r1)" for resp
      using completion_good [of q "CHandshake h" m ?r1 EcTimeout] b CHandshake by (simp add: plain_def)
    ultimately show ?thesis using Some CHandshake
      by (auto simp: on_rpc_timeout_def Let_def intro!: good_obind [where P = "balanced q m"])
  qed (use Some b answer_good [where r = ?r1 and m = m] in \<open>simp_all add: on_rpc_timeout_def Let_def\<close>)
qed

section \<open>The calls of the user and of the heartbeat\<close>

lemma ready_joins:
  assumes "inflight_ok CsReady (r_inflight r)" "lam \<noteq> CEStopReplay"
  shows "may_join lam r"
  using assms by (auto simp: may_join_def inflight_ok_def replaying_def lifecycle_lambda_def)

text \<open>A registered call: the entry under a new id, and what it takes to withdraw it.\<close>

lemma registered:
  assumes r1: "next_request_id r = (rid, r1)" and bal: "balanced q (owes (ir_on_complete x) + m) r"
    and fresh: "r_requests r < id_limit" and join: "may_join (ir_on_complete x) r"
  shows "balanced q m (put_inflight rid x r1)"
    and "ledger r3 = ledger (put_inflight rid x r1) \<Longrightarrow> ledger (erase_inflight rid r3) = ledger r1"
proof -
  note q = request_balanced [OF r1 bal]
  have rid: "rid \<notin> fst ` set (r_inflight r1)" using request_fresh [OF r1 bal fresh] .
  have "may_join (ir_on_complete x) r1" using join q(3) by (simp add: may_join_def)
  from put_balanced [OF q(1) rid q(2) this] show "balanced q m (put_inflight rid x r1)" .
  assume "ledger r3 = ledger (put_inflight rid x r1)"
  moreover have "AList.delete rid (AList.update rid x (r_inflight r1)) = r_inflight r1"
    using rid by (simp add: delete_update_same delete_id)
  ultimately show "ledger (erase_inflight rid r3) = ledger r1"
    by (simp add: ledger_def erase_inflight_def put_inflight_def answered_def)
qed

lemma register_call_good:
  assumes bal: "balanced q (add_mset p m) r" and lam: "owes lam = {#p#}" "lam \<noteq> CEStopReplay"
    and inflight: "inflight_ok (r_state r) (r_inflight r)" and fresh: "r_requests r < id_limit"
    and quiet: "\<And>s. ledger (on_error s) = ledger s" "\<And>s. ledger (sent s) = ledger s"
  shows "good (balanced q m) (register_call c mname enqueued deadline lam encode failed on_error sent p r)"
proof (cases "r_state r = CsReady \<and> r_ws r \<noteq> None")
  case False
  then show ?thesis using answer_good(1) [OF bal refl] by (auto simp: register_call_def)
next
  case True
  obtain rid r1 where r1: "next_request_id r = (rid, r1)" by fastforce
  define x where "x = \<lparr>ir_request_id = rid, ir_method = mname, ir_enqueued_at = enqueued,
    ir_on_complete = lam, ir_timeout = Some (after_ms deadline r1)\<rparr>"
  have x: "balanced q (owes (ir_on_complete x) + m) r" "may_join (ir_on_complete x) r"
    using bal lam ready_joins inflight True by (simp_all add: x_def)
  note reg = registered [OF r1 x(1) fresh x(2)]
  have b1: "balanced q (add_mset p m) r1" using request_balanced(1) [OF r1 bal] .
  show ?thesis
  proof (cases "encode rid")
    case (Inl e)
    then show ?thesis
      using True r1 answer_good(2) [OF b1 reg(2) [OF refl] quiet(1)]
      by (auto simp: register_call_def x_def [symmetric] Let_def)
  next
    case (Inr b)
    obtain ok r3 where r3: "send_or_fail c b (put_inflight rid x r1) = (ok, r3)" by fastforce
    have l: "ledger r3 = ledger (put_inflight rid x r1)" using ledger_looksD(1) [OF r3] .
    have "ledger (sent r3) = ledger (put_inflight rid x r1)" using quiet(2) l by simp
    then have "balanced q m (sent r3)" using reg(1) balanced_cong by blast
    then show ?thesis
      using True r1 r3 Inr answer_good(2) [OF b1 reg(2) [OF l] quiet(1)]
      by (auto simp: register_call_def x_def [symmetric] Let_def)
  qed
qed

lemma unsub_good:
  assumes bal: "balanced q (add_mset p m) r"
    and inflight: "inflight_ok (r_state r) (r_inflight r)" and fresh: "r_requests r < id_limit"
  shows "good (balanced q m) (handle_unsub_sync c topic p r)"
proof (cases "map_of (r_active_subs r) topic")
  case None
  then show ?thesis using answer_good(1) [OF bal refl] by (simp add: handle_unsub_sync_def)
next
  case (Some i)
  show ?thesis
  proof (cases "r_state r = CsReady")
    case False
    then show ?thesis using Some answer_good(1) [OF bal] by (simp add: handle_unsub_sync_def Let_def)
  next
    case True
    obtain up r1 where r1: "ws_is_open c r = (up, r1)" by fastforce
    have l1: "ledger r1 = ledger r" using ledger_looksD(2) [OF r1] .
    show ?thesis
    proof (cases up)
      case False
      then show ?thesis using True Some r1 l1 answer_good(1) [OF bal] by (simp add: handle_unsub_sync_def Let_def)
    next
      case up: True
      obtain rid r2 where r2: "next_request_id r1 = (rid, r2)" by fastforce
      have b1: "balanced q (add_mset p m) r1" using bal balanced_cong [OF l1] by simp
      have b2: "balanced q (add_mset p m) r2" using request_balanced(1) [OF r2 b1] .
      define x where "x = \<lparr>ir_request_id = rid, ir_method = ''unsubscribe'', ir_enqueued_at = r_now r2,
        ir_on_complete = CUnsubscribe topic p,
        ir_timeout = Some (after_ms (co_subscribe_ack_timeout (cx_opts c)) r2)\<rparr>"
      have x: "balanced q (owes (ir_on_complete x) + m) r1" "may_join (ir_on_complete x) r1" "r_requests r1 < id_limit"
        using b1 ready_joins inflight True fresh ledger_eqD [OF l1] by (simp_all add: x_def)
      note reg = registered [OF r2 x(1) x(3) x(2)]
      note put = put_inflight_def [of rid x r2, symmetric]
      note erase = erase_inflight_def [of rid, symmetric]
      show ?thesis
      proof (cases "encode_unsubscribe (cx_pb c) rid topic")
        case (Inl e)
        have "good (balanced q m) (obind (set_value p a (erase_inflight rid (put_inflight rid x r2)))
            (\<lambda>s. Inr (post_log lvl msg s)))" for a lvl msg
          by (rule answer_good(2) [OF b2 reg(2) [OF refl]]) simp
        then show ?thesis
          using True Some r1 r2 up Inl
          by (simp add: handle_unsub_sync_def x_def [symmetric] put_inflight_def erase_inflight_def Let_def)
      next
        case (Inr b)
        obtain ok r3 where r3: "send_or_fail c b (put_inflight rid x r2) = (ok, r3)" by fastforce
        have l: "ledger r3 = ledger (put_inflight rid x r2)" using ledger_looksD(1) [OF r3] .
        have "ledger (upd_slot i f r3) = ledger (put_inflight rid x r2)" for f using l by simp
        then have "balanced q m (upd_slot i f r3)" for f using reg(1) balanced_cong by blast
        then show ?thesis
          using True Some r1 r2 r3 up Inr answer_good(1) [OF b2 reg(2) [OF l]]
          by (simp add: handle_unsub_sync_def x_def [symmetric] put erase Let_def)
      qed
    qed
  qed
qed

lemma ledger_put: "ledger r' = ledger r \<Longrightarrow> ledger (put_inflight rid x r') = ledger (put_inflight rid x r)"
  by (simp add: ledger_def put_inflight_def answered_def)

lemma ping_good:
  assumes bal: "balanced q m r" and ready: "inflight_ok CsReady (r_inflight r)" and fresh: "r_requests r < id_limit"
    and lam: "owes lam = {#}" "lam \<noteq> CEStopReplay" and r1: "next_request_id r = (rid, r1)"
    and send: "send_heartbeat_ping c rid lam r1 = (ok, r3)"
  shows "balanced q m r3"
proof -
  let ?r2 = "upd_heartbeat (\<lambda>h. h\<lparr>hb_last_ping_request_id := rid, hb_last_ping_sent_at := r_now r1,
    hb_ping_deadline_active := True\<rparr>) r1"
  define x where "x = \<lparr>ir_request_id = rid, ir_method = ''ping'', ir_enqueued_at = r_now ?r2,
    ir_on_complete = lam, ir_timeout = None\<rparr>"
  let ?r = "(put_inflight rid x ?r2)\<lparr>r_ping_timer := Some (after_ms (co_ping_timeout (cx_opts c)) (put_inflight rid x ?r2))\<rparr>"
  have x: "balanced q (owes (ir_on_complete x) + m) r" "may_join (ir_on_complete x) r"
    using bal lam ready_joins [OF ready lam(2)] by (simp_all add: x_def)
  have "r3 = ?r \<or> (\<exists>b. send_or_fail c b ?r = (ok, r3))"
    using send by (auto simp: send_heartbeat_ping_def x_def [symmetric] Let_def split: sum.splits)
  then have "ledger r3 = ledger ?r" by (elim disjE exE) (simp, erule ledger_looksD(1))
  also have "... = ledger (put_inflight rid x ?r2)" by simp
  also have "... = ledger (put_inflight rid x r1)" by (rule ledger_put) simp
  finally have "ledger r3 = ledger (put_inflight rid x r1)" .
  then show ?thesis using registered(1) [OF r1 x(1) fresh x(2)] balanced_cong by blast
qed

lemma idle_timer_good:
  assumes bal: "balanced q m r" and inflight: "inflight_ok (r_state r) (r_inflight r)" and fresh: "r_requests r < id_limit"
  shows "good (balanced q m) (on_idle_timer c (call_on_complete c depth) r)"
proof (cases "r_state r = CsReady")
  case True
  obtain up r1 where r1: "ws_is_open c r = (up, r1)" by fastforce
  obtain rid r2 where r2: "next_request_id r1 = (rid, r2)" by fastforce
  obtain ok r3 where r3: "send_heartbeat_ping c rid (CHeartbeat (r_now r2)) r2 = (ok, r3)" by fastforce
  note l1 = ledger_looksD(2) [OF r1]
  have b1: "balanced q m r1" using bal balanced_cong [OF l1] by simp
  have b3: "balanced q m r3"
    using ping_good [OF b1 _ _ _ _ r2 r3] inflight fresh True ledger_eqD [OF l1] by simp
  have keep: "balanced q m r'" if "ledger r' = ledger s" "balanced q m s" for r' s
    using that balanced_cong [OF that(1)] by simp
  have "good (balanced q m) (on_transport_close c (call_on_complete c depth) EcTransportFailure msg r3)" for msg
    using serves_balanced [OF close_serves [OF b3 refl]] by simp
  moreover have "balanced q m ((upd_metrics f r3)\<lparr>r_idle_timer := t\<rparr>)" "balanced q m (r\<lparr>r_idle_timer := t\<rparr>)" for f t
    using keep [OF _ b3] keep [OF _ bal] by simp_all
  ultimately show ?thesis using True r1 r2 r3 b1 by (simp add: on_idle_timer_def Let_def)
qed (use bal in \<open>simp add: on_idle_timer_def\<close>)

lemma ping_deadline_good:
  assumes bal: "balanced q m r" and inflight: "inflight_ok (r_state r) (r_inflight r)" and fresh: "r_requests r < id_limit"
  shows "good (balanced q m) (on_ping_deadline c (call_on_complete c depth) r)"
proof (cases "r_state r = CsReady \<and> hb_ping_deadline_active (r_heartbeat r)")
  case True
  define r1 where "r1 = upd_heartbeat (\<lambda>h. h\<lparr>hb_ping_deadline_active := False,
    hb_miss_count := hb_miss_count h + 1\<rparr>) r"
  have l1: "ledger r1 = ledger r" by (simp add: r1_def)
  obtain up r2 where r2: "ws_is_open c r1 = (up, r2)" by fastforce
  obtain rid r3 where r3: "next_request_id r2 = (rid, r3)" by fastforce
  obtain ok r4 where r4: "send_heartbeat_ping c rid CNone r3 = (ok, r4)" by fastforce
  have l2: "ledger r2 = ledger r" using ledger_looksD(2) [OF r2] l1 by simp
  have b2: "balanced q m r2" using bal balanced_cong [OF l2] by simp
  have b4: "balanced q m r4"
    using ping_good [OF b2 _ _ _ _ r3 r4] inflight fresh True ledger_eqD [OF l2] by simp
  have "good (balanced q m) (on_transport_close c (call_on_complete c depth) EcTransportFailure msg r4)" for msg
    using serves_balanced [OF close_serves [OF b4 refl]] by simp
  moreover have "good (balanced q m) (on_transport_close c (call_on_complete c depth) EcTransportFailure msg
      (post_log lvl line r1))" for msg lvl line
    using serves_balanced [OF close_serves [OF bal, of "post_log lvl line r1"]] l1 by simp
  ultimately show ?thesis
    using True r2 r3 r4 b2 b4 by (simp add: on_ping_deadline_def Let_def r1_def)
qed (use bal in \<open>auto simp: on_ping_deadline_def\<close>)

lemma close_good:
  assumes "balanced q m r"
  shows "good (balanced q m) (handle_close c (call_on_complete c depth) r)"
proof -
  have "settles m r (handle_close c (call_on_complete c depth) r)"
    unfolding handle_close_def Let_def
  proof (rule settle_all [OF failing_completions])
    show "fair m r" using assms by (simp add: balanced_def)
  qed (auto intro!: settles_ledger)
  from serves_balanced [OF settles_serves [OF this assms]] show ?thesis .
qed

lemma unsub_async_balanced:
  assumes "balanced q m r"
  shows "balanced q m (handle_unsub_async c topic r)"
proof -
  have keep: "balanced q m r'" if "ledger r' = ledger s" "balanced q m s" for r' s
    using that balanced_cong [OF that(1)] by simp
  obtain up r1 where r1: "(if r_state r = CsReady then ws_is_open c r else (False, r)) = (up, r1)" by fastforce
  have "ledger r1 = ledger r" using r1 ledger_looksD(2) by (metis prod.inject)
  then have b1: "balanced q m r1" using keep assms by blast
  obtain rid r2 where r2: "next_request_id r1 = (rid, r2)" by fastforce
  have b2: "balanced q m r2" using request_balanced(1) [OF r2 b1] .
  let ?sent = "\<lambda>i. if up \<and> \<not> sl_unsubscribe_sent (r_slots r1 i)
      then let (rid, r1a) = next_request_id r1
           in case encode_unsubscribe (cx_pb c) rid topic of
                Inl e \<Rightarrow> r1a
              | Inr b \<Rightarrow>
                  let r1b = count_bytes_sent b r1a;
                      r1c = (case r_ws r1b of None \<Rightarrow> r1b | Some n \<Rightarrow> snd (ws_post_call c n b r1b))
                  in upd_slot i (\<lambda>s. s\<lparr>sl_unsubscribe_sent := True\<rparr>) r1c
      else r1"
  have "ledger (upd_slot i f (case r_ws (count_bytes_sent b r2) of None \<Rightarrow> count_bytes_sent b r2
      | Some n \<Rightarrow> snd (ws_post_call c n b (count_bytes_sent b r2)))) = ledger r2" for i f b
    by (simp split: option.split)
  from keep [OF this b2] have sent: "balanced q m (?sent i)" for i
    using b1 b2 r2 by (simp add: Let_def split: sum.split)
  have "balanced q m r'" if "ledger r' = ledger (?sent i)" for r' i
    using keep [OF that sent] .
  then show ?thesis
    using assms r1 by (auto simp: handle_unsub_async_def Let_def split: option.split)
qed

section \<open>Every handler, every step\<close>

lemma sub_ack_timeout_good:
  assumes "balanced q m r"
  shows "good (balanced q m) (on_sub_ack_timeout c (call_on_complete c depth) i rid r)"
  using assms serves_balanced [OF close_serves [OF assms, of "post_log _ _ r"]]
  by (simp add: on_sub_ack_timeout_def)

lemma inbound_good:
  assumes "balanced q m r" "inflight_ok (r_state r) (r_inflight r)"
  shows "good (balanced q m) (on_inbound_message c (call_on_complete c depth) b r)"
proof -
  define r2 where "r2 = reset_liveness_on_inbound
    (upd_metrics (\<lambda>m. m\<lparr>mt_bytes_received := mt_bytes_received m + of_nat (length b)\<rparr>) r)"
  have l: "ledger r2 = ledger r" by (simp add: r2_def)
  have "balanced q m r'" if "ledger r' = ledger r" for r' using assms(1) balanced_cong [OF that] by simp
  moreover have "good (balanced q m) (handle_sdk_response c (call_on_complete c depth) resp r2)" for resp
    using response_good [of q m r2 "r_state r"] assms balanced_cong [OF l, of q m] ledger_eqD(1) [OF l] by simp
  ultimately show ?thesis
    using l by (simp add: on_inbound_message_def r2_def [symmetric] Let_def split: inbound.split)
qed

lemma subscribe_good:
  assumes "balanced q m r"
  shows "good (balanced q m) (handle_subscribe c (call_on_complete c depth) i r)"
proof -
  have keep: "balanced q m r'" if "ledger r' = ledger r" for r' using assms balanced_cong [OF that] by simp
  have "good (balanced q m) (send_subscribe c (call_on_complete c depth) i 0 r')" if "ledger r' = ledger r" for r'
    using serves_balanced [OF send_subscribe_serves [OF keep [OF that]]] .
  then show ?thesis using keep by (simp add: handle_subscribe_def Let_def)
qed

lemma reconnect_timer_good:
  assumes "balanced q m r" "inflight_ok (r_state r) (r_inflight r)"
  shows "good (balanced q m) (on_reconnect_timer c (call_on_complete c depth) attempt r)"
proof -
  let ?r1 = "transition_to CsReconnecting (change_info ''reconnecting'' EcOk [] 0 attempt [])
    (r\<lparr>r_reconnect_attempt := attempt\<rparr>)"
  have l: "ledger ?r1 = ledger r" by simp
  show ?thesis
    using assms establish_serves [of q m ?r1] balanced_cong [OF l, of q m] ledger_eqD(1) [OF l]
    by (cases "r_state r = CsTransientFailure") (simp_all add: on_reconnect_timer_def inflight_ok_def)
qed

lemma calls_good:
  assumes "balanced q (add_mset p m) r" "inflight_ok (r_state r) (r_inflight r)" "r_requests r < id_limit"
  shows "good (balanced q m) (handle_cmd_vel c vx vy wz sq t0 p r)"
    "good (balanced q m) (handle_estop c engage reason t0 p r)"
    "good (balanced q m) (handle_invoke c mname deadline enc p r)"
    "good (balanced q m) (handle_ping c t0 p r)"
  unfolding handle_cmd_vel_def handle_estop_def handle_invoke_def handle_ping_def
  using assms by (intro register_call_good; simp)+

lemma handle_event_good:
  assumes bal: "balanced q (event_owes e) r" and inflight: "inflight_ok (r_state r) (r_inflight r)"
    and fresh: "r_requests r < id_limit" and reason: "\<And>msg. e \<noteq> EvTransportClose EcOk msg"
  shows "good (balanced q {#}) (handle_event c (call_on_complete c depth) e r)"
proof (cases e)
  case EvConnect
  then show ?thesis
    using bal inflight establish_serves [of q "{#}" r]
    by (cases "r_state r = CsIdle") (simp_all add: handle_event_def inflight_ok_def)
next
  case (EvTransportClose err msg)
  then have "err \<noteq> EcOk" using reason by auto
  then show ?thesis
    using EvTransportClose bal serves_balanced [OF close_serves [OF _ refl, of q "{#}" r err]]
    by (simp add: handle_event_def)
next
  case (EvDiagnostics p)
  have "ledger (snd (full_diagnostics r)) = ledger r" by simp
  then show ?thesis using EvDiagnostics bal answer_good(1) [of q p "{#}" r]
    by (simp add: handle_event_def case_prod_beta)
next
  case (EvUnsubAsync topic)
  then show ?thesis using bal unsub_async_balanced by (simp add: handle_event_def)
qed (use assms in \<open>simp_all add: handle_event_def close_good inbound_good subscribe_good unsub_good
  calls_good idle_timer_good ping_deadline_good reconnect_timer_good rpc_timeout_good sub_ack_timeout_good\<close>)

lemma pop_balanced: "settled r \<Longrightarrow> r_ioc r = e # es \<Longrightarrow> balanced es (event_owes e) (r\<lparr>r_ioc := es\<rparr>)"
  by (simp add: settled_def balanced_def fair_def books_def ids_fit_def answered_def ac_simps)

lemma balanced_settled: "balanced q {#} r \<Longrightarrow> settled r \<and> r_ioc r = q"
  by (simp add: balanced_def settled_def)

lemma settled_cong:
  assumes "ledger r' = ledger r"
  shows "settled r' = settled r"
  using assms fair_cong [OF assms] by (simp add: ledger_def settled_def ids_fit_def)

text \<open>A round runs the oldest handler; what it leaves in the queue is what was behind it.\<close>

lemma round_good:
  assumes bal: "settled r" and inv: "life_inv h0 r" and round: "loop_round c depth r = Some out"
  shows "good (\<lambda>r'. settled r' \<and> r_ioc r' = tl (r_ioc r)) out"
proof -
  obtain e es where q: "r_ioc r = e # es"
    and out: "out = handle_event c (call_on_complete c depth) e (r\<lparr>r_ioc := es\<rparr>)"
    using round by (auto simp: loop_round_def split: if_splits list.splits)
  have ok: "sess_ok h0 (session r)" "r_requests r < id_limit"
    using inv by (auto simp: life_inv_def wrapped_def)
  have "inflight_ok (r_state r) (r_inflight r)" using sess_okD(3) [OF ok(1)] by simp
  moreover have "e \<noteq> EvTransportClose EcOk msg" for msg
    using sess_okD(2) [OF ok(1)] q by (auto simp: queue_ok_def)
  ultimately have "good (balanced es {#}) out"
    unfolding out using ok(2) pop_balanced [OF bal q] by (intro handle_event_good) simp_all
  then show ?thesis by (rule good_mono) (use balanced_settled q in auto)
qed

text \<open>A call that waits has made a promise and posted the handler that owes it.\<close>

lemma promised_settled:
  assumes "settled r" "r_inflight r' = r_inflight r" "r_ioc r' = r_ioc r @ [e]" "r_answers r' = r_answers r"
    "r_requests r' = r_requests r" "r_next_request_id r' = r_next_request_id r"
    "event_owes e = {#} \<and> r_next_promise r' = r_next_promise r
      \<or> event_owes e = {#r_next_promise r#} \<and> r_next_promise r' = Suc (r_next_promise r)"
  shows "settled r'"
  using assms(1,7) unfolding settled_def fair_def ids_fit_def books_def answered_def assms(2-6)
  by (auto simp: atLeast0_lessThan_Suc)

lemma posted_settled:
  assumes "settled r" "ledger r1 = ledger r"
  shows "event_owes e = {#} \<Longrightarrow> settled (post_event e r1)"
    and "event_owes e = {#r_next_promise r1#} \<Longrightarrow>
      settled (post_event e (r1\<lparr>r_next_promise := Suc (r_next_promise r1)\<rparr>))"
proof -
  have b: "settled r1" using assms(1) settled_cong [OF assms(2)] by simp
  show "settled (post_event e r1)" if "event_owes e = {#}"
    by (rule promised_settled [OF b, of _ e]) (simp_all add: post_event_def that)
  show "settled (post_event e (r1\<lparr>r_next_promise := Suc (r_next_promise r1)\<rparr>))"
    if "event_owes e = {#r_next_promise r1#}"
    by (rule promised_settled [OF b, of _ e]) (simp_all add: post_event_def that)
qed

lemma cmd_vel_call_settled:
  assumes bal: "settled r"
  shows "settled (snd (cmd_vel_call b vx vy wz r))"
proof -
  have keep: "settled r''" if "ledger r'' = ledger r" for r'' using bal settled_cong [OF that] by simp
  obtain ok tb where tb: "try_acquire_at (r_now r) (r_cmdvel_limiter r) = (ok, tb)" by fastforce
  define r1 where "r1 = upd_cmdvel_stat count_call (r\<lparr>r_cmdvel_limiter := tb\<rparr>)"
  have b1: "settled r1" using keep by (simp add: r1_def)
  have "settled (post_event (EvCmdVel vx vy wz sq t (r_next_promise r1))
      (r1\<lparr>r_next_promise := Suc (r_next_promise r1), r_cmdvel_seq := n\<rparr>))" for sq t n
    by (rule promised_settled [OF b1, of _ "EvCmdVel vx vy wz sq t (r_next_promise r1)"])
      (simp_all add: post_event_def)
  then show ?thesis
    using bal keep by (simp add: cmd_vel_call_def tb new_promise_def r1_def [symmetric] Let_def)
qed

lemma subscribe_internal_settled:
  assumes "settled r"
  shows "settled (snd (subscribe_internal c topic hz fd cb r))"
  by (rule promised_settled [OF assms, of _ "EvSubscribe (r_next_slot r)"])
    (simp_all add: subscribe_internal_def Let_def)

lemma user_step_settled:
  assumes step: "user_step c r r'" and bal: "settled r"
  shows "settled r'"
proof -
  have keep: "settled r''" if "ledger r'' = ledger r" for r'' using bal settled_cong [OF that] by simp
  note posted = posted_settled [OF bal]
  show ?thesis
    using step
  proof cases
    case (cmd_vel b vx vy wz)
    then show ?thesis using cmd_vel_call_settled [OF bal] by simp
  next
    case (unsubscribe i b)
    then show ?thesis
      using posted(2) [OF refl] bal by (simp add: facade_unsubscribe_def unsubscribe_request_def new_promise_def)
  next
    case (facade_gone i)
    then show ?thesis
      using posted(1) keep by (simp add: facade_destroy_def unsubscribe_request_def Let_def)
  next
    case close
    then show ?thesis using posted(1) bal by (simp add: close_call_def)
  qed (use bal keep posted(1) posted(2) [OF refl] subscribe_internal_settled [OF bal] in
      \<open>simp_all add: subscribe_robot_status_def subscribe_task_events_def subscribe_safety_events_def
        emergency_stop_call_def task_call_def ping_call_def get_diagnostics_def new_promise_def Let_def\<close>)
qed

lemma timer_step_settled:
  assumes step: "timer_step r r'" and bal: "settled r"
  shows "settled r'"
proof -
  note posted = posted_settled(1) [OF bal]
  show ?thesis
    using step
  proof cases
    case (rpc rid rpc t)
    let ?r1 = "put_inflight rid (rpc\<lparr>ir_timeout := None\<rparr>) r"
    have ids: "ids_fit r" and fair: "fair {#} r" using bal by (simp_all add: settled_def)
    then have d: "distinct (map fst (r_inflight r))" by (simp add: ids_fit_def)
    have owed: "inflight_owes (r_inflight ?r1) = inflight_owes (r_inflight r)"
      using inflight_owes_update [OF d] inflight_owes_delete [OF d rpc(2)] by (simp add: put_inflight_def)
    have mem: "(rid, rpc) \<in> set (r_inflight r)" using map_of_SomeD [OF rpc(2)] .
    have "replaying (r_inflight ?r1) \<Longrightarrow> replaying (r_inflight r)"
      using update_subset [of rid "rpc\<lparr>ir_timeout := None\<rparr>" "r_inflight r"] mem
      by (force simp: replaying_def put_inflight_def)
    then have "alone (r_inflight ?r1)" using fair owed by (auto simp: fair_def alone_def)
    moreover have "ids_fit ?r1"
      using ids mem distinct_update [OF d, of rid] by (force simp: ids_fit_def put_inflight_def dom_update)
    ultimately have "settled ?r1"
      using fair owed by (simp add: settled_def fair_def books_def answered_def put_inflight_def)
    then show ?thesis using posted_settled(1) [of ?r1 ?r1] rpc(1) by simp
  qed (use posted in simp_all)
qed

lemma robot_step_settled:
  assumes step: "robot_step c depth r r'" and bal: "settled r" and inv: "life_inv h0 r"
  shows "settled r'"
proof -
  have keep: "settled r''" if "ledger r'' = ledger r" for r'' using bal settled_cong [OF that] by simp
  note posted = posted_settled(1) [OF bal]
  show ?thesis
    using step
  proof cases
    case round
    then show ?thesis using round_good [OF bal inv round] by simp
  next
    case user
    then show ?thesis using user_step_settled bal by blast
  next
    case timer
    then show ?thesis using timer_step_settled bal by blast
  next
    case ended
    then show ?thesis using bal by (simp add: settled_def fair_def ids_fit_def books_def answered_def)
  qed (use keep posted in simp_all)
qed

definition accounts :: "robot \<Rightarrow> bool" where
  "accounts r \<longleftrightarrow> life_inv [] r \<and> settled r"

lemma accounts_start:
  assumes "robot_start c r"
  shows "accounts r"
proof -
  obtain env now epoch where r: "r = (robot_new (cx_opts c) env now epoch)\<lparr>r_work_guard := True\<rparr>"
    using assms by (auto simp: robot_start_def robot_create_def split: option.splits)
  have "settled r"
    by (simp add: r robot_new_def settled_def fair_def ids_fit_def alone_def books_def answered_def)
  then show ?thesis using life_inv_start [OF assms] by (simp add: accounts_def)
qed

lemma accounts_step: "accounts r \<Longrightarrow> fresh_step c depth r r' \<Longrightarrow> accounts r'"
  using life_inv_step robot_step_settled by (auto simp: accounts_def fresh_step_def)

interpretation accounts: inductive_invariant "robot_start c" "fresh_step c depth" accounts
  by unfold_locales (auto intro: accounts_start accounts_step)

section \<open>The end of a connection\<close>

lemma accounts_parts:
  assumes "accounts r"
  shows "inflight_owes (r_inflight r) + queue_owes (r_ioc r) + answered r = mset [0..<r_next_promise r]"
    "life_inv [] r" "sess_ok [] (session r)"
  using assms by (simp_all add: accounts_def settled_def fair_def books_def life_inv_def)

lemma released_all:
  assumes "fair m r" "ledger r1 = ledger r" "err \<noteq> EcOk" "\<not> replaying (r_inflight r) \<or> r_state r1 = CsShutdown"
  shows "fine (\<lambda>r2. released err (inflight_owes (r_inflight r)) m r1 r2)
    (complete_all (call_on_complete c (Suc d)) resp err (r_inflight r1) r1)"
proof -
  have "fair m r1" using assms(1) fair_cong [OF assms(2)] by simp
  then show ?thesis
    using assms(3,4) ledger_eqD(1) [OF assms(2)]
    by (simp only:) (rule complete_all_fine, simp_all add: fair_def ac_simps)
qed

lemma close_fine:
  assumes "balanced q m r"
  shows "fine (\<lambda>r'. r_state r' = CsShutdown \<and> r_inflight r' = [] \<and> r_ws r' = None \<and> r_active_subs r' = []
      \<and> answers_failed EcCancelled (inflight_owes (r_inflight r)) r r')
    (handle_close c (call_on_complete c (Suc d)) r)"
proof -
  define r2 where "r2 = (transition_to CsShutdown
      (change_info ''user Close()'' EcCancelled [] 0 (r_reconnect_attempt r) []) r)
    \<lparr>r_idle_timer := None, r_ping_timer := None, r_reconnect_timer := None, r_sub_ack_timers := []\<rparr>"
  have l: "ledger r2 = ledger r" by (simp add: r2_def)
  have st: "r_state r2 = CsShutdown"
    by (simp add: r2_def state_transition)
  have "fair m r" using assms by (simp add: balanced_def)
  from released_all [OF this l, of EcCancelled] st
  have "fine (released EcCancelled (inflight_owes (r_inflight r)) m r2)
    (complete_all (call_on_complete c (Suc d)) decoded_response_default EcCancelled (r_inflight r2) r2)" by simp
  then obtain r3 where run: "complete_all (call_on_complete c (Suc d)) decoded_response_default EcCancelled
      (r_inflight r2) r2 = Inr r3" and r3: "released EcCancelled (inflight_owes (r_inflight r)) m r2 r3"
    by (auto simp: fine_def)
  define r6 where "r6 = ws_close_reset ((fold (\<lambda>(topic, i). close_slot EcCancelled ''Robot::Close()'' i)
      (r_active_subs r3) (r3\<lparr>r_inflight := []\<rparr>))\<lparr>r_active_subs := []\<rparr>)"
  have out: "handle_close c (call_on_complete c (Suc d)) r = Inr (r6\<lparr>r_work_guard := False\<rparr>)"
    using run unfolding handle_close_def r6_def r2_def Let_def by simp
  have s6: "session r6 = (session r3)\<lparr>s_inflight := [], s_active := [], s_has_ws := False\<rparr>"
    by (simp add: r6_def)
  have "r_state r6 = CsShutdown" "r_inflight r6 = []" "r_ws r6 = None" "r_active_subs r6 = []"
    using arg_cong [OF s6, of s_state] arg_cong [OF s6, of s_inflight] arg_cong [OF s6, of s_has_ws]
      arg_cong [OF s6, of s_active] r3 st by (simp_all add: released_def)
  moreover have "answers_failed EcCancelled (inflight_owes (r_inflight r)) r r6"
  proof -
    have "ledger r6 = ledger (r3\<lparr>r_inflight := []\<rparr>)" by (simp add: r6_def)
    from ledger_eqD(4) [OF this] have "r_answers r6 = r_answers r3" by simp
    then show ?thesis
      using r3 ledger_eqD(4) [OF l] by (simp add: released_def answers_failed_def)
  qed
  ultimately show ?thesis unfolding out by (simp add: answers_failed_def)
qed

lemma abort_idle:
  assumes "r_inflight r = []"
  shows "fine (\<lambda>r'. ledger r' = ledger r) (abort_to_fatal oc err msg r)"
proof -
  define r1 where "r1 = (fold (\<lambda>(topic, i). close_slot err (if msg = [] then ''Fatal'' else msg) i)
    (r_active_subs r) r)\<lparr>r_active_subs := []\<rparr>"
  have l: "ledger r1 = ledger r" by (simp add: r1_def)
  have e: "r_inflight r1 = []" using ledger_eqD(1) [OF l] assms by simp
  then have "ledger (r1\<lparr>r_inflight := []\<rparr>) = ledger r1" by (simp add: ledger_def)
  then show ?thesis
    unfolding abort_to_fatal_def Let_def r1_def [symmetric] e using l by simp
qed

lemma do_reconnect_idle:
  assumes "r_inflight r = []"
  shows "fine (\<lambda>r'. ledger r' = ledger r) (do_reconnect c oc attempt r)"
proof -
  obtain d r1 where b: "next_backoff c (attempt - 1) r = (d, r1)" by fastforce
  show ?thesis
    using abort_idle [OF assms] ledger_looksD(3) [OF b] by (simp add: do_reconnect_def b Let_def)
qed

text \<open>Without a replay in flight \<open>OnTransportClose\<close> does not crash, and answers every call with the reason.\<close>

lemma lost_fine:
  assumes bal: "balanced q m r" and ok: "sess_ok h0 (session r)" and no_replay: "\<not> replaying (r_inflight r)"
    and st: "r_state r \<notin> {CsIdle, CsShutdown, CsFatal}" and reason: "reason \<noteq> EcOk"
  shows "fine (\<lambda>r'. r_state r' \<in> {CsTransientFailure, CsFatal} \<and> r_inflight r' = []
      \<and> answers_failed reason (inflight_owes (r_inflight r)) r r')
    (on_transport_close c (call_on_complete c (Suc d)) reason msg r)"
proof -
  let ?oc = "call_on_complete c (Suc d)"
  let ?r1 = "pause_all_subs reason msg r"
  have l: "ledger ?r1 = ledger r" by simp
  have "fair m r" using bal by (simp add: balanced_def)
  from released_all [OF this l reason, of c d "fake_response reason msg"] no_replay obtain r2 where
    run: "complete_all ?oc (fake_response reason msg) reason (r_inflight ?r1) ?r1 = Inr r2"
    and r2: "released reason (inflight_owes (r_inflight r)) m ?r1 r2"
    unfolding fine_def by blast
  let ?r3 = "mark_lost c reason msg r2"
  have l3: "ledger ?r3 = ledger (r2\<lparr>r_inflight := []\<rparr>)" by (simp add: mark_lost_def Let_def case_prod_beta)
  have "fine (\<lambda>r'. ledger r' = ledger ?r3) (do_reconnect c ?oc (r_reconnect_attempt ?r3 + 1) ?r3)"
    by (rule do_reconnect_idle) (use ledger_eqD(1) [OF l3] in simp)
  then obtain r' where r': "do_reconnect c ?oc (r_reconnect_attempt ?r3 + 1) ?r3 = Inr r'" "ledger r' = ledger ?r3"
    by (auto simp: fine_def)
  have out: "on_transport_close c ?oc reason msg r = Inr r'"
    using st run r'(1) by (simp add: on_transport_close_def Let_def)
  have "r_inflight r' = []" "r_answers r' = r_answers r2"
    using ledger_eqD(1,4) [OF r'(2)] ledger_eqD(1,4) [OF l3] by simp_all
  moreover have "r_state r' \<in> {CsTransientFailure, CsFatal}"
    using close_result(2,5) [OF ok _ _ out] st reason by (auto simp: down_def)
  ultimately show ?thesis
    using r2 ledger_eqD(4) [OF l] unfolding out by (simp add: released_def answers_failed_def)
qed

section \<open>After \<open>Close\<close>\<close>

text \<open>A handler that only answers: the books before and after.\<close>

definition only_answers :: "robot \<Rightarrow> robot \<Rightarrow> bool" where
  "only_answers r r' \<longleftrightarrow> (\<exists>as. ledger r' = ledger (r\<lparr>r_answers := as @ r_answers r\<rparr>))"

lemma only_answers_ledger: "ledger r' = ledger r \<Longrightarrow> only_answers r r'"
  by (auto simp: only_answers_def intro!: exI [of _ "[]"])

lemma set_value_only_answers:
  assumes "balanced q (add_mset p m) r" "ledger r1 = ledger r"
  shows "fine (only_answers r) (set_value p a r1)"
proof -
  have "books (add_mset p (m + inflight_owes (r_inflight r))) r"
    using assms(1) by (simp add: balanced_def fair_def)
  from unset_promise [OF this] have "set_value p a r1 = Inr (r1\<lparr>r_answers := [(p, a)] @ r_answers r\<rparr>)"
    using ledger_eqD(4) [OF assms(2)] by (simp add: set_value_def)
  then show ?thesis using assms(2) by (auto simp: only_answers_def ledger_def)
qed

lemma shutdown_ack:
  assumes ok: "sess_ok h0 (session r)" and fresh: "\<not> wrapped (session r)" and st: "r_state r = CsShutdown"
  shows "fine (only_answers r) (handle_subscribe_ack c oc resp r)"
proof -
  define rid where "rid = dr_request_id resp"
  have "sl_inflight_request (r_slots r i) \<noteq> rid"
    if "map_of (r_inflight_sub r) rid = Some topic" "map_of (r_active_subs r) topic = Some i" for topic i
  proof
    assume same: "sl_inflight_request (r_slots r i) = rid"
    have "rid \<in> set (s_sub_ids (session r))" using map_of_SomeD [OF that(1)] by force
    then have "rid \<noteq> 0" using sess_okD(5) [OF ok] fresh by (auto simp: subs_ok_def)
    then show False
      using requested_can_subscribe(2) [OF ok, of topic i] map_of_SomeD [OF that(2)] same st by simp
  qed
  then show ?thesis
    by (auto simp: handle_subscribe_ack_def Let_def rid_def [symmetric] only_answers_ledger split: option.split)
qed

lemma shutdown_handle:
  assumes ok: "sess_ok h0 (session r)" and fresh: "\<not> wrapped (session r)" and st: "r_state r = CsShutdown"
    and bal: "balanced q (event_owes e) r"
  shows "fine (only_answers r) (handle_event c oc e r)"
proof -
  have idle: "r_inflight r = []" using sess_okD(3) [OF ok] st by (simp add: inflight_ok_def)
  note answer = set_value_only_answers [where r = r and m = "{#}"]
  note quiet = only_answers_ledger
  show ?thesis
  proof (cases e)
    case (EvInbound b)
    define r2 where "r2 = reset_liveness_on_inbound
      (upd_metrics (\<lambda>m. m\<lparr>mt_bytes_received := mt_bytes_received m + of_nat (length b)\<rparr>) r)"
    have l: "ledger r2 = ledger r" and s: "session r2 = session r" by (simp_all add: r2_def)
    have "r_state r2 = CsShutdown" using arg_cong [OF s, of s_state] st by simp
    with ok fresh s have "fine (only_answers r2) (handle_subscribe_ack c oc resp r2)" for resp
      by (intro shutdown_ack [of h0]) simp_all
    moreover have "only_answers r = only_answers r2" using l by (simp add: only_answers_def fun_eq_iff ledger_def)
    ultimately show ?thesis
      using EvInbound idle l ledger_eqD(1) [OF l] quiet
      by (simp add: handle_event_def on_inbound_message_def r2_def [symmetric] handle_sdk_response_def Let_def
          split: inbound.split)
  next
    case (EvUnsubSync topic p)
    then show ?thesis using st bal answer [of q p]
      by (simp add: handle_event_def handle_unsub_sync_def Let_def split: option.split)
  next
    case (EvDiagnostics p)
    then show ?thesis using st bal answer [of q p]
      by (simp add: handle_event_def case_prod_beta)
  next
    case (EvUnsubAsync topic)
    then show ?thesis using st quiet
      by (simp add: handle_event_def handle_unsub_async_def Let_def split: option.split)
  next
    case EvConnect
    then show ?thesis using st quiet by (simp add: handle_event_def)
  next
    case (EvSubAckTimeout i rid)
    have "r_state (post_log lvl line r) = r_state r" for lvl line
      using session_simps(1) [of "post_log lvl line r"] by simp
    then show ?thesis
      using EvSubAckTimeout st quiet by (simp add: handle_event_def on_sub_ack_timeout_def on_transport_close_def)
  next
    case EvClose
    define r2 where "r2 = (transition_to CsShutdown
        (change_info ''user Close()'' EcCancelled [] 0 (r_reconnect_attempt r) []) r)
      \<lparr>r_idle_timer := None, r_ping_timer := None, r_reconnect_timer := None, r_sub_ack_timers := []\<rparr>"
    have l: "ledger r2 = ledger r" by (simp add: r2_def)
    have e: "r_inflight r2 = []" using ledger_eqD(1) [OF l] idle by simp
    then have "ledger (r2\<lparr>r_inflight := []\<rparr>) = ledger r2" by (simp add: ledger_def)
    then show ?thesis
      unfolding EvClose handle_event_def event.case handle_close_def Let_def r2_def [symmetric] e
      using l quiet by simp
  qed (use st bal idle answer quiet in \<open>simp_all add: handle_event_def handle_cmd_vel_def handle_estop_def
      handle_invoke_def handle_ping_def register_call_def on_transport_close_def handle_subscribe_def
      on_idle_timer_def on_ping_deadline_def on_reconnect_timer_def on_rpc_timeout_def Let_def\<close>)
qed

lemma shutdown_round:
  assumes acc: "accounts r" and st: "r_state r = CsShutdown" and q: "r_ioc r = e # es" and run: "\<not> r_loop_done r"
  shows "\<exists>r'. loop_round c d r = Some (Inr r') \<and> accounts r' \<and> r_state r' = CsShutdown \<and> r_ioc r' = es
    \<and> \<not> r_loop_done r' \<and> r_next_promise r' = r_next_promise r"
proof -
  have inv: "life_inv [] r" and set: "settled r" using acc by (simp_all add: accounts_def)
  then have ok: "sess_ok [] (session r)" and fresh: "\<not> wrapped (session r)" by (simp_all add: life_inv_def)
  let ?r0 = "r\<lparr>r_ioc := es\<rparr>"
  have ok0: "sess_ok [] (session ?r0)" using sess_ok_pop [OF ok q] .
  have fresh0: "\<not> wrapped (session ?r0)" using fresh by (simp add: wrapped_def)
  have "fine (only_answers ?r0) (handle_event c (call_on_complete c d) e ?r0)"
    by (rule shutdown_handle [OF ok0 fresh0 _ pop_balanced [OF set q]]) (simp add: st)
  then obtain r' where run': "handle_event c (call_on_complete c d) e ?r0 = Inr r'" and "only_answers ?r0 r'"
    by (auto simp: fine_def)
  then obtain as where l: "ledger r' = ledger (?r0\<lparr>r_answers := as @ r_answers r\<rparr>)"
    by (auto simp: only_answers_def)
  have round: "loop_round c d r = Some (Inr r')" using run run' by (simp add: loop_round_def q)
  have "r_requests r' = r_requests r" using ledger_eqD(2) [OF l] by simp
  then have step: "fresh_step c d r r'"
    using robot_step.round [OF round] fresh by (simp add: fresh_step_def wrapped_def)
  obtain qs where "is_path (r_state r) qs (r_state r')" using later_history [OF inv, of c d r'] step by blast
  then have "r_state r' = CsShutdown" using is_path_from_terminal [of qs "r_state r'"] st by simp
  then show ?thesis
    using round accounts_step [OF acc step] ledger_eqD(3,5,6) [OF l] run by simp
qed

text \<open>\<open>n\<close> rounds of the loop, or as many as there are handlers for.\<close>

fun run_rounds :: "ctx \<Rightarrow> nat \<Rightarrow> nat \<Rightarrow> robot \<Rightarrow> robot outcome" where
  "run_rounds c depth 0 r = Inr r"
| "run_rounds c depth (Suc n) r =
     (case loop_round c depth r of None \<Rightarrow> Inr r | Some out \<Rightarrow> obind out (run_rounds c depth n))"

lemma shutdown_drains_loop:
  assumes "accounts r" "r_state r = CsShutdown" "\<not> r_loop_done r"
  shows "\<exists>r'. run_rounds c d (length (r_ioc r)) r = Inr r' \<and> accounts r' \<and> r_state r' = CsShutdown \<and> r_ioc r' = []
    \<and> r_next_promise r' = r_next_promise r"
  using assms
proof (induction "r_ioc r" arbitrary: r)
  case Nil
  then show ?case by (simp flip: Nil.hyps)
next
  case (Cons e es)
  from shutdown_round [OF Cons.prems(1,2) Cons.hyps(2) [symmetric] Cons.prems(3), of c d] obtain r1 where
    r1: "loop_round c d r = Some (Inr r1)" "accounts r1" "r_state r1 = CsShutdown" "r_ioc r1 = es"
      "\<not> r_loop_done r1" "r_next_promise r1 = r_next_promise r" by blast
  have "length (r_ioc r) = Suc (length (r_ioc r1))" by (simp add: r1(4) flip: Cons.hyps(2))
  then show ?case using Cons.hyps(1) [OF r1(4) [symmetric] r1(2,3,5)] r1(1,6) by simp
qed

end
