(* ===== verification/CallClaims.thy ===== *)
theory CallClaims
  imports PromiseLoop Sample RobotApi
begin

text \<open>
  What a caller that waits can rely on: its promise is in the books, it is not answered twice, and the
  end of the connection or of the robot answers it.
\<close>

text \<open>
  C6. Every promise handed out to a caller that waits is in exactly one place: a handler in the queue of
  the control thread owes it, or one call in flight does, or it has been answered, once. This holds in
  every reachable state, for every interleaving of users, network, timers and handlers.
\<close>

theorem promises_accounted:
  assumes "reach (robot_start c) (fresh_step c depth) r"
  shows "inflight_owes (r_inflight r) + queue_owes (r_ioc r) + mset (map fst (r_answers r))
    = mset [0..<r_next_promise r]"
  using accounts_parts(1) [OF accounts.reach_inv [OF assms]] by (simp add: answered_def)

definition to_calling :: "action list" where
  "to_calling = to_ready @ [CmdVel, Ping, Round, Round, Inbound [2, 2], Round, Ping]"

lemma sample_calling:
  "map fst (r_answers (sampled to_calling)) = [0]" "r_next_promise (sampled to_calling) = 3"
  "r_state (sampled to_calling) = CsReady" "map fst (r_inflight (sampled to_calling)) = [3]"
  by code_simp+

theorem promises_accounted_witness:
  "inflight_owes (r_inflight (sampled to_calling)) + queue_owes (r_ioc (sampled to_calling)) = {#1, 2#}"
proof -
  have "mset (map fst (r_answers (sampled to_calling))) = {#0#}" by (simp only: sample_calling(1)) simp
  moreover have "mset [0..<r_next_promise (sampled to_calling)] = {#0#} + {#1, 2#}"
    by (simp add: sample_calling(2) eval_nat_numeral)
  ultimately show ?thesis using promises_accounted [OF sampled_reach, of to_calling] by simp
qed

text \<open>
  C7. No promise is set twice: whatever handler is the oldest in the queue of a reachable robot, running
  it does not throw \<open>std::future_error\<close> (promise already satisfied), however deep the stack is.
\<close>

theorem never_answered_twice:
  assumes "reach (robot_start c) (fresh_step c depth) r"
  shows "loop_round c stack r \<noteq> Some (Inl PromiseSatisfied)"
  using accounts.reach_inv [OF assms] round_good [of r "[]" c stack "Inl PromiseSatisfied"]
  by (auto simp: accounts_def)

theorem never_answered_twice_witness:
  "\<forall>stack. loop_round sample_ctx stack (sampled to_calling) \<noteq> Some (Inl PromiseSatisfied)"
  using never_answered_twice [OF sampled_reach] by blast

text \<open>
  C8. The handler of \<open>Close\<close> does not crash; it leaves the robot in \<open>Shutdown\<close> with nothing in flight, no
  WebSocket and no subscription, and it answers every call that was in flight, once, with \<open>Cancelled\<close>
  (a ping with -1).
\<close>

theorem close_answers_all:
  assumes "reach (robot_start c) (fresh_step c depth) r" "r_ioc r = EvClose # es" "\<not> r_loop_done r"
  shows "\<exists>r'. loop_round c (Suc stack) r = Some (Inr r') \<and> r_state r' = CsShutdown \<and> r_inflight r' = []
    \<and> r_ws r' = None \<and> r_active_subs r' = [] \<and> answers_failed EcCancelled (inflight_owes (r_inflight r)) r r'"
proof -
  have "settled r" using accounts.reach_inv [OF assms(1)] by (simp add: accounts_def)
  from pop_balanced [OF this assms(2)] have "balanced es {#} (r\<lparr>r_ioc := es\<rparr>)" by simp
  from close_fine [OF this, of c stack] show ?thesis
    using assms(2,3) by (auto simp: fine_def loop_round_def handle_event_def answers_failed_def)
qed

definition to_closing :: "action list" where
  "to_closing = to_ready @ [Ping, Round, Stop]"

lemma sample_closing:
  "r_ioc (sampled to_closing) = [EvClose]" "\<not> r_loop_done (sampled to_closing)"
  "inflight_owes (r_inflight (sampled to_closing)) = {#0#}"
  by code_simp+

theorem close_answers_all_witness:
  "\<exists>r'. loop_round sample_ctx 1 (sampled to_closing) = Some (Inr r') \<and> r_state r' = CsShutdown
    \<and> answers_failed EcCancelled {#0#} (sampled to_closing) r'"
  using close_answers_all [OF sampled_reach sample_closing(1,2), of 0] sample_closing(3) by auto

text \<open>
  C9. When the connection is lost and no emergency stop is being replayed, \<open>OnTransportClose\<close> does not
  crash: it answers every call in flight, once, with the reason (a ping with -1), empties the map, and
  leaves the robot in \<open>TransientFailure\<close>, or in \<open>Fatal\<close> when the attempts are used up.
\<close>

theorem lost_connection_answers_all:
  assumes "reach (robot_start c) (fresh_step c depth) r" "\<not> replaying (r_inflight r)" "reason \<noteq> EcOk"
    "r_state r \<notin> {CsIdle, CsShutdown, CsFatal}"
  shows "\<exists>r'. on_transport_close c (call_on_complete c (Suc stack)) reason msg r = Inr r'
    \<and> r_state r' \<in> {CsTransientFailure, CsFatal} \<and> r_inflight r' = []
    \<and> answers_failed reason (inflight_owes (r_inflight r)) r r'"
proof -
  note inv = accounts.reach_inv [OF assms(1)]
  then have "balanced (r_ioc r) {#} r" by (simp add: accounts_def settled_def balanced_def)
  from lost_fine [OF this accounts_parts(3) [OF inv] assms(2,4,3)] show ?thesis unfolding fine_def .
qed

theorem lost_connection_answers_all_witness:
  "\<exists>r'. on_transport_close sample_ctx (call_on_complete sample_ctx 1) EcTransportFailure [] (sampled to_closing) = Inr r'
    \<and> r_inflight r' = [] \<and> answers_failed EcTransportFailure {#0#} (sampled to_closing) r'"
proof -
  have "\<not> replaying (r_inflight (sampled to_closing))" "r_state (sampled to_closing) = CsReady"
    by code_simp+
  then show ?thesis
    using lost_connection_answers_all [OF sampled_reach, of to_closing EcTransportFailure 0 "[]"] sample_closing(3)
    by auto
qed

text \<open>
  C10. After \<open>Close\<close> the control loop empties its queue in as many rounds as there are handlers in it (a
  handler of a closed robot neither crashes nor posts another), and then every promise that was ever
  handed out has been answered exactly once.
\<close>

theorem closed_loop_drains:
  assumes "reach (robot_start c) (fresh_step c depth) r" "r_state r = CsShutdown" "\<not> r_loop_done r"
  shows "\<exists>r'. run_rounds c stack (length (r_ioc r)) r = Inr r' \<and> r_ioc r' = [] \<and> r_state r' = CsShutdown
    \<and> mset (map fst (r_answers r')) = mset [0..<r_next_promise r]"
proof -
  obtain r' where r': "run_rounds c stack (length (r_ioc r)) r = Inr r'" "accounts r'" "r_state r' = CsShutdown"
    "r_ioc r' = []" "r_next_promise r' = r_next_promise r"
    using shutdown_drains_loop [OF accounts.reach_inv [OF assms(1)] assms(2,3)] by blast
  have "r_inflight r' = []" using life_parts(1) [OF accounts_parts(2) [OF r'(2)]] r'(3) by (simp add: inflight_ok_def)
  then show ?thesis using r' accounts_parts(1) [OF r'(2)] by (simp add: answered_def)
qed

definition to_late :: "action list" where
  "to_late = to_ready @ [Stop, Ping, EStop ''late'', Round]"

lemma sample_late:
  "r_state (sampled to_late) = CsShutdown" "\<not> r_loop_done (sampled to_late)" "length (r_ioc (sampled to_late)) = 2"
  "r_next_promise (sampled to_late) = 2" "r_answers (sampled to_late) = []"
  by code_simp+

theorem closed_loop_drains_witness:
  "\<exists>r'. run_rounds sample_ctx 1 2 (sampled to_late) = Inr r' \<and> mset (map fst (r_answers r')) = {#0, 1#}"
  using closed_loop_drains [OF sampled_reach sample_late(1,2), of 1] sample_late(3,4)
  by (auto simp: eval_nat_numeral add_mset_commute)



text \<open>
  C13. A remote call made on the control thread, as a callback of a subscription in \<open>Inline\<close> mode can, waits
  for ever: its promise stays unset as long as the control thread, which is waiting, runs no handler,
  whatever users, server, timers and clock do. (The gate tests the dispatcher's thread only.)
\<close>

theorem inline_call_waits_forever:
  assumes "reach (robot_start c) (fresh_step c depth) r" "remote_call call" "r_state r = CsReady" "\<not> throttled call r"
    "call_robot c ControlThread call r = (res, r1)" "(other_step c depth)\<^sup>*\<^sup>* r1 r2"
  shows "\<exists>p. result_awaits res = {p} \<and> map_of (r_answers r2) p = None"
proof -
  have "set_mset (mset [0..<r_next_promise r]) = {0..<r_next_promise r}" by simp
  moreover have "answered r \<subseteq># mset [0..<r_next_promise r]"
    using accounts_parts(1) [OF accounts.reach_inv [OF assms(1)]] by (metis mset_subset_eq_add_right)
  ultimately have "r_next_promise r \<notin> fst ` set (r_answers r)"
    by (fastforce simp: answered_def dest: set_mset_mono)
  moreover have "r_answers r2 = r_answers r"
  proof -
    have "r_answers r1 = r_answers r"
      using api_calls_are_steps [of c ControlThread call r] user_step_answers assms(5) by auto
    then show ?thesis using other_steps_answers [OF assms(6)] by simp
  qed
  moreover have "result_awaits res = {r_next_promise r}"
    using assms(2-5) by (cases call) (auto simp: api_defs Let_def split: prod.splits if_splits)
  ultimately show ?thesis by (simp add: map_of_eq_None_iff)
qed

theorem inline_call_waits_forever_witness:
  "\<exists>p. result_awaits (fst (call_robot sample_ctx ControlThread ApiPing (sampled to_ready))) = {p}
    \<and> map_of (r_answers (snd (call_robot sample_ctx ControlThread ApiPing (sampled to_ready)))) p = None"
  using inline_call_waits_forever [OF sampled_reach _ sample_ready _ prod.collapse [symmetric] rtranclp.rtrancl_refl, of ApiPing]
  by simp

end
