(* ===== verification/ExampleRuns.thy ===== *)
theory ExampleRuns
  imports Examples CallClaims
begin

text \<open>
  What the sample programs rely on, and what their exit codes mean: an invariant of each program over its
  program point and the robot, kept by its own calls and by everything that goes on around it.
\<close>

section \<open>The contract of a program\<close>

locale demo_client =
  fixes nxt :: "bool \<Rightarrow> 'b point \<Rightarrow> robot \<Rightarrow> ('b point \<times> robot) option"
    and c :: ctx and depth :: nat and l :: launch
    and ok :: "'b point \<Rightarrow> bool \<Rightarrow> robot \<Rightarrow> bool"
  assumes launched: "l = Started r \<Longrightarrow> robot_start c r"
    and begins: "ok AtHandler s r"
    and calls: "ok p s r \<Longrightarrow> nxt s p r = Some (p', r') \<Longrightarrow> (user_step c)\<^sup>*\<^sup>* r r'"
    and continues: "reach (robot_start c) (fresh_step c depth) r \<Longrightarrow> ok p s r \<Longrightarrow> nxt s p r = Some (p', r') \<Longrightarrow> ok p' s r'"
    and bears: "ok p s r \<Longrightarrow> fresh_step c depth r r' \<Longrightarrow> ok p s r'"
    and interrupted: "ok p s r \<Longrightarrow> ok p True r"
begin

sublocale run: inductive_invariant "demo_start l" "demo_step nxt c depth"
  "\<lambda>(p, s, r). reach (robot_start c) (fresh_step c depth) r \<and> ok p s r"
proof
  show "demo_start l st \<Longrightarrow> case st of (p, s, r) \<Rightarrow> reach (robot_start c) (fresh_step c depth) r \<and> ok p s r" for st
    by (cases st) (auto simp: demo_start_def intro: reach_start launched begins)
next
  fix st st' assume inv: "case st of (p, s, r) \<Rightarrow> reach (robot_start c) (fresh_step c depth) r \<and> ok p s r"
    and step: "demo_step nxt c depth st st'"
  show "case st' of (p, s, r) \<Rightarrow> reach (robot_start c) (fresh_step c depth) r \<and> ok p s r"
    using step
  proof cases
    case (program s p r p' r')
    then have r: "reach (robot_start c) (fresh_step c depth) r" "ok p s r" using inv by simp_all
    show ?thesis
      using calls_reach [OF calls [OF r(2) program(3)] r(1)] continues [OF r program(3)] program(2) by simp
  next
    case (signal p s r)
    then show ?thesis using inv interrupted [of p s r] by simp
  next
    case (surroundings r r' p s)
    then show ?thesis using inv bears [of p s r r'] reach_step [of "robot_start c" "fresh_step c depth" r r'] by simp
  qed
qed

lemma run_ok:
  "reach (demo_start l) (demo_step nxt c depth) (p, s, r) \<Longrightarrow> reach (robot_start c) (fresh_step c depth) r \<and> ok p s r"
  using run.reach_inv by fastforce

end

section \<open>The beginning of every program\<close>

lemma start_demo_robot:
  assumes "start_demo catches files client (host # dir # rest) env now epoch = Started r"
  shows "robot_start (c\<lparr>cx_opts := demo_options files client host dir\<rparr>) r"
  using assms by (auto simp: start_demo_def robot_start_def split: sum.splits if_splits)

lemma ready_flag_told:
  assumes "on_state \<in> {on_state_demo, on_state_teleop}" "df_ready (flags_of on_state r)"
  shows "CsReady \<in> snd ` set (changes (executed (r_dispatcher r)))"
proof -
  have "df_ready (fold on_state (state_calls ts) f) \<Longrightarrow> df_ready f \<or> CsReady \<in> snd ` set (changes ts)" for ts f
  proof (induction ts arbitrary: f rule: state_calls.induct)
    case (1 h old_s new_s info ts)
    have "df_ready (on_state call f) \<Longrightarrow> df_ready f \<or> fst call = CsReady" for call
      using assms(1) by (auto simp: on_state_demo_def on_state_teleop_def Let_def split: if_splits)
    then show ?case using 1 by (cases "h = 0") fastforce+
  qed simp_all
  from this [of "executed (r_dispatcher r)" no_flags] show ?thesis using assms(2) by (simp add: flags_of_def no_flags_def)
qed

lemma connect_calls: "connect_demo logs on_state c p r = Some (p', r') \<Longrightarrow> (user_step c)\<^sup>*\<^sup>* r r'"
  by (auto simp: connect_demo_def call_robot_def Let_def split: point.splits if_splits intro: user_step.intros)

text \<open>Where the beginning leads to: nowhere undefined, and to \<open>Connected\<close> only with the description there.\<close>

lemma connect_leads:
  assumes "reach (robot_start c) (fresh_step c depth) r" "on_state \<in> {on_state_demo, on_state_teleop}"
    "connect_demo logs on_state c p r = Some (p', r')"
  shows "p' \<in> {AtLogHandler, AtConnect, Exited 2} \<or> (\<exists>t. p' = AwaitReady t) \<or> p' = Connected \<and> r_robot_info r' \<noteq> None"
  using assms(3) info_after_ready [OF assms(1)] ready_flag_told [OF assms(2), of r]
  by (auto simp: connect_demo_def Let_def split: point.splits if_splits)

definition connected_ok :: "'b point \<Rightarrow> robot \<Rightarrow> bool" where
  "connected_ok p r \<longleftrightarrow> p \<noteq> Undefined \<and> (p = Connected \<longrightarrow> r_robot_info r \<noteq> None)"

lemma connected_bears: "connected_ok p r \<Longrightarrow> fresh_step c depth r r' \<Longrightarrow> connected_ok p r'"
  using fresh_kept(3) by (auto simp: connected_ok_def)

section \<open>Promises and answers\<close>

lemma answered_before:
  assumes "reach (robot_start c) (fresh_step c depth) r" "map_of (r_answers r) p = Some a"
  shows "p < r_next_promise r"
proof -
  have "p \<in># answered r" using assms(2) by (auto simp: answered_def dest!: map_of_SomeD intro: rev_image_eqI)
  then have "p \<in># inflight_owes (r_inflight r) + queue_owes (r_ioc r) + answered r" by simp
  then show ?thesis unfolding accounts_parts(1) [OF accounts.reach_inv [OF assms(1)]] by simp
qed

text \<open>The calls a program makes: steps of the robot, that set no promise; a refusal is no success.\<close>

lemma estop_call:
  assumes "emergency_stop_call False engage reason r = (w, r')"
  shows "user_step c r r'" "r_answers r' = r_answers r" "w = WaitsFor q \<Longrightarrow> q = r_next_promise r"
    "w = Returns x \<Longrightarrow> \<not> er_ok x"
proof -
  have r': "r' = snd (emergency_stop_call False engage reason r)" using assms by simp
  show "user_step c r r'" unfolding r' by (rule user_step.estop)
  then show "r_answers r' = r_answers r" by (rule user_step_answers)
qed (use assms in \<open>auto simp: emergency_stop_call_def new_promise_def Let_def split: if_splits\<close>)

lemma cmd_vel_calls:
  assumes "cmd_vel_call False vx vy wz r = (w, r')"
  shows "user_step c r r'" "r_answers r' = r_answers r" "w = WaitsFor q \<Longrightarrow> q = r_next_promise r"
    "w = Returns x \<Longrightarrow> \<not> cvr_accepted x"
proof -
  have r': "r' = snd (cmd_vel_call False vx vy wz r)" using assms by simp
  show "user_step c r r'" unfolding r' by (rule user_step.cmd_vel)
  then show "r_answers r' = r_answers r" by (rule user_step_answers)
qed (use assms in \<open>auto simp: cmd_vel_call_def new_promise_def upd_cmdvel_stat_def upd_metrics_def Let_def case_prod_beta
    split: if_splits\<close>)

lemma close_call_step: "user_step c r (close_call r)" "r_answers (close_call r) = r_answers r"
  using user_step.close user_step_answers by blast+

section \<open>\<open>estop_cmdvel_e2e\<close> and \<open>emergency_stop\<close>\<close>

text \<open>An acknowledged call: the promise it waited on was set to a success.\<close>

definition stopped :: "robot \<Rightarrow> nat \<Rightarrow> estop_result \<Rightarrow> bool" where
  "stopped r p x \<longleftrightarrow> map_of (r_answers r) p = Some (AnsEStop x) \<and> er_ok x"

definition driven :: "robot \<Rightarrow> nat \<Rightarrow> cmdvel_result \<Rightarrow> bool" where
  "driven r p x \<longleftrightarrow> map_of (r_answers r) p = Some (AnsCmdVel x) \<and> cvr_accepted x"

definition refused :: "('a \<Rightarrow> bool) \<Rightarrow> 'a call \<Rightarrow> bool" where
  "refused won w \<longleftrightarrow> (case w of Returns x \<Rightarrow> \<not> won x | WaitsFor _ \<Rightarrow> True)"

definition before :: "nat \<Rightarrow> 'a call \<Rightarrow> bool" where
  "before p w \<longleftrightarrow> (case w of Returns _ \<Rightarrow> True | WaitsFor q \<Rightarrow> p < q)"

fun e2e_ok :: "e2e \<Rightarrow> robot \<Rightarrow> bool" where
  "e2e_ok EEngage r = True"
| "e2e_ok (EAwaitEngage w) r = refused er_ok w"
| "e2e_ok (ESettle1 t r1) r = (er_ok r1 \<longrightarrow> (\<exists>p. stopped r p r1))"
| "e2e_ok (EAwaitDrive r1 w) r = (er_ok r1 \<longrightarrow> (\<exists>p. stopped r p r1))"
| "e2e_ok (ESettle2 t r1 r2) r = (er_ok r1 \<longrightarrow> (\<exists>p. stopped r p r1))"
| "e2e_ok (EAwaitRelease r1 r2 w) r = (refused er_ok w \<and> (er_ok r1 \<longrightarrow> (\<exists>p. stopped r p r1 \<and> before p w)))"
| "e2e_ok (ESettle3 t r1 r2 r3) r = (er_ok r1 \<and> er_ok r3 \<longrightarrow> (\<exists>p q. stopped r p r1 \<and> stopped r q r3 \<and> p < q))"
| "e2e_ok (EAwaitHalt r1 r2 r3 w) r = (refused cvr_accepted w
     \<and> (er_ok r1 \<and> er_ok r3 \<longrightarrow> (\<exists>p q. stopped r p r1 \<and> stopped r q r3 \<and> p < q \<and> before q w)))"

definition e2e_passed :: "robot \<Rightarrow> bool" where
  "e2e_passed r \<longleftrightarrow> (\<exists>p q m r1 r3 r4. stopped r p r1 \<and> stopped r q r3 \<and> driven r m r4 \<and> p < q \<and> q < m)"

definition e2e_inv :: "e2e point \<Rightarrow> bool \<Rightarrow> robot \<Rightarrow> bool" where
  "e2e_inv p s r \<longleftrightarrow> connected_ok p r \<and> (case p of Body b \<Rightarrow> e2e_ok b r | Exited k \<Rightarrow> k = 0 \<longrightarrow> e2e_passed r | _ \<Rightarrow> True)"

lemma answers_bear:
  assumes "\<And>p a. map_of (r_answers r) p = Some a \<Longrightarrow> map_of (r_answers r') p = Some a"
  shows "stopped r p x \<Longrightarrow> stopped r' p x" "driven r p y \<Longrightarrow> driven r' p y" "e2e_ok b r \<Longrightarrow> e2e_ok b r'"
    "e2e_passed r \<Longrightarrow> e2e_passed r'"
proof -
  have s: "stopped r p x \<Longrightarrow> stopped r' p x" for p x using assms by (auto simp: stopped_def)
  have d: "driven r p y \<Longrightarrow> driven r' p y" for p y using assms by (auto simp: driven_def)
  show "stopped r p x \<Longrightarrow> stopped r' p x" "driven r p y \<Longrightarrow> driven r' p y" by (fact s d)+
  show "e2e_ok b r \<Longrightarrow> e2e_ok b r'" by (cases b) (use s in fastforce)+
  show "e2e_passed r \<Longrightarrow> e2e_passed r'" unfolding e2e_passed_def using s d by blast
qed

lemma estop_answered:
  "estop_answer w r = Some x \<Longrightarrow> refused er_ok w \<Longrightarrow> er_ok x \<Longrightarrow> \<exists>q. w = WaitsFor q \<and> stopped r q x"
  "cmdvel_answer w' r = Some y \<Longrightarrow> refused cvr_accepted w' \<Longrightarrow> cvr_accepted y \<Longrightarrow> \<exists>q. w' = WaitsFor q \<and> driven r q y"
  by (auto simp: estop_answer_def cmdvel_answer_def refused_def stopped_def driven_def
      split: call.splits option.splits answer.splits)

lemma e2e_body_calls:
  assumes "e2e_body b r = Some (p', r')"
  shows "(user_step c)\<^sup>*\<^sup>* r r'"
proof -
  have "r' = r \<or> user_step c r r'"
    using assms estop_call(1) cmd_vel_calls(1) close_call_step(1)
    by (cases b) (auto simp: e2e_body_def split: if_splits prod.splits)
  then show ?thesis by auto
qed

text \<open>A new promise comes after every promise that was answered.\<close>

lemma asked_after:
  assumes "reach (robot_start c) (fresh_step c depth) r"
  shows "stopped r p x \<Longrightarrow> emergency_stop_call False engage reason r = (w, r') \<Longrightarrow> stopped r' p x \<and> before p w"
    "stopped r p x \<Longrightarrow> cmd_vel_call False vx vy wz r = (w', r') \<Longrightarrow> stopped r' p x \<and> before p w'"
proof -
  have p: "stopped r p x \<Longrightarrow> p < r_next_promise r" using answered_before [OF assms] by (auto simp: stopped_def)
  show "stopped r p x \<Longrightarrow> emergency_stop_call False engage reason r = (w, r') \<Longrightarrow> stopped r' p x \<and> before p w"
    using p estop_call(2,3) by (cases w) (auto simp: stopped_def before_def)
  show "stopped r p x \<Longrightarrow> cmd_vel_call False vx vy wz r = (w', r') \<Longrightarrow> stopped r' p x \<and> before p w'"
    using p cmd_vel_calls(2,3) by (cases w') (auto simp: stopped_def before_def)
qed

lemma refused_calls:
  "emergency_stop_call False engage reason r = (w, r') \<Longrightarrow> refused er_ok w"
  "cmd_vel_call False vx vy wz r = (w', r') \<Longrightarrow> refused cvr_accepted w'"
  using estop_call(4) [of engage reason r w r'] cmd_vel_calls(4) [of vx vy wz r w' r']
  by (auto simp: refused_def split: call.split)

lemma e2e_body_continues:
  assumes reach: "reach (robot_start c) (fresh_step c depth) r" and ok: "e2e_ok b r"
    and run: "e2e_body b r = Some (p', r')"
  shows "e2e_inv p' s r'"
proof (cases b)
  case EEngage
  then show ?thesis
    using run refused_calls(1) by (auto simp: e2e_body_def e2e_inv_def connected_ok_def split: prod.splits)
next
  case (EAwaitEngage w)
  then show ?thesis
    using run ok estop_answered(1) by (fastforce simp: e2e_body_def e2e_inv_def connected_ok_def)
next
  case (ESettle1 t r1)
  then show ?thesis
    using run ok asked_after(2) [OF reach]
    by (fastforce simp: e2e_body_def e2e_inv_def connected_ok_def split: if_splits prod.splits)
next
  case (EAwaitDrive r1 w)
  then show ?thesis using run ok by (auto simp: e2e_body_def e2e_inv_def connected_ok_def)
next
  case (ESettle2 t r1 r2)
  then obtain w where w: "emergency_stop_call False False ''e2e test release'' r = (w, r')"
    "p' = Body (EAwaitRelease r1 r2 w)"
    using run by (auto simp: e2e_body_def split: if_splits prod.splits)
  then show ?thesis
    using ok ESettle2 asked_after(1) [OF reach _ w(1)] refused_calls(1) [OF w(1)]
    by (auto simp: e2e_inv_def connected_ok_def)
next
  case (EAwaitRelease r1 r2 w)
  then obtain r3 where "estop_answer w r = Some r3" "p' = Body (ESettle3 (after_ms 500 r) r1 r2 r3)" "r' = r"
    using run by (auto simp: e2e_body_def)
  then show ?thesis
    using ok EAwaitRelease estop_answered(1) [of w r r3] by (fastforce simp: e2e_inv_def connected_ok_def before_def)
next
  case (ESettle3 t r1 r2 r3)
  then obtain w where w: "cmd_vel_call False 0 0 0 r = (w, r')" "p' = Body (EAwaitHalt r1 r2 r3 w)"
    using run by (auto simp: e2e_body_def split: if_splits prod.splits)
  then show ?thesis
    using ok ESettle3 asked_after(2) [OF reach _ w(1)] refused_calls(2) [OF w(1)]
    by (fastforce simp: e2e_inv_def connected_ok_def)
next
  case (EAwaitHalt r1 r2 r3 w)
  then obtain r4 where r4: "cmdvel_answer w r = Some r4" "p' = Exited (e2e_verdict r1 r2 r3 r4)" "r' = close_call r"
    using run by (auto simp: e2e_body_def)
  have "e2e_passed r" if "e2e_verdict r1 r2 r3 r4 = 0"
  proof -
    from that have all: "er_ok r1" "er_ok r3" "cvr_accepted r4"
      by (auto simp: e2e_verdict_def step4_ok_def split: if_splits)
    then obtain m where "w = WaitsFor m" "driven r m r4"
      using ok EAwaitHalt estop_answered(2) [OF r4(1)] by auto
    then show ?thesis using ok EAwaitHalt all by (auto simp: e2e_passed_def before_def)
  qed
  then show ?thesis
    using r4 answers_bear(4) [of r r'] close_call_step(2) by (auto simp: e2e_inv_def connected_ok_def)
qed

abbreviation demo_ctx :: "ctx \<Rightarrow> (string \<Rightarrow> string) \<Rightarrow> string \<Rightarrow> string \<Rightarrow> string \<Rightarrow> ctx" where
  "demo_ctx c files client host dir \<equiv> c\<lparr>cx_opts := demo_options files client host dir\<rparr>"

abbreviation e2e_ctx :: "ctx \<Rightarrow> (string \<Rightarrow> string) \<Rightarrow> string \<Rightarrow> string \<Rightarrow> ctx" where
  "e2e_ctx c files \<equiv> demo_ctx c files ''estop-cmdvel-e2e/2.0''"

lemma launched_demos:
  "start_e2e files (host # dir # rest) env now epoch = Started r \<Longrightarrow> robot_start (e2e_ctx c files host dir) r"
  "start_emergency_stop files (host # dir # rest) env now epoch = Started r \<Longrightarrow>
    robot_start (demo_ctx c files ''estop-example/2.0'' host dir) r"
  "start_subscribe_status files (host # dir # rest) env now epoch = Started r \<Longrightarrow>
    robot_start (demo_ctx c files ''subscribe-status-example/2.0'' host dir) r"
  "start_teleop files (host # dir # rest) env now epoch = Started r \<Longrightarrow>
    robot_start (demo_ctx c files ''teleop-example/2.0'' host dir) r"
  unfolding start_e2e_def start_emergency_stop_def start_subscribe_status_def start_teleop_def
  by (fact start_demo_robot)+

lemma e2e_next_calls: "e2e_next c s p r = Some (p', r') \<Longrightarrow> (user_step c)\<^sup>*\<^sup>* r r'"
  using e2e_body_calls connect_calls [of False on_state_demo c p r p' r']
  by (auto simp: e2e_next_def split: point.splits if_splits)

lemma e2e_continues:
  assumes reach: "reach (robot_start c) (fresh_step c depth) r" and inv: "e2e_inv p s r"
    and run: "e2e_next c s p r = Some (p', r')"
  shows "e2e_inv p' s r'"
proof (cases "\<exists>b. p = Body b")
  case True
  then show ?thesis using e2e_body_continues [OF reach] inv run by (auto simp: e2e_next_def e2e_inv_def)
next
  case False
  show ?thesis
  proof (cases "p = Connected")
    case True
    then show ?thesis using inv run by (auto simp: e2e_next_def e2e_inv_def connected_ok_def)
  next
    case no: False
    then have "connect_demo False on_state_demo c p r = Some (p', r')"
      using False run by (auto simp: e2e_next_def split: point.splits)
    from connect_leads [OF reach _ this] show ?thesis by (auto simp: e2e_inv_def connected_ok_def)
  qed
qed

lemma e2e_bears: "e2e_inv p s r \<Longrightarrow> fresh_step c depth r r' \<Longrightarrow> e2e_inv p s r'"
  using connected_bears answers_bear(3,4) [OF fresh_kept(2)] by (auto simp: e2e_inv_def split: point.splits)

interpretation e2e: demo_client "e2e_next (e2e_ctx c files host dir)" "e2e_ctx c files host dir" depth
    "start_e2e files (host # dir # rest) env now epoch" e2e_inv
  for c depth files host dir rest env now epoch
  by (unfold_locales, rule launched_demos, assumption, simp add: e2e_inv_def connected_ok_def, rule e2e_next_calls,
      assumption, rule e2e_continues, assumption+, rule e2e_bears, assumption+)
    (simp add: e2e_inv_def connected_ok_def)

section \<open>The other programs\<close>

text \<open>\<open>emergency_stop\<close> exits with 0 only after an acknowledged stop and an acknowledged release.\<close>

definition estop_inv :: "estop_demo point \<Rightarrow> bool \<Rightarrow> robot \<Rightarrow> bool" where
  "estop_inv p s r \<longleftrightarrow> connected_ok p r \<and>
     (case p of
        Body SEngage \<Rightarrow> True
      | Body (SAwaitEngage w) \<Rightarrow> refused er_ok w
      | Body (SHold t) \<Rightarrow> \<exists>q x. stopped r q x
      | Body (SAwaitRelease w) \<Rightarrow> refused er_ok w \<and> (\<exists>q x. stopped r q x \<and> before q w)
      | Exited k \<Rightarrow> k = 0 \<longrightarrow> (\<exists>q q' x x'. stopped r q x \<and> stopped r q' x' \<and> q < q')
      | _ \<Rightarrow> True)"

text \<open>\<open>subscribe_status\<close> and \<open>teleop\<close> exit with 0 only when they are interrupted.\<close>

definition status_inv :: "status_demo point \<Rightarrow> bool \<Rightarrow> robot \<Rightarrow> bool" where
  "status_inv p s r \<longleftrightarrow> connected_ok p r \<and>
     (case p of
        Body (WLoop i) \<Rightarrow> i < r_next_slot r
      | Body (WSleep i t) \<Rightarrow> i < r_next_slot r
      | Body (WAwaitUnsubscribe i w) \<Rightarrow> i < r_next_slot r \<and> s
      | Exited k \<Rightarrow> k = 0 \<longrightarrow> s
      | _ \<Rightarrow> True)"

definition teleop_inv :: "teleop_demo point \<Rightarrow> bool \<Rightarrow> robot \<Rightarrow> bool" where
  "teleop_inv p s r \<longleftrightarrow> connected_ok p r \<and>
     (case p of Body (TAwaitHalt t w) \<Rightarrow> s | Exited k \<Rightarrow> k = 0 \<longrightarrow> s | _ \<Rightarrow> True)"

lemma estop_body_calls:
  assumes "estop_body b r = Some (p', r')"
  shows "(user_step c)\<^sup>*\<^sup>* r r'"
proof -
  have "r' = r \<or> user_step c r r'"
    using assms estop_call(1) close_call_step(1)
    by (cases b) (auto simp: estop_body_def split: if_splits prod.splits)
  then show ?thesis by auto
qed

lemma estop_body_continues:
  assumes reach: "reach (robot_start c) (fresh_step c depth) r" and inv: "estop_inv (Body b) s r"
    and run: "estop_body b r = Some (p', r')"
  shows "estop_inv p' s r'"
proof (cases b)
  case SEngage
  then show ?thesis
    using run refused_calls(1) by (auto simp: estop_body_def estop_inv_def connected_ok_def split: prod.splits)
next
  case (SAwaitEngage w)
  then obtain x where x: "estop_answer w r = Some x"
    "(p', r') = (if \<not> er_ok x then (Exited 3, close_call r) else (Body (SHold (after_ms 5000 r)), r))"
    using run by (auto simp: estop_body_def)
  then show ?thesis
    using inv SAwaitEngage estop_answered(1) [OF x(1)] by (auto simp: estop_inv_def connected_ok_def split: if_splits)
next
  case (SHold t)
  then obtain w where w: "emergency_stop_call False False ''demo end'' r = (w, r')" "p' = Body (SAwaitRelease w)"
    using run by (auto simp: estop_body_def split: if_splits prod.splits)
  then show ?thesis
    using inv SHold asked_after(1) [OF reach _ w(1)] refused_calls(1) [OF w(1)]
    by (auto simp: estop_inv_def connected_ok_def)
next
  case (SAwaitRelease w)
  then obtain x where x: "estop_answer w r = Some x" "p' = Exited (if \<not> er_ok x then 4 else 0)" "r' = close_call r"
    using run by (auto simp: estop_body_def)
  have w: "refused er_ok w" "\<exists>q y. stopped r q y \<and> before q w" using inv SAwaitRelease by (auto simp: estop_inv_def)
  have "stopped r' q y = stopped r q y" for q y using x(3) close_call_step(2) by (simp add: stopped_def)
  then show ?thesis
    using estop_answered(1) [OF x(1) w(1)] w(2) x(2) by (fastforce simp: estop_inv_def connected_ok_def before_def)
qed

lemma status_calls:
  assumes "status_inv p s r" "status_next c s p r = Some (p', r')"
  shows "(user_step c)\<^sup>*\<^sup>* r r'"
proof -
  have sub: "user_step c r (snd (subscribe_robot_status c 5 True r))" by (rule user_step.subscribe_status)
  have gone: "i < r_next_slot r \<Longrightarrow> facade_unsubscribe True False i r = (w, r1) \<Longrightarrow> user_step c r r1"
    "i < r_next_slot r \<Longrightarrow> user_step c r (facade_destroy True i r)" for i w r1
    using user_step.unsubscribe [of i r c False] user_step.facade_gone [of i r c] by simp_all
  have last: "i < r_next_slot r \<Longrightarrow> (user_step c)\<^sup>*\<^sup>* r (close_call (facade_destroy True i r))" for i
    using gone(2) close_call_step(1) by (meson converse_rtranclp_into_rtranclp r_into_rtranclp)
  show ?thesis
    using assms sub gone(1) last close_call_step(1) [of c r] connect_calls [of False on_state_demo c p r p' r']
    by (auto simp: status_next_def status_body_def status_inv_def split: point.splits option.splits if_splits
        status_demo.splits prod.splits)
qed

lemma teleop_calls:
  assumes "teleop_next c s p r = Some (p', r')"
  shows "(user_step c)\<^sup>*\<^sup>* r r'"
  using assms cmd_vel_calls(1) close_call_step(1) [of c r] connect_calls [of True on_state_teleop c p r p' r']
  by (auto simp: teleop_next_def teleop_body_def Let_def split: point.splits option.splits if_splits
      teleop_demo.splits prod.splits)

lemma begun:
  assumes "reach (robot_start c) (fresh_step c depth) r" "on_state \<in> {on_state_demo, on_state_teleop}"
    "connect_demo logs on_state c p r = Some (p', r')"
  shows "connected_ok p' r' \<and> (\<forall>b. p' \<noteq> Body b) \<and> p' \<noteq> Exited 0"
  using connect_leads [OF assms] by (auto simp: connected_ok_def)

lemma estop_continues:
  assumes reach: "reach (robot_start c) (fresh_step c depth) r" and inv: "estop_inv p s r"
    and run: "estop_next c s p r = Some (p', r')"
  shows "estop_inv p' s r'"
proof (cases "(\<exists>b. p = Body b) \<or> p = Connected")
  case True
  then consider b where "p = Body b" | "p = Connected" by blast
  then show ?thesis
  proof cases
    case 1
    then show ?thesis using estop_body_continues [OF reach] inv run by (simp add: estop_next_def)
  next
    case 2
    then show ?thesis using run by (auto simp: estop_next_def estop_inv_def connected_ok_def)
  qed
next
  case False
  then have "connect_demo False on_state_demo c p r = Some (p', r')" using run by (auto simp: estop_next_def split: point.splits)
  from begun [OF reach _ this] show ?thesis by (auto simp: estop_inv_def split: point.split)
qed

lemma status_continues:
  assumes reach: "reach (robot_start c) (fresh_step c depth) r" and inv: "status_inv p s r"
    and run: "status_next c s p r = Some (p', r')"
  shows "status_inv p' s r'"
proof (cases "(\<exists>b. p = Body b) \<or> p = Connected")
  case True
  have "subscribe_robot_status c 5 True r = (i, r1) \<Longrightarrow> i < r_next_slot r1" for i r1
    by (auto simp: subscribe_robot_status_def subscribe_internal_def Let_def)
  moreover have "facade_unsubscribe True False i r = (w, r1) \<Longrightarrow> r_next_slot r1 = r_next_slot r" for i w r1
    by (auto simp: facade_unsubscribe_def unsubscribe_request_def new_promise_def post_event_def)
  ultimately show ?thesis
    using True inv run by (auto simp: status_next_def status_body_def status_inv_def connected_ok_def
        split: option.splits if_splits status_demo.splits prod.splits)
next
  case False
  then have "connect_demo False on_state_demo c p r = Some (p', r')" using run by (auto simp: status_next_def split: point.splits)
  from begun [OF reach _ this] show ?thesis by (auto simp: status_inv_def split: point.split)
qed

lemma teleop_continues:
  assumes reach: "reach (robot_start c) (fresh_step c depth) r" and inv: "teleop_inv p s r"
    and run: "teleop_next c s p r = Some (p', r')"
  shows "teleop_inv p' s r'"
proof (cases "(\<exists>b. p = Body b) \<or> p = Connected")
  case True
  then show ?thesis
    using inv run by (auto simp: teleop_next_def teleop_body_def teleop_inv_def connected_ok_def
        split: option.splits if_splits teleop_demo.splits prod.splits)
next
  case False
  then have "connect_demo True on_state_teleop c p r = Some (p', r')" using run by (auto simp: teleop_next_def split: point.splits)
  from begun [OF reach _ this] show ?thesis by (auto simp: teleop_inv_def split: point.split)
qed

lemma demos_bear:
  assumes "fresh_step c depth r r'"
  shows "estop_inv p s r \<Longrightarrow> estop_inv p s r'" "status_inv q s r \<Longrightarrow> status_inv q s r'"
    "teleop_inv t s r \<Longrightarrow> teleop_inv t s r'"
proof -
  note connected = connected_bears [OF _ assms] and st = answers_bear(1) [OF fresh_kept(2) [OF assms]]
  have slots: "i < r_next_slot r \<Longrightarrow> i < r_next_slot r'" for i using fresh_kept(1) [OF assms] by simp
  show "estop_inv p s r \<Longrightarrow> estop_inv p s r'" unfolding estop_inv_def
    using connected st by (auto split: point.splits estop_demo.splits) blast+
  show "status_inv q s r \<Longrightarrow> status_inv q s r'" unfolding status_inv_def
    using connected slots by (auto split: point.splits status_demo.splits)
  show "teleop_inv t s r \<Longrightarrow> teleop_inv t s r'" unfolding teleop_inv_def
    using connected by (auto split: point.splits teleop_demo.splits)
qed

lemma estop_calls: "estop_next c s p r = Some (p', r') \<Longrightarrow> (user_step c)\<^sup>*\<^sup>* r r'"
  using estop_body_calls connect_calls [of False on_state_demo c p r p' r']
  by (auto simp: estop_next_def split: point.splits)

interpretation estop: demo_client "estop_next (demo_ctx c files ''estop-example/2.0'' host dir)"
    "demo_ctx c files ''estop-example/2.0'' host dir" depth "start_emergency_stop files (host # dir # rest) env now epoch"
    estop_inv
  for c depth files host dir rest env now epoch
  by (unfold_locales, rule launched_demos, assumption, simp add: estop_inv_def connected_ok_def, rule estop_calls,
      assumption, rule estop_continues, assumption+, rule demos_bear, assumption+)
    (simp add: estop_inv_def connected_ok_def)

interpretation status: demo_client "status_next (demo_ctx c files ''subscribe-status-example/2.0'' host dir)"
    "demo_ctx c files ''subscribe-status-example/2.0'' host dir" depth
    "start_subscribe_status files (host # dir # rest) env now epoch" status_inv
  for c depth files host dir rest env now epoch
  by (unfold_locales, rule launched_demos, assumption, simp add: status_inv_def connected_ok_def, rule status_calls,
      assumption+, rule status_continues, assumption+, rule demos_bear, assumption+)
    (auto simp: status_inv_def connected_ok_def split: point.splits status_demo.splits)

interpretation teleop: demo_client "teleop_next (demo_ctx c files ''teleop-example/2.0'' host dir)"
    "demo_ctx c files ''teleop-example/2.0'' host dir" depth "start_teleop files (host # dir # rest) env now epoch"
    teleop_inv
  for c depth files host dir rest env now epoch
  by (unfold_locales, rule launched_demos, assumption, simp add: teleop_inv_def connected_ok_def, rule teleop_calls,
      assumption, rule teleop_continues, assumption+, rule demos_bear, assumption+)
    (auto simp: teleop_inv_def connected_ok_def split: point.splits teleop_demo.splits)

lemma interrupted_demos:
  "reach (demo_start (start_subscribe_status files (host # dir # rest) env now epoch))
     (demo_step (status_next (demo_ctx c files ''subscribe-status-example/2.0'' host dir))
       (demo_ctx c files ''subscribe-status-example/2.0'' host dir) depth) (p, s, r) \<Longrightarrow>
   p \<noteq> Undefined \<and> (p = Exited 0 \<longrightarrow> s)"
  "reach (demo_start (start_teleop files (host # dir # rest) env now epoch))
     (demo_step (teleop_next (demo_ctx c files ''teleop-example/2.0'' host dir))
       (demo_ctx c files ''teleop-example/2.0'' host dir) depth) (q, s, r) \<Longrightarrow>
   q \<noteq> Undefined \<and> (q = Exited 0 \<longrightarrow> s)"
  using status.run_ok [of files host dir rest env now epoch c depth p s r]
    teleop.run_ok [of files host dir rest env now epoch c depth q s r]
  by (auto simp: status_inv_def teleop_inv_def connected_ok_def)


text \<open>
  A run that passes although nothing stopped the robot: the server acknowledges the stop, but the velocity
  command of step 2 is not answered at all, and its timer ends it.
\<close>

datatype demo_action = Own | Worker | Around action | CallTimer u64

definition demo_act ::
  "(bool \<Rightarrow> 'b point \<Rightarrow> robot \<Rightarrow> ('b point \<times> robot) option) \<Rightarrow> ctx \<Rightarrow> nat \<Rightarrow> demo_action \<Rightarrow>
    'b point \<times> robot \<Rightarrow> ('b point \<times> robot) option" where
  "demo_act nxt c depth a st =
    (let (p, r) = st in
     case a of
       Own \<Rightarrow> nxt False p r
     | Worker \<Rightarrow> map_option (\<lambda>d. (p, r\<lparr>r_dispatcher := d\<rparr>)) (worker_round (r_dispatcher r))
     | Around b \<Rightarrow> map_option (Pair p) (do_action c depth b r)
     | CallTimer rid \<Rightarrow>
         (case map_of (r_inflight r) rid of
            None \<Rightarrow> None
          | Some rpc \<Rightarrow>
              (case ir_timeout rpc of
                 None \<Rightarrow> None
               | Some t \<Rightarrow>
                   if t \<le> r_now r
                   then Some (p, post_event (EvRpcTimeout rid) (put_inflight rid (rpc\<lparr>ir_timeout := None\<rparr>) r))
                   else None)))"

fun demo_script ::
  "(bool \<Rightarrow> 'b point \<Rightarrow> robot \<Rightarrow> ('b point \<times> robot) option) \<Rightarrow> ctx \<Rightarrow> nat \<Rightarrow> demo_action list \<Rightarrow>
    'b point \<times> robot \<Rightarrow> 'b point \<times> robot" where
  "demo_script nxt c depth [] st = st"
| "demo_script nxt c depth (a # as) st =
     (case demo_act nxt c depth a st of
        None \<Rightarrow> st
      | Some st' \<Rightarrow> if r_requests (snd st') < 100 then demo_script nxt c depth as st' else st)"

lemma demo_act_step:
  assumes "demo_act nxt c depth a (p, r) = Some (p', r')" "r_requests r' < 100"
  shows "demo_step nxt c depth (p, False, r) (p', False, r')"
proof (cases a)
  case Own
  then show ?thesis using assms by (auto simp: demo_act_def intro: demo_step.program)
next
  case Worker
  then have "robot_step c depth r r'" "p' = p"
    using assms by (auto simp: demo_act_def intro: robot_step.worker)
  then show ?thesis using assms(2) by (simp add: fresh_step_def id_limit_def demo_step.surroundings)
next
  case (Around b)
  then have "robot_step c depth r r'" "p' = p" using assms do_action_step by (auto simp: demo_act_def)
  then show ?thesis using assms(2) by (simp add: fresh_step_def id_limit_def demo_step.surroundings)
next
  case (CallTimer rid)
  then have "timer_step r r'" "p' = p"
    using assms by (auto simp: demo_act_def intro: timer_step.rpc split: option.splits if_splits)
  then show ?thesis using assms(2) by (simp add: fresh_step_def id_limit_def demo_step.surroundings robot_step.timer)
qed

lemma demo_script_reach:
  assumes "reach start (demo_step nxt c depth) (p, False, r)"
  shows "reach start (demo_step nxt c depth)
    (fst (demo_script nxt c depth as (p, r)), False, snd (demo_script nxt c depth as (p, r)))"
  using assms
proof (induction as arbitrary: p r)
  case (Cons a as)
  show ?case
  proof (cases "\<exists>p' r'. demo_act nxt c depth a (p, r) = Some (p', r') \<and> r_requests r' < 100")
    case True
    then obtain p' r' where act: "demo_act nxt c depth a (p, r) = Some (p', r')" "r_requests r' < 100" by blast
    from Cons.IH [OF reach_step [OF Cons.prems demo_act_step [OF act]]] show ?thesis using act by simp
  next
    case False
    then show ?thesis using Cons.prems by (auto split: option.split)
  qed
qed simp

definition cert_files :: "string \<Rightarrow> string" where
  "cert_files path = ''PEM''"

definition demo_robot :: robot where
  "demo_robot = (robot_new (demo_options cert_files ''estop-cmdvel-e2e/2.0'' ''x2'' ''c'') None 0 1000)\<lparr>r_work_guard := True\<rparr>"

definition e2e_run :: "e2e point \<times> robot" where
  "e2e_run = demo_script (e2e_next (e2e_ctx sample_ctx cert_files ''x2'' ''c'')) (e2e_ctx sample_ctx cert_files ''x2'' ''c'') 3
     [Own, Own, Around Round, Around (Inbound [1, 0]), Around Round, Worker, Worker, Own, Own,
      Own, Around Round, Around (Inbound [2, 2]), Around Round, Own, Around (Wait 300000000),
      Own, Around Round, Around (Wait 200000000), CallTimer 3, Around Round, Own, Around (Wait 300000000),
      Own, Around Round, Around (Inbound [4, 2]), Around Round, Own, Around (Wait 500000000),
      Own, Around Round, Around (Inbound [5, 2]), Around Round, Own]
     (AtHandler, demo_robot)"

lemma e2e_run_passes:
  "fst e2e_run = Exited 0 \<and> map_of (r_answers (snd e2e_run)) 1 = Some (cmdvel_failed EcTimeout ''cmd_vel timeout'' 0)"
  by code_simp


end
