(* ===== verification/DiagJson.thy ===== *)
theory DiagJson
  imports Diagnostics
begin

text \<open>
  \<open>to_json\<close> of \<open>src/diagnostics.cpp\<close>, with what it uses of the standard library: the stream operators
  for strings, integers and doubles. The specification is a tree of JSON values with the printer and
  the reader of RFC 8259.
\<close>

section \<open>Escaping\<close>

definition hex_digit :: "nat \<Rightarrow> char" where
  "hex_digit d = (if d < 10 then digit d else char_of (87 + d))"

text \<open>One round of the loop: what a character adds to the output.\<close>

definition escape_char :: "char \<Rightarrow> string" where
  "escape_char c =
    (if c = CHR 0x22 then [CHR 0x5C, CHR 0x22]
     else if c = CHR 0x5C then [CHR 0x5C, CHR 0x5C]
     else if c = CHR 0x08 then [CHR 0x5C, CHR ''b'']
     else if c = CHR 0x0C then [CHR 0x5C, CHR ''f'']
     else if c = CHR 0x0A then [CHR 0x5C, CHR ''n'']
     else if c = CHR 0x0D then [CHR 0x5C, CHR ''r'']
     else if c = CHR 0x09 then [CHR 0x5C, CHR ''t'']
     else if (of_char c :: nat) < 0x20
     then [CHR 0x5C, CHR ''u'', CHR ''0'', CHR ''0'', hex_digit (of_char c div 16), hex_digit (of_char c mod 16)]
     else [c])"

fun escape_json_string :: "string \<Rightarrow> string" where
  "escape_json_string [] = []"
| "escape_json_string (c # cs) = escape_char c @ escape_json_string cs"

definition append_quoted :: "string \<Rightarrow> string" where
  "append_quoted s = CHR 0x22 # escape_json_string s @ [CHR 0x22]"

definition append_kv_string :: "string \<Rightarrow> string \<Rightarrow> string" where
  "append_kv_string key v = CHR 0x22 # key @ [CHR 0x22, CHR '':''] @ append_quoted v"

section \<open>Doubles in a stream\<close>

text \<open>
  \<open>operator<<\<close> with the default format is \<open>printf("%.6g")\<close>: six significant digits, rounded to nearest
  (ties to even), no trailing zeros, the exponent form below 1e-4 and from 1e6 on.
\<close>

definition round_half_even :: "double \<Rightarrow> int" where
  "round_half_even x =
    (let f = \<lfloor>x\<rfloor>; d = x - of_int f
     in if d < 1 / 2 then f else if 1 / 2 < d then f + 1 else if even f then f else f + 1)"

definition scale10 :: "int \<Rightarrow> double" where
  "scale10 k = (if 0 \<le> k then 10 ^ nat k else 1 / 10 ^ nat (- k))"

text \<open>The exponent of the leading digit of a positive number.\<close>

definition dec_exp :: "double \<Rightarrow> int" where
  "dec_exp a =
    (if 1 \<le> a then int (length (dec_nat (nat \<lfloor>a\<rfloor>))) - 1
     else - int (length (dec_nat (nat (\<lceil>1 / a\<rceil> - 1)))))"

definition strip_zeros :: "string \<Rightarrow> string" where
  "strip_zeros s = rev (dropWhile (\<lambda>c. c = CHR ''0'') (rev s))"

definition dot_digits :: "string \<Rightarrow> string" where
  "dot_digits s = (if strip_zeros s = [] then [] else CHR ''.'' # strip_zeros s)"

definition exp_digits :: "int \<Rightarrow> string" where
  "exp_digits e =
    (let ds = dec_nat (nat \<bar>e\<bar>)
     in (if e < 0 then CHR ''-'' else CHR ''+'') # (if length ds < 2 then CHR ''0'' # ds else ds))"

text \<open>The digits \<open>ds\<close> of a number whose first digit stands at \<open>10^e\<close>.\<close>

definition place_digits :: "string \<Rightarrow> int \<Rightarrow> string" where
  "place_digits ds e =
    (if e < -4 \<or> 6 \<le> e then hd ds # dot_digits (tl ds) @ CHR ''e'' # exp_digits e
     else if 0 \<le> e then take (nat e + 1) ds @ dot_digits (drop (nat e + 1) ds)
     else ''0.'' @ replicate (nat (- e) - 1) (CHR ''0'') @ strip_zeros ds)"

definition show_g :: "double \<Rightarrow> string" where
  "show_g x =
    (if x = 0 then ''0''
     else
       let a = \<bar>x\<bar>; e0 = dec_exp a; m0 = round_half_even (a * scale10 (5 - e0));
           (m, e) = (if 1000000 \<le> m0 then (100000, e0 + 1) else (m0, e0))
       in (if x < 0 then ''-'' else []) @ place_digits (dec_nat (nat m)) e)"

section \<open>The document\<close>

definition quoted_key :: "string \<Rightarrow> string" where
  "quoted_key key = CHR 0x22 # key @ [CHR 0x22, CHR '':'']"

definition json_connection :: "diag_connection \<Rightarrow> string" where
  "json_connection k =
    ''{'' @ append_kv_string ''state'' (conn_state_name (dc_state k))
    @ '','' @ quoted_key ''last_state_change_ms'' @ dec_int (dc_last_state_change_ms k)
    @ '','' @ quoted_key ''reconnect_count'' @ dec_u64 (dc_reconnect_count k)
    @ (if dc_last_error_code k \<noteq> EcOk
       then '','' @ quoted_key ''last_error'' @ ''{''
            @ append_kv_string ''code'' (error_name (dc_last_error_code k)) @ '',''
            @ append_kv_string ''message'' (dc_last_error_message k) @ ''}''
       else '','' @ quoted_key ''last_error'' @ ''null'')
    @ '','' @ append_kv_string ''server_protocol_version'' (dc_server_protocol_version k) @ ''}''"

definition json_transport :: "diag_transport \<Rightarrow> string" where
  "json_transport t =
    ''{'' @ quoted_key ''rtt_p50_ms'' @ show_g (dt_rtt_p50_ms t)
    @ '','' @ quoted_key ''rtt_p99_ms'' @ show_g (dt_rtt_p99_ms t)
    @ '','' @ quoted_key ''bytes_sent'' @ dec_u64 (dt_bytes_sent t)
    @ '','' @ quoted_key ''bytes_received'' @ dec_u64 (dt_bytes_received t)
    @ '','' @ quoted_key ''last_ping_age_ms'' @ dec_int (dt_last_ping_age_ms t) @ ''}''"

definition json_subscription :: "diag_subscription \<Rightarrow> string" where
  "json_subscription s =
    ''{'' @ append_kv_string ''topic'' (dsub_topic s)
    @ '','' @ append_kv_string ''state'' (sub_state_name (dsub_state s))
    @ '','' @ quoted_key ''configured_hz'' @ show_g (dsub_configured_hz s)
    @ '','' @ quoted_key ''received_hz_1min'' @ show_g (dsub_received_hz_1min s)
    @ '','' @ quoted_key ''drop_count'' @ dec_u64 (dsub_drop_count s)
    @ '','' @ quoted_key ''last_seq'' @ dec_u64 (dsub_last_seq s)
    @ '','' @ quoted_key ''last_message_age_ms'' @ dec_int (dsub_last_message_age_ms s) @ ''}''"

definition json_rpc :: "diag_rpc \<Rightarrow> string" where
  "json_rpc c =
    ''{'' @ append_kv_string ''name'' (drpc_name c)
    @ '','' @ quoted_key ''count'' @ dec_u64 (drpc_count c)
    @ '','' @ quoted_key ''error_count'' @ dec_u64 (drpc_error_count c)
    @ '','' @ quoted_key ''p99_latency_ms'' @ show_g (drpc_p99_latency_ms c) @ ''}''"

text \<open>The loops over the vectors: a comma before every element but the first.\<close>

fun json_from :: "nat \<Rightarrow> ('a \<Rightarrow> string) \<Rightarrow> 'a list \<Rightarrow> string" where
  "json_from i f [] = []"
| "json_from i f (x # xs) = (if i > 0 then '','' else []) @ f x @ json_from (Suc i) f xs"

definition to_json :: "diagnostics \<Rightarrow> string" where
  "to_json d =
    ''{'' @ quoted_key ''connection'' @ json_connection (dg_connection d)
    @ '','' @ quoted_key ''transport'' @ json_transport (dg_transport d)
    @ '','' @ quoted_key ''subscriptions'' @ ''['' @ json_from 0 json_subscription (dg_subscriptions d) @ '']''
    @ '','' @ quoted_key ''rpcs'' @ ''['' @ json_from 0 json_rpc (dg_rpcs d) @ '']''
    @ ''}''"

section \<open>JSON values\<close>

datatype json =
    JNull
  | JNum string
  | JStr string
  | JObj "(string \<times> json) list"
  | JArr "json list"

definition is_digit :: "char \<Rightarrow> bool" where
  "is_digit c \<longleftrightarrow> 48 \<le> (of_char c :: nat) \<and> (of_char c :: nat) < 58"

text \<open>The number tokens of RFC 8259.\<close>

definition exp_ok :: "string \<Rightarrow> bool" where
  "exp_ok s \<longleftrightarrow> (case s of [] \<Rightarrow> True
     | c # t \<Rightarrow> c \<in> {CHR ''e'', CHR ''E''} \<and>
         (let u = (case t of [] \<Rightarrow> [] | b # u \<Rightarrow> if b \<in> {CHR ''+'', CHR ''-''} then u else t)
          in u \<noteq> [] \<and> list_all is_digit u))"

definition frac_ok :: "string \<Rightarrow> bool" where
  "frac_ok s \<longleftrightarrow> (case s of [] \<Rightarrow> True
     | c # t \<Rightarrow> if c = CHR ''.'' then takeWhile is_digit t \<noteq> [] \<and> exp_ok (dropWhile is_digit t) else exp_ok s)"

definition number_ok :: "string \<Rightarrow> bool" where
  "number_ok s =
    (let u = (case s of [] \<Rightarrow> [] | c # t \<Rightarrow> if c = CHR ''-'' then t else s); ds = takeWhile is_digit u
     in ds \<noteq> [] \<and> (hd ds = CHR ''0'' \<longrightarrow> tl ds = []) \<and> frac_ok (dropWhile is_digit u))"

definition number_char :: "char \<Rightarrow> bool" where
  "number_char c \<longleftrightarrow> is_digit c \<or> c \<in> set ''+-.eE''"

text \<open>The printer, without white space.\<close>

function render :: "json \<Rightarrow> string" and render_fields :: "(string \<times> json) list \<Rightarrow> string"
  and render_elems :: "json list \<Rightarrow> string" where
  "render JNull = ''null''"
| "render (JNum t) = t"
| "render (JStr s) = append_quoted s"
| "render (JObj fs) = CHR ''{'' # render_fields fs"
| "render (JArr js) = CHR ''['' # render_elems js"
| "render_fields [] = ''}''"
| "render_fields ((key, v) # fs) =
     append_quoted key @ '':'' @ render v @ (if fs = [] then ''}'' else '','' @ render_fields fs)"
| "render_elems [] = '']''"
| "render_elems (v # js) = render v @ (if js = [] then '']'' else '','' @ render_elems js)"
  by pat_completeness auto
termination
  by (relation "measure (case_sum size (case_sum (size_list (size_prod (\<lambda>_. 0) size)) (size_list size)))")
    auto

text \<open>The reader. Strings come without their opening quote; the number bounds the nesting.\<close>

definition unhex :: "char \<Rightarrow> nat option" where
  "unhex c = find (\<lambda>d. hex_digit d = c) [0..<16]"

definition simple_escape :: "char \<Rightarrow> char option" where
  "simple_escape c = map_of
     [(CHR 0x22, CHR 0x22), (CHR 0x5C, CHR 0x5C), (CHR ''/'', CHR ''/''), (CHR ''b'', CHR 0x08), (CHR ''f'', CHR 0x0C),
      (CHR ''n'', CHR 0x0A), (CHR ''r'', CHR 0x0D), (CHR ''t'', CHR 0x09)] c"

definition code_unit :: "char \<Rightarrow> char \<Rightarrow> char \<Rightarrow> char \<Rightarrow> nat option" where
  "code_unit a b c d =
    (case map unhex [a, b, c, d] of
       [Some w, Some x, Some y, Some z] \<Rightarrow> Some (4096 * w + 256 * x + 16 * y + z)
     | _ \<Rightarrow> None)"

definition prepend :: "'a \<Rightarrow> ('a list \<times> 'b) option \<Rightarrow> ('a list \<times> 'b) option" where
  "prepend x = map_option (\<lambda>(xs, r). (x # xs, r))"

fun read_string :: "string \<Rightarrow> (string \<times> string) option" where
  "read_string [] = None"
| "read_string (c # t) =
     (if c = CHR 0x22 then Some ([], t)
      else if c = CHR 0x5C
      then (case t of
              [] \<Rightarrow> None
            | e # u \<Rightarrow>
                if e = CHR ''u''
                then (case u of
                        w # x # y # z # v \<Rightarrow>
                          (case code_unit w x y z of
                             Some n \<Rightarrow> if n < 256 then prepend (char_of n) (read_string v) else None
                           | None \<Rightarrow> None)
                      | _ \<Rightarrow> None)
                else (case simple_escape e of Some x \<Rightarrow> prepend x (read_string u) | None \<Rightarrow> None))
      else if (of_char c :: nat) < 0x20 then None
      else prepend c (read_string t))"

fun read_value :: "nat \<Rightarrow> string \<Rightarrow> (json \<times> string) option"
  and read_fields :: "nat \<Rightarrow> string \<Rightarrow> ((string \<times> json) list \<times> string) option"
  and read_elems :: "nat \<Rightarrow> string \<Rightarrow> (json list \<times> string) option" where
  "read_value 0 s = None"
| "read_value (Suc n) s =
     (case s of
        [] \<Rightarrow> None
      | c # t \<Rightarrow>
          if c = CHR 0x22 then map_option (\<lambda>(x, r). (JStr x, r)) (read_string t)
          else if c = CHR ''{''
          then (if take 1 t = ''}'' then Some (JObj [], tl t)
                else map_option (\<lambda>(fs, r). (JObj fs, r)) (read_fields n t))
          else if c = CHR ''[''
          then (if take 1 t = '']'' then Some (JArr [], tl t)
                else map_option (\<lambda>(js, r). (JArr js, r)) (read_elems n t))
          else if take 4 s = ''null'' then Some (JNull, drop 4 s)
          else if number_ok (takeWhile number_char s)
          then Some (JNum (takeWhile number_char s), dropWhile number_char s)
          else None)"
| "read_fields 0 s = None"
| "read_fields (Suc n) s =
     (if take 1 s \<noteq> [CHR 0x22] then None
      else case read_string (tl s) of
        None \<Rightarrow> None
      | Some (key, r) \<Rightarrow>
          if take 1 r \<noteq> '':'' then None
          else case read_value n (tl r) of
            None \<Rightarrow> None
          | Some (v, u) \<Rightarrow>
              if take 1 u = ''}'' then Some ([(key, v)], tl u)
              else if take 1 u = '','' then prepend (key, v) (read_fields n (tl u))
              else None)"
| "read_elems 0 s = None"
| "read_elems (Suc n) s =
     (case read_value n s of
        None \<Rightarrow> None
      | Some (v, u) \<Rightarrow>
          if take 1 u = '']'' then Some ([v], tl u)
          else if take 1 u = '','' then prepend v (read_elems n (tl u))
          else None)"

definition read_json :: "string \<Rightarrow> json option" where
  "read_json s = (case read_value (Suc (length s)) s of Some (j, []) \<Rightarrow> Some j | _ \<Rightarrow> None)"

section \<open>Strings read back\<close>

lemma unhex_hex [simp]:
  assumes "d < 16"
  shows "unhex (hex_digit d) = Some d"
proof -
  have "d \<in> set [0..<16]" using assms by simp
  moreover have "\<forall>d\<in>set [0..<16]. unhex (hex_digit d) = Some d" by code_simp
  ultimately show ?thesis by blast
qed

lemma read_escaped: "read_string (escape_char c @ t) = prepend c (read_string t)"
proof (cases "escape_char c = [CHR 0x5C, CHR ''u'', CHR ''0'', CHR ''0'', hex_digit (of_char c div 16), hex_digit (of_char c mod 16)]")
  case True
  have c: "(of_char c :: nat) < 256" by (metis of_char_mod_256 mod_less_divisor zero_less_numeral)
  have "hex_digit 0 = CHR ''0''" by code_simp
  then have "code_unit (CHR ''0'') (CHR ''0'') (hex_digit (of_char c div 16)) (hex_digit (of_char c mod 16))
      = Some (of_char c)"
    using c unhex_hex [of 0] by (simp add: code_unit_def less_mult_imp_div_less del: unhex_hex) (simp add: less_mult_imp_div_less)
  then show ?thesis using c by (simp add: True)
next
  case False
  then show ?thesis by (auto simp: escape_char_def simple_escape_def)
qed

lemma read_quoted: "read_string (escape_json_string s @ CHR 0x22 # t) = Some (s, t)"
  by (induction s) (simp_all add: read_escaped prepend_def)

section \<open>Values read back\<close>

text \<open>A tree that can be printed: its numbers are number tokens.\<close>

fun json_ok :: "json \<Rightarrow> bool" where
  "json_ok (JNum t) = number_ok t"
| "json_ok (JObj fs) = list_all (\<lambda>p. json_ok (snd p)) fs"
| "json_ok (JArr js) = list_all json_ok js"
| "json_ok _ = True"

definition stops :: "string \<Rightarrow> bool" where
  "stops s \<longleftrightarrow> (case s of [] \<Rightarrow> True | c # t \<Rightarrow> \<not> number_char c)"

lemma digit_number_char: "is_digit c \<Longrightarrow> number_char c"
  by (simp add: number_char_def)

lemma exp_ok_chars: "exp_ok s \<Longrightarrow> list_all number_char s"
  by (auto simp: exp_ok_def list_all_iff number_char_def split: list.splits if_splits)

lemma split_digits: "takeWhile is_digit s @ dropWhile is_digit s = s"
  by simp

lemma list_all_split:
  "list_all P (dropWhile Q s) \<Longrightarrow> (\<And>c. Q c \<Longrightarrow> P c) \<Longrightarrow> list_all P s"
  by (induction s) (auto split: if_splits)

lemma frac_ok_chars: "frac_ok s \<Longrightarrow> list_all number_char s"
proof (cases s)
  case (Cons c t)
  assume ok: "frac_ok s"
  show ?thesis
  proof (cases "c = CHR ''.''")
    case True
    then have "exp_ok (dropWhile is_digit t)" using ok Cons by (simp add: frac_ok_def)
    from list_all_split [OF exp_ok_chars [OF this] digit_number_char]
    show ?thesis using True Cons by (simp add: list_all_iff number_char_def)
  next
    case False
    then show ?thesis using ok Cons exp_ok_chars [of "c # t"] by (simp add: frac_ok_def)
  qed
qed simp

lemma number_chars: "number_ok s \<Longrightarrow> s \<noteq> [] \<and> list_all number_char s"
proof -
  assume ok: "number_ok s"
  define u where "u = (case s of [] \<Rightarrow> [] | c # t \<Rightarrow> if c = CHR ''-'' then t else s)"
  have u: "takeWhile is_digit u \<noteq> []" "frac_ok (dropWhile is_digit u)"
    using ok by (simp_all add: number_ok_def u_def Let_def)
  have "list_all number_char u" using list_all_split [OF frac_ok_chars [OF u(2)] digit_number_char] .
  moreover have "u \<noteq> []" using u(1) by auto
  ultimately show ?thesis by (cases s) (auto simp: u_def number_char_def split: if_splits)
qed

lemma read_number:
  assumes "number_ok t" "stops r"
  shows "takeWhile number_char (t @ r) = t" "dropWhile number_char (t @ r) = r"
proof -
  have t: "\<forall>c\<in>set t. number_char c" using number_chars [OF assms(1)] by (simp add: list_all_iff)
  moreover have "takeWhile number_char r = []" "dropWhile number_char r = r"
    using assms(2) by (cases r; simp add: stops_def)+
  ultimately show "takeWhile number_char (t @ r) = t" "dropWhile number_char (t @ r) = r" by simp_all
qed

lemma number_start:
  assumes "number_ok (c # t)"
  shows "c \<noteq> CHR 0x22" "c \<noteq> CHR ''{''" "c \<noteq> CHR ''[''" "c \<noteq> CHR ''n''"
  using number_chars [OF assms] by (auto simp: number_char_def is_digit_def)

lemma render_start:
  "json_ok j \<Longrightarrow> \<exists>c t. render j = c # t \<and> c \<noteq> CHR ''}'' \<and> c \<noteq> CHR '']''"
proof (cases j)
  case (JNum t)
  assume "json_ok j"
  then have "number_ok t" using JNum by simp
  then show ?thesis using number_chars [of t] JNum by (cases t) (auto simp: number_char_def is_digit_def)
qed (auto simp: append_quoted_def)

lemma stops_simps [simp]: "stops (CHR ''}'' # t)" "stops (CHR '']'' # t)" "stops (CHR '','' # t)" "stops []"
  by (simp_all add: stops_def number_char_def is_digit_def)

lemma render_read:
  "json_ok j \<Longrightarrow> length (render j) \<le> n \<Longrightarrow> stops r \<Longrightarrow> read_value n (render j @ r) = Some (j, r)"
  "list_all (\<lambda>p. json_ok (snd p)) fs \<Longrightarrow> fs \<noteq> [] \<Longrightarrow> length (render_fields fs) \<le> n \<Longrightarrow>
     read_fields n (render_fields fs @ r) = Some (fs, r)"
  "list_all json_ok js \<Longrightarrow> js \<noteq> [] \<Longrightarrow> length (render_elems js) \<le> n \<Longrightarrow>
     read_elems n (render_elems js @ r) = Some (js, r)"
proof (induction j and fs and js arbitrary: n r and n r and n r rule: render_render_fields_render_elems.induct)
  case 1
  then show ?case by (cases n) simp_all
next
  case (2 t)
  then obtain c u where t: "t = c # u" using number_chars [of t] by (cases t) auto
  obtain m where n: "n = Suc m" using 2 t by (cases n) auto
  have "take 4 (t @ r) \<noteq> ''null''" using number_start(4) [of c u] 2 t by auto
  then show ?case
    using 2 t n number_start [of c u] read_number [of t r] by simp
next
  case (3 s)
  then show ?case by (cases n) (simp_all add: append_quoted_def read_quoted)
next
  case (4 fs)
  obtain m where n: "n = Suc m" using 4 by (cases n) auto
  show ?case
  proof (cases fs)
    case Nil
    then show ?thesis by (simp add: n)
  next
    case (Cons p ps)
    then have "take 1 (render_fields fs @ r) \<noteq> ''}''" by (cases p) (simp add: append_quoted_def)
    then show ?thesis using 4 Cons by (simp add: n)
  qed
next
  case (5 js)
  obtain m where n: "n = Suc m" using 5 by (cases n) auto
  show ?case
  proof (cases js)
    case Nil
    then show ?thesis by (simp add: n)
  next
    case (Cons v vs)
    then have "take 1 (render_elems js @ r) \<noteq> '']''" using render_start [of v] 5 by auto
    then show ?thesis using 5 Cons by (simp add: n)
  qed
next
  case (7 key v fs)
  obtain m where n: "n = Suc m" using 7 by (cases n) auto
  show ?case using 7 by (cases "fs = []") (simp_all add: n append_quoted_def read_quoted prepend_def)
next
  case (9 v js)
  obtain m where n: "n = Suc m" using 9 render_start [of v] by (cases n) auto
  show ?case using 9 render_start [of v] by (cases "js = []") (auto simp: n prepend_def)
qed simp_all

section \<open>The numbers of the document\<close>

definition starts_number :: "string \<Rightarrow> bool" where
  "starts_number ds \<longleftrightarrow> ds \<noteq> [] \<and> list_all is_digit ds \<and> (hd ds = CHR ''0'' \<longrightarrow> tl ds = [])"

lemma number_ok_parts:
  assumes "starts_number ds" "frac_ok f" "f = [] \<or> \<not> is_digit (hd f)"
  shows "number_ok (ds @ f)" "number_ok (CHR ''-'' # ds @ f)"
proof -
  have f: "takeWhile is_digit f = []" "dropWhile is_digit f = f"
    using assms(3) by (cases f; simp)+
  have d: "\<forall>c\<in>set ds. is_digit c" and ne: "ds \<noteq> []" using assms(1) by (simp_all add: starts_number_def list_all_iff)
  have split: "takeWhile is_digit (ds @ f) = ds" "dropWhile is_digit (ds @ f) = f"
    using d f by simp_all
  have "hd ds \<noteq> CHR ''-''" using d ne by (cases ds) (auto simp: is_digit_def)
  then have "(case ds @ f of [] \<Rightarrow> [] | c # t \<Rightarrow> if c = CHR ''-'' then t else ds @ f) = ds @ f"
    using ne by (cases ds) auto
  then show "number_ok (ds @ f)" "number_ok (CHR ''-'' # ds @ f)"
    using split assms(1,2) by (simp_all add: number_ok_def starts_number_def Let_def)
qed

lemma dec_nat_all: "list_all is_digit (dec_nat n)"
  using dec_nat_digits by (auto simp: list_all_iff is_digit_def)

lemma dec_nat_ne [simp]: "dec_nat n \<noteq> []"
  by (subst dec_nat.simps) simp

lemma dec_nat_hd: "0 < n \<Longrightarrow> hd (dec_nat n) \<noteq> CHR ''0''"
proof (induction n rule: dec_nat.induct)
  case (1 n)
  show ?case
  proof (cases "n < 10")
    case True
    have "(of_char (digit n) :: nat) = 48 + n" using of_char_digit [OF True] .
    then have "digit n \<noteq> CHR ''0''" using 1 by auto
    then show ?thesis using True by (simp add: dec_nat.simps [of n])
  next
    case False
    then show ?thesis using 1 by (subst dec_nat.simps) (simp add: hd_append)
  qed
qed

lemma dec_nat_starts: "starts_number (dec_nat n)"
proof (cases "n = 0")
  case True
  then show ?thesis using dec_nat_all [of 0] by (simp add: starts_number_def dec_nat.simps [of 0])
next
  case False
  then show ?thesis using dec_nat_all [of n] dec_nat_hd [of n] by (simp add: starts_number_def)
qed

lemma integer_numbers: "number_ok (dec_u64 w)" "number_ok (dec_int i)"
  using number_ok_parts [OF dec_nat_starts, of "[]"] by (simp_all add: dec_u64_def dec_int_def frac_ok_def)

lemma length_dec_nat:
  assumes "0 < n"
  shows "10 ^ (length (dec_nat n) - 1) \<le> n" "n < 10 ^ length (dec_nat n)"
proof -
  have "10 ^ (length (dec_nat n) - 1) \<le> n \<and> n < 10 ^ length (dec_nat n)"
    using assms
  proof (induction n rule: dec_nat.induct)
    case (1 n)
    show ?case
    proof (cases "n < 10")
      case True
      then show ?thesis using 1 by (simp add: dec_nat.simps [of n])
    next
      case False
      define k where "k = length (dec_nat (n div 10))"
      have k: "0 < k" by (simp add: k_def)
      have "10 ^ (k - 1) \<le> n div 10" "n div 10 < 10 ^ k" using 1 False by (simp_all add: k_def)
      then have "10 ^ k \<le> n" "n < 10 * 10 ^ k" using k by (cases k; simp)+
      then show ?thesis using False by (subst dec_nat.simps, subst (2) dec_nat.simps) (simp add: k_def)
    qed
  qed
  then show "10 ^ (length (dec_nat n) - 1) \<le> n" "n < 10 ^ length (dec_nat n)" by simp_all
qed

lemma dec_nat_length:
  assumes "10 ^ k \<le> n" "n < 10 ^ Suc k"
  shows "length (dec_nat n) = Suc k"
proof -
  have "0 < n" using assms(1) by (metis less_le_trans zero_less_numeral zero_less_power)
  note l = length_dec_nat [OF this]
  have "(10::nat) ^ k < 10 ^ length (dec_nat n)" using assms(1) l(2) by (rule le_less_trans)
  moreover have "(10::nat) ^ (length (dec_nat n) - 1) < 10 ^ Suc k" using l(1) assms(2) by (rule le_less_trans)
  moreover have "(10::nat) ^ i < 10 ^ j \<Longrightarrow> i < j" for i j by simp
  ultimately have "k < length (dec_nat n)" "length (dec_nat n) - 1 < Suc k" by blast+
  then show ?thesis by simp
qed

lemma scale10_int: "scale10 k = 10 powi k"
  by (simp add: scale10_def power_int_def power_one_over)

lemma length_dec_nat_real:
  assumes "0 < n"
  obtains k where "length (dec_nat n) = Suc k" "10 ^ k \<le> real n" "real n + 1 \<le> 10 ^ Suc k"
proof -
  obtain k where k: "length (dec_nat n) = Suc k" by (cases "length (dec_nat n)") auto
  have "10 ^ k \<le> n" "Suc n \<le> 10 ^ Suc k"
    using length_dec_nat [OF assms] unfolding k diff_Suc_1 Suc_le_eq by blast+
  then have "real (10 ^ k) \<le> real n" "real (Suc n) \<le> real (10 ^ Suc k)" unfolding of_nat_le_iff by blast+
  then show ?thesis using that [OF k] unfolding of_nat_power of_nat_Suc of_nat_numeral by (simp only: add.commute)
qed

lemma dec_exp_bounds:
  assumes "0 < a"
  shows "scale10 (dec_exp a) \<le> a \<and> a < scale10 (dec_exp a + 1)"
proof (cases "1 \<le> a")
  case True
  define n where "n = nat \<lfloor>a\<rfloor>"
  have n: "0 < n" "real n \<le> a" "a < real n + 1" using True unfolding n_def by linarith+
  obtain k where k: "length (dec_nat n) = Suc k" "10 ^ k \<le> real n" "real n + 1 \<le> 10 ^ Suc k"
    using length_dec_nat_real [OF n(1)] .
  have "dec_exp a = int k" using True k(1) by (simp add: dec_exp_def flip: n_def)
  moreover have "10 ^ k \<le> a" using k(2) n(2) by (rule order_trans)
  moreover have "a < 10 ^ Suc k" using n(3) k(3) by (rule less_le_trans)
  ultimately show ?thesis by (simp add: scale10_def nat_add_distrib)
next
  case False
  define c where "c = nat (\<lceil>1 / a\<rceil> - 1)"
  have "1 < 1 / a" using False assms by simp
  then have c: "0 < c" "real c < 1 / a" "1 / a \<le> real c + 1" unfolding c_def by linarith+
  obtain k where k: "length (dec_nat c) = Suc k" "10 ^ k \<le> real c" "real c + 1 \<le> 10 ^ Suc k"
    using length_dec_nat_real [OF c(1)] .
  have "10 ^ k < 1 / a" "1 / a \<le> 10 ^ Suc k" using c k by linarith+
  then have a: "a < 1 / 10 ^ k" "1 / 10 ^ Suc k \<le> a" using assms by (simp_all add: field_simps)
  have e: "dec_exp a = - int (Suc k)" using False k(1) by (simp add: dec_exp_def flip: c_def)
  have "scale10 (dec_exp a) = 1 / 10 ^ Suc k" "scale10 (dec_exp a + 1) = 1 / 10 ^ k"
    by (simp_all add: e scale10_def del: of_nat_Suc) (simp add: nat_diff_distrib)
  then show ?thesis using a by simp
qed

lemma round_half_even_bounds:
  assumes "of_int l \<le> x" "x \<le> of_int u"
  shows "l \<le> round_half_even x" "round_half_even x \<le> u"
proof -
  have "l \<le> \<lfloor>x\<rfloor>" "\<lfloor>x\<rfloor> \<le> u" using assms by linarith+
  moreover have "\<lfloor>x\<rfloor> + 1 \<le> u \<or> x - of_int \<lfloor>x\<rfloor> = 0" using assms(2) by linarith
  ultimately show "l \<le> round_half_even x" "round_half_even x \<le> u"
    by (auto simp: round_half_even_def Let_def)
qed

text \<open>Rounding leaves six digits, or 10^6.\<close>

lemma six_digits:
  assumes "0 < a"
  shows "100000 \<le> round_half_even (a * scale10 (5 - dec_exp a))"
    "round_half_even (a * scale10 (5 - dec_exp a)) \<le> 1000000"
proof -
  let ?s = "scale10 (5 - dec_exp a)"
  have pos: "0 < ?s" by (simp add: scale10_int)
  have "scale10 (dec_exp a) * ?s = 100000" "scale10 (dec_exp a + 1) * ?s = 1000000"
    unfolding scale10_int by (simp_all flip: power_int_add)
  moreover have "scale10 (dec_exp a) * ?s \<le> a * ?s" "a * ?s \<le> scale10 (dec_exp a + 1) * ?s"
    using dec_exp_bounds [OF assms] pos by (intro mult_right_mono; simp)+
  ultimately show "100000 \<le> round_half_even (a * ?s)" "round_half_even (a * ?s) \<le> 1000000"
    using round_half_even_bounds [of 100000 "a * ?s" 1000000] by simp_all
qed

lemma strip_zeros_digits: "list_all is_digit s \<Longrightarrow> list_all is_digit (strip_zeros s)"
  unfolding strip_zeros_def list_all_iff by (auto dest: set_dropWhileD)

lemma strip_zeros_ne: "c \<in> set s \<Longrightarrow> c \<noteq> CHR ''0'' \<Longrightarrow> strip_zeros s \<noteq> []"
  by (auto simp: strip_zeros_def dropWhile_eq_Nil_conv)

lemma frac_digits:
  assumes "list_all is_digit s" "s \<noteq> []" "x = [] \<or> \<not> is_digit (hd x)" "exp_ok x"
  shows "frac_ok (CHR ''.'' # s @ x)"
proof -
  have "takeWhile is_digit x = []" "dropWhile is_digit x = x" using assms(3) by (cases x; simp)+
  then have "takeWhile is_digit (s @ x) = s" "dropWhile is_digit (s @ x) = x"
    using assms(1) by (simp_all add: list_all_iff)
  then show ?thesis using assms(2,4) by (simp add: frac_ok_def)
qed

lemma exp_digits_ok: "exp_ok (CHR ''e'' # exp_digits e)"
  using dec_nat_all [of "nat \<bar>e\<bar>"] by (auto simp: exp_ok_def exp_digits_def Let_def is_digit_def)

lemma frac_dot:
  assumes "list_all is_digit s" "x = [] \<or> \<not> is_digit (hd x)" "exp_ok x" "x = [] \<or> hd x = CHR ''e''"
  shows "frac_ok (dot_digits s @ x)" "dot_digits s @ x = [] \<or> \<not> is_digit (hd (dot_digits s @ x))"
  using assms frac_digits [OF strip_zeros_digits [OF assms(1)] _ assms(2,3)]
  by (auto simp: dot_digits_def frac_ok_def is_digit_def split: list.split)

lemma place_digits_ok:
  assumes "length ds = 6" "list_all is_digit ds" "hd ds \<noteq> CHR ''0''"
  shows "number_ok (place_digits ds e)" "number_ok (CHR ''-'' # place_digits ds e)"
proof -
  obtain c t where ds: "ds = c # t" using assms(1) by (cases ds) auto
  have ok: "is_digit c" "list_all is_digit t" "c \<noteq> CHR ''0''" using assms(2,3) by (simp_all add: ds)
  have "\<exists>is f. place_digits ds e = is @ f \<and> starts_number is \<and> frac_ok f \<and> (f = [] \<or> \<not> is_digit (hd f))"
  proof -
    consider "e < -4 \<or> 6 \<le> e" | "0 \<le> e" "e < 6" | "-4 \<le> e" "e < 0" by linarith
    then show ?thesis
    proof cases
      case 1
      have "starts_number [c]" using ok by (simp add: starts_number_def)
      moreover have "place_digits ds e = [c] @ (dot_digits t @ CHR ''e'' # exp_digits e)"
        using 1 by (simp add: place_digits_def ds)
      moreover have "\<not> is_digit (CHR ''e'')" by (simp add: is_digit_def)
      then have "frac_ok (dot_digits t @ CHR ''e'' # exp_digits e)"
        "dot_digits t @ CHR ''e'' # exp_digits e = [] \<or> \<not> is_digit (hd (dot_digits t @ CHR ''e'' # exp_digits e))"
        using frac_dot [OF ok(2) _ exp_digits_ok [of e]] by simp_all
      ultimately show ?thesis by blast
    next
      case 2
      have "starts_number (take (nat e + 1) ds)"
        using ok by (auto simp: starts_number_def ds list_all_iff dest: in_set_takeD)
      moreover have "list_all is_digit (drop (nat e + 1) ds)"
        using assms(2) by (auto simp: list_all_iff dest: in_set_dropD)
      note frac_dot [OF this, of "[]"]
      moreover have "place_digits ds e = take (nat e + 1) ds @ dot_digits (drop (nat e + 1) ds)"
        using 2 by (simp add: place_digits_def)
      ultimately show ?thesis by (intro exI conjI) (auto simp: exp_ok_def)
    next
      case 3
      let ?f = "CHR ''.'' # (replicate (nat (- e) - 1) (CHR ''0'') @ strip_zeros ds) @ []"
      have "strip_zeros ds \<noteq> []" using strip_zeros_ne [of c ds] ok(3) by (simp add: ds)
      then have "frac_ok ?f"
        using strip_zeros_digits [OF assms(2)]
        by (intro frac_digits) (auto simp: list_all_iff is_digit_def exp_ok_def)
      moreover have "place_digits ds e = ''0'' @ ?f" using 3 by (simp add: place_digits_def)
      moreover have "starts_number ''0''" "\<not> is_digit (hd ?f)" by (simp_all add: starts_number_def is_digit_def)
      ultimately show ?thesis by blast
    qed
  qed
  then show "number_ok (place_digits ds e)" "number_ok (CHR ''-'' # place_digits ds e)"
    using number_ok_parts by metis+
qed

lemma show_g_number: "number_ok (show_g x)"
proof (cases "x = 0")
  case True
  have "dec_int 0 = ''0''" by code_simp
  then show ?thesis using True integer_numbers(2) [of 0] by (simp add: show_g_def)
next
  case False
  define e0 where "e0 = dec_exp \<bar>x\<bar>"
  define m0 where "m0 = round_half_even (\<bar>x\<bar> * scale10 (5 - e0))"
  define m where "m = (if 1000000 \<le> m0 then 100000 else m0)"
  define e where "e = (if 1000000 \<le> m0 then e0 + 1 else e0)"
  have m0: "100000 \<le> m0" "m0 \<le> 1000000" using six_digits [of "\<bar>x\<bar>"] False by (simp_all add: m0_def e0_def)
  have "10 ^ 5 \<le> nat m" "nat m < 10 ^ Suc 5" using m0 by (auto simp: m_def)
  then have "length (dec_nat (nat m)) = 6" using dec_nat_length by fastforce
  moreover have "hd (dec_nat (nat m)) \<noteq> CHR ''0''" using m0 by (intro dec_nat_hd) (auto simp: m_def)
  ultimately have ok: "number_ok (place_digits (dec_nat (nat m)) e)" "number_ok (CHR ''-'' # place_digits (dec_nat (nat m)) e)"
    using place_digits_ok dec_nat_all by blast+
  have "show_g x = (if x < 0 then ''-'' else []) @ place_digits (dec_nat (nat m)) e"
    using False by (simp add: show_g_def Let_def m_def e_def m0_def e0_def)
  then show ?thesis using ok by simp
qed

section \<open>The document as a tree\<close>

definition jstr :: "string \<Rightarrow> string \<Rightarrow> string \<times> json" where
  "jstr key s = (key, JStr s)"

definition jnum :: "string \<Rightarrow> string \<Rightarrow> string \<times> json" where
  "jnum key t = (key, JNum t)"

definition connection_tree :: "diag_connection \<Rightarrow> json" where
  "connection_tree k = JObj
    [jstr ''state'' (conn_state_name (dc_state k)),
     jnum ''last_state_change_ms'' (dec_int (dc_last_state_change_ms k)),
     jnum ''reconnect_count'' (dec_u64 (dc_reconnect_count k)),
     (''last_error'', if dc_last_error_code k = EcOk then JNull
        else JObj [jstr ''code'' (error_name (dc_last_error_code k)), jstr ''message'' (dc_last_error_message k)]),
     jstr ''server_protocol_version'' (dc_server_protocol_version k)]"

definition transport_tree :: "diag_transport \<Rightarrow> json" where
  "transport_tree t = JObj
    [jnum ''rtt_p50_ms'' (show_g (dt_rtt_p50_ms t)), jnum ''rtt_p99_ms'' (show_g (dt_rtt_p99_ms t)),
     jnum ''bytes_sent'' (dec_u64 (dt_bytes_sent t)), jnum ''bytes_received'' (dec_u64 (dt_bytes_received t)),
     jnum ''last_ping_age_ms'' (dec_int (dt_last_ping_age_ms t))]"

definition subscription_tree :: "diag_subscription \<Rightarrow> json" where
  "subscription_tree s = JObj
    [jstr ''topic'' (dsub_topic s), jstr ''state'' (sub_state_name (dsub_state s)),
     jnum ''configured_hz'' (show_g (dsub_configured_hz s)),
     jnum ''received_hz_1min'' (show_g (dsub_received_hz_1min s)),
     jnum ''drop_count'' (dec_u64 (dsub_drop_count s)), jnum ''last_seq'' (dec_u64 (dsub_last_seq s)),
     jnum ''last_message_age_ms'' (dec_int (dsub_last_message_age_ms s))]"

definition rpc_tree :: "diag_rpc \<Rightarrow> json" where
  "rpc_tree c = JObj
    [jstr ''name'' (drpc_name c), jnum ''count'' (dec_u64 (drpc_count c)),
     jnum ''error_count'' (dec_u64 (drpc_error_count c)), jnum ''p99_latency_ms'' (show_g (drpc_p99_latency_ms c))]"

definition diagnostics_tree :: "diagnostics \<Rightarrow> json" where
  "diagnostics_tree d = JObj
    [(''connection'', connection_tree (dg_connection d)), (''transport'', transport_tree (dg_transport d)),
     (''subscriptions'', JArr (map subscription_tree (dg_subscriptions d))),
     (''rpcs'', JArr (map rpc_tree (dg_rpcs d)))]"

lemma json_ok_tree: "json_ok (diagnostics_tree d)"
  by (simp add: diagnostics_tree_def connection_tree_def transport_tree_def subscription_tree_def rpc_tree_def
      jstr_def jnum_def integer_numbers show_g_number list_all_iff)

text \<open>The keys need no escapes.\<close>

lemma append_quoted_plain:
  "list_all (\<lambda>c. 0x20 \<le> (of_char c :: nat) \<and> c \<noteq> CHR 0x22 \<and> c \<noteq> CHR 0x5C) key \<Longrightarrow>
     append_quoted key = CHR 0x22 # key @ [CHR 0x22]"
proof -
  have "list_all (\<lambda>c. 0x20 \<le> (of_char c :: nat) \<and> c \<noteq> CHR 0x22 \<and> c \<noteq> CHR 0x5C) key \<Longrightarrow> escape_json_string key = key"
    by (induction key) (auto simp: escape_char_def)
  moreover assume "list_all (\<lambda>c. 0x20 \<le> (of_char c :: nat) \<and> c \<noteq> CHR 0x22 \<and> c \<noteq> CHR 0x5C) key"
  ultimately show ?thesis by (simp add: append_quoted_def)
qed

lemma quoted_key_eq:
  "list_all (\<lambda>c. 0x20 \<le> (of_char c :: nat) \<and> c \<noteq> CHR 0x22 \<and> c \<noteq> CHR 0x5C) key \<Longrightarrow>
     append_quoted key @ '':'' = quoted_key key"
  by (simp add: append_quoted_plain quoted_key_def)

lemma json_from_Suc: "json_from (Suc i) f xs = concat (map (\<lambda>x. '','' @ f x) xs)"
  by (induction xs arbitrary: i) simp_all

lemma render_elems_map:
  assumes "\<And>x. render (tree x) = f x"
  shows "render_elems (map tree xs) = json_from 0 f xs @ '']''"
proof (induction xs)
  case (Cons x xs)
  then show ?case by (cases xs) (simp_all add: assms json_from_Suc)
qed simp

lemma render_fields_simps:
  "render_fields [(key, v)] = append_quoted key @ '':'' @ render v @ ''}''"
  "render_fields ((key, v) # p # ps) = append_quoted key @ '':'' @ render v @ '','' @ render_fields (p # ps)"
  by simp_all

lemma render_parts:
  "render (JObj [p]) = ''{'' @ render_fields [p]"
  "render_fields [jstr key s] = append_quoted key @ '':'' @ append_quoted s @ ''}''"
  "render_fields [jnum key t] = append_quoted key @ '':'' @ t @ ''}''"
  "render_fields (jstr key s # p # ps) = append_quoted key @ '':'' @ append_quoted s @ '','' @ render_fields (p # ps)"
  "render_fields (jnum key t # p # ps) = append_quoted key @ '':'' @ t @ '','' @ render_fields (p # ps)"
  by (simp_all add: jstr_def jnum_def)

lemma kv_string_eq:
  "list_all (\<lambda>c. 0x20 \<le> (of_char c :: nat) \<and> c \<noteq> CHR 0x22 \<and> c \<noteq> CHR 0x5C) key \<Longrightarrow>
     append_kv_string key v = append_quoted key @ '':'' @ append_quoted v"
  by (simp add: append_quoted_plain append_kv_string_def)

lemma render_components:
  "render (connection_tree k) = json_connection k"
  "render (transport_tree t) = json_transport t"
  "render (subscription_tree s) = json_subscription s"
  "render (rpc_tree c) = json_rpc c"
  unfolding connection_tree_def json_connection_def transport_tree_def json_transport_def
    subscription_tree_def json_subscription_def rpc_tree_def json_rpc_def jstr_def jnum_def
  by (simp_all add: append_kv_string_def quoted_key_def append_quoted_plain)

lemma to_json_render: "to_json d = render (diagnostics_tree d)"
proof -
  note arrays = render_elems_map [of subscription_tree json_subscription, OF render_components(3)]
    render_elems_map [of rpc_tree json_rpc, OF render_components(4)]
  show ?thesis
    unfolding to_json_def diagnostics_tree_def
    by (simp add: render_components arrays quoted_key_def append_quoted_plain)
qed


end
