(* ===== verification/DiagSnapshot.thy ===== *)
theory DiagSnapshot
  imports RobotKeeps Sample RobotApi
begin

text \<open>
  What \<open>GetDiagnostics\<close> reports of a running robot: the histograms stay within their capacity whatever
  is sent and received, and the snapshot agrees with the robot it is taken of.
\<close>

definition hists :: "bool \<Rightarrow> robot \<Rightarrow> bool" where
  "hists b r \<longleftrightarrow> counters_ok (r_metrics r)"

lemma hists_transition: "hists b r \<Longrightarrow> hists b (transition_to st info r)"
  by (auto simp: hists_def counters_ok_def transition_to_def post_state_callback_def post_log_def post_task_def
      upd_metrics_def Let_def split: option.split)

interpretation hists_kept: kept hists
proof unfold_locales
  show "core r' = core r \<Longrightarrow> hists b r' = hists b r" for r' r b by (simp add: hists_def core_def)
qed (simp_all add: hists_transition, simp_all add: hists_def counts_def post_task_def upd_metrics_def)

interpretation hists: inductive_invariant "robot_start c" "fresh_step c depth" "hists False" for c depth
proof unfold_locales
  fix r assume "robot_start c r"
  then show "hists False r"
    by (auto simp: robot_start_def robot_create_def robot_new_def metrics_new_def rpc_stat_new_def hists_def counters_ok_def
        split: option.splits)
next
  fix r r' assume "hists False r" "fresh_step c depth r r'"
  then show "hists False r'"
    using hists_kept.kept_step [of r False c depth r'] by (simp add: fresh_step_def hists_def)
qed

lemma stats_listed:
  "map dsub_topic (fst (subscription_stats ps r)) = map fst ps"
  "session (snd (subscription_stats ps r)) = session r"
  by (induction ps arbitrary: r)
    (simp_all add: Let_def case_prod_beta split_paired_all subscription_stat_def slide_hz_buckets_def session_upd_slot
      slide_slot_def)

lemma percentiles_ordered: "p50_ms xs \<le> p99_ms xs"
proof (cases "xs = []")
  case False
  then have i: "(length xs * 99) div 100 < length xs" by (cases xs) auto
  have "length xs div 2 \<le> (length xs * 99) div 100 \<or> length xs = 1"
    using False by (cases "length xs") auto
  then show ?thesis using i False nth_element_mono [of _ _ xs] by (auto simp: p50_ms_def p99_ms_def)
qed (simp add: p50_ms_def p99_ms_def)

text \<open>
  C18. The snapshot of a robot in any reachable state: no histogram holds more than 1024 samples, the median
  round trip is at most the 99th percentile, there is one entry per subscription of the map, in its order,
  \<open>cmd_vel\<close> and \<open>emergency_stop\<close> are listed with their counters, and the quick answer that a callback gets agrees
  with the full one in the state, the time of the last change, the percentiles and the byte counters. Taking
  it changes nothing of the session. The third entry, \<open>ping\<close>, is always empty: no operation counts a ping.
\<close>

theorem diagnostics_snapshot:
  assumes "reach (robot_start c) (fresh_step c depth) r" "full_diagnostics r = (d, r')"
  shows "length (mt_rtt_hist (r_metrics r)) \<le> 1024
    \<and> length (rst_latency_hist (mt_cmdvel (r_metrics r))) \<le> 1024
    \<and> length (rst_latency_hist (mt_estop (r_metrics r))) \<le> 1024
    \<and> dt_rtt_p50_ms (dg_transport d) \<le> dt_rtt_p99_ms (dg_transport d)
    \<and> map dsub_topic (dg_subscriptions d) = map fst (r_active_subs r)
    \<and> map (\<lambda>s. (drpc_name s, drpc_count s, drpc_error_count s)) (dg_rpcs d)
        = [(''cmd_vel'', rst_count (mt_cmdvel (r_metrics r)), rst_error_count (mt_cmdvel (r_metrics r))),
           (''emergency_stop'', rst_count (mt_estop (r_metrics r)), rst_error_count (mt_estop (r_metrics r))),
           (''ping'', 0, 0)]
    \<and> dc_state (dg_connection d) = dc_state (dg_connection (quick_diagnostics r))
    \<and> dc_last_state_change_ms (dg_connection d) = dc_last_state_change_ms (dg_connection (quick_diagnostics r))
    \<and> (dg_transport d)\<lparr>dt_last_ping_age_ms := dt_last_ping_age_ms (dg_transport (quick_diagnostics r))\<rparr>
        = dg_transport (quick_diagnostics r)
    \<and> session r' = session r"
proof -
  have "counters_ok (r_metrics r)" using hists.reach_inv [OF assms(1)] by (simp add: hists_def)
  moreover have "d = fst (full_diagnostics r)" "r' = snd (full_diagnostics r)" using assms(2) by simp_all
  ultimately show ?thesis
    by (simp add: full_diagnostics_def quick_diagnostics_def diagnostics_default_def diag_connection_default_def
        diag_transport_default_def counters_ok_def kCap_def rpc_stat_new_def percentiles_ordered stats_listed rpc_stat_of_def Let_def
        case_prod_beta)
qed

theorem diagnostics_snapshot_witness:
  "r_state (sampled to_stopped) = CsReady
   \<and> dt_rtt_p50_ms (dg_transport (fst (full_diagnostics (sampled to_stopped))))
       \<le> dt_rtt_p99_ms (dg_transport (fst (full_diagnostics (sampled to_stopped))))"
proof -
  have "r_state (sampled to_stopped) = CsReady" by code_simp
  then show ?thesis
    using diagnostics_snapshot [OF sampled_reach, of to_stopped "fst (full_diagnostics (sampled to_stopped))"
        "snd (full_diagnostics (sampled to_stopped))"] by simp
qed

end
