(* ===== verification/Reconnect.thy ===== *)
theory Reconnect
  imports PromiseLoop Sample
begin

text \<open>
  Options and reconnecting: what accepted options guarantee, the delay before an attempt against its
  closed form, and the attempts at a server that cannot be reached.
\<close>

section \<open>The backoff\<close>

lemma backoff_exp_closed: "0 \<le> e \<Longrightarrow> min m (backoff_exp n e m) = min m (e * 2 ^ n)"
proof (induction n arbitrary: e)
  case (Suc n)
  have "(1::real) \<le> 2 ^ Suc n" by (rule one_le_power) simp
  then have "e \<le> e * 2 ^ Suc n" using Suc.prems mult_left_mono [of 1 "2 ^ Suc n" e] by simp
  moreover have "min m (backoff_exp n (e * 2) m) = min m (e * 2 ^ Suc n)"
    using Suc.IH [of "e * 2"] Suc.prems by (simp add: ac_simps)
  ultimately show ?case by (cases "e < m") (simp_all add: min_def)
qed simp

definition jitter :: "connect_options \<Rightarrow> double" where
  "jitter opts = max (5 / 100) (co_reconnect_jitter_ratio opts)"

text \<open>
  C35. For accepted options the delay before an attempt is the base delay doubled once per attempt,
  capped at the maximum, less a random share of it: the loop of \<open>NextBackoff\<close> computes this closed form,
  and the delay is never negative, never above the maximum, and never below the share the jitter leaves.
\<close>

theorem backoff_is_capped_doubling:
  fixes opts :: connect_options and attempt :: u32
  assumes "validate_opts opts = None" "0 \<le> co_reconnect_base_delay opts" "0 \<le> draw" "draw \<le> 1"
  defines "d \<equiv> min (real_of_int (co_reconnect_max_delay opts)) (real_of_int (co_reconnect_base_delay opts) * 2 ^ unat attempt)"
  shows "backoff_ms opts attempt draw = \<lfloor>d * (1 - jitter opts * draw)\<rfloor>
    \<and> \<lfloor>d * (1 - jitter opts)\<rfloor> \<le> backoff_ms opts attempt draw
    \<and> 0 \<le> backoff_ms opts attempt draw \<and> backoff_ms opts attempt draw \<le> co_reconnect_max_delay opts"
proof -
  have valid: "co_reconnect_base_delay opts \<le> co_reconnect_max_delay opts" "co_reconnect_jitter_ratio opts \<le> 1"
    using assms(1) by (auto simp: validate_opts_def split: if_splits)
  have j: "0 < jitter opts" "jitter opts \<le> 1" using valid(2) by (auto simp: jitter_def)
  have d: "0 \<le> d" "d \<le> real_of_int (co_reconnect_max_delay opts)" using assms(2) valid(1) by (simp_all add: d_def)
  have "0 \<le> jitter opts * draw" using j(1) assms(3) by simp
  then have share: "0 \<le> jitter opts * draw" "jitter opts * draw \<le> jitter opts" "jitter opts * draw \<le> 1"
    using j assms(3,4) mult_left_mono [of draw 1 "jitter opts"] by linarith+
  let ?x = "d * (1 - jitter opts * draw)"
  have x: "0 \<le> ?x" "?x \<le> d" "d * (1 - jitter opts) \<le> ?x"
    using d(1) share mult_left_mono [of "1 - jitter opts * draw" 1 d] by (auto intro!: mult_left_mono)
  let ?e = "backoff_exp (unat attempt) (real_of_int (co_reconnect_base_delay opts)) (real_of_int (co_reconnect_max_delay opts))"
  have "(if ?e > real_of_int (co_reconnect_max_delay opts) then real_of_int (co_reconnect_max_delay opts) else ?e)
      = min (real_of_int (co_reconnect_max_delay opts)) ?e" by simp
  also have "... = d" unfolding d_def using assms(2) by (intro backoff_exp_closed) simp
  finally have "(if ?e > real_of_int (co_reconnect_max_delay opts) then real_of_int (co_reconnect_max_delay opts) else ?e) = d" .
  then have b: "backoff_ms opts attempt draw = \<lfloor>?x\<rfloor>"
    using x(1) by (simp add: backoff_ms_def Let_def jitter_def algebra_simps)
  have "\<lfloor>?x\<rfloor> \<le> co_reconnect_max_delay opts" using x(2) d(2) by linarith
  then show ?thesis using b x by (simp add: floor_mono)
qed

theorem backoff_is_capped_doubling_witness:
  "backoff_ms sample_opts 3 (1 / 2) = 3400 \<and> backoff_ms sample_opts 40 (1 / 2) = 25500"
proof -
  have "validate_opts sample_opts = None"
    by (simp add: validate_opts_def sample_opts_def connect_options_default_def)
  from backoff_is_capped_doubling [OF this, of "1 / 2" 3] backoff_is_capped_doubling [OF this, of "1 / 2" 40]
  show ?thesis by (simp add: sample_opts_def connect_options_default_def jitter_def)
qed

section \<open>A server that cannot be reached\<close>

text \<open>No connection from the \<open>n0\<close>-th on succeeds, and none is refused for good.\<close>

definition unreachable :: "ctx \<Rightarrow> nat \<Rightarrow> bool" where
  "unreachable c n0 \<longleftrightarrow> (\<exists>w. ws_client_new (cx_ssl c) (ws_config_of (cx_opts c)) = Inr w)
     \<and> (\<forall>n\<ge>n0. case cx_connect c n of
            None \<Rightarrow> True
          | Some None \<Rightarrow> False
          | Some (Some e) \<Rightarrow> classify (exn_code e) \<noteq> CatFatal)"

lemma unreachable_connect:
  assumes "unreachable c n0" "n0 \<le> n"
  obtains e where "ws_connect (cx_connect c n) w = Inl e" "classify (exn_code e) \<noteq> CatFatal"
proof -
  have codes: "classify EcTransportFailure \<noteq> CatFatal" "classify EcTimeout \<noteq> CatFatal" by simp_all
  have "case cx_connect c n of None \<Rightarrow> True | Some None \<Rightarrow> False | Some (Some e) \<Rightarrow> classify (exn_code e) \<noteq> CatFatal"
    using assms unfolding unreachable_def by blast
  then have "\<exists>e. ws_connect (cx_connect c n) w = Inl e \<and> classify (exn_code e) \<noteq> CatFatal"
    using codes by (cases "cx_connect c n") (auto simp: ws_connect_def split_endpoint_def split: option.splits)
  then show ?thesis using that by blast
qed

lemma attempt_frame [simp]:
  "r_reconnect_attempt (transition_to st info r) = r_reconnect_attempt r"
  "r_reconnect_attempt (snd (next_backoff c a r)) = r_reconnect_attempt r"
  "r_next_conn (transition_to st info r) = r_next_conn r"
  "r_next_conn (snd (next_backoff c a r)) = r_next_conn r"
  by (simp_all add: transition_to_def post_state_callback_def post_log_def post_task_def upd_metrics_def
      next_backoff_def Let_def split: option.split)

lemma state_frame [simp]:
  "r_state (snd (next_backoff c a r)) = r_state r"
  by (simp add: next_backoff_def)

lemma abort_idle_state:
  assumes "r_inflight r = []"
  shows "fine (\<lambda>r'. r_inflight r' = [] \<and> r_state r' = CsFatal) (abort_to_fatal oc err msg r)"
proof -
  obtain r' where r': "abort_to_fatal oc err msg r = Inr r'" "ledger r' = ledger r"
    using abort_idle [OF assms, of oc err msg] unfolding fine_def by blast
  have "r_state r' = CsFatal"
    using r'(1) by (auto simp: abort_to_fatal_def Let_def obind_eq_Inr state_transition)
  then show ?thesis using ledger_eqD(1) [OF r'(2)] assms r'(1) by simp
qed

definition gives_up :: "ctx \<Rightarrow> u32 \<Rightarrow> bool" where
  "gives_up c attempt \<longleftrightarrow> 0 \<le> co_reconnect_max_attempts (cx_opts c)
     \<and> co_reconnect_max_attempts (cx_opts c) < sint attempt"

definition armed_for :: "ctx \<Rightarrow> nat \<Rightarrow> u32 \<Rightarrow> robot \<Rightarrow> bool" where
  "armed_for c n0 attempt r \<longleftrightarrow> r_inflight r = [] \<and>
     (if gives_up c attempt then r_state r = CsFatal
      else r_state r = CsTransientFailure \<and> n0 \<le> r_next_conn r \<and> (\<exists>t. r_reconnect_timer r = Some (t, attempt)))"

lemma do_reconnect_armed:
  assumes "r_inflight r = []" "r_state r = CsTransientFailure" "n0 \<le> r_next_conn r"
  shows "fine (armed_for c n0 attempt) (do_reconnect c oc attempt r)"
proof (cases "gives_up c attempt")
  case True
  then have "do_reconnect c oc attempt r = abort_to_fatal oc EcTransportFailure ''reconnect_max_attempts reached'' r"
    using assms(2) by (simp add: do_reconnect_def gives_up_def)
  then show ?thesis
    using fine_mono [OF abort_idle_state [OF assms(1), of oc EcTransportFailure "''reconnect_max_attempts reached''"]] True
    by (simp add: armed_for_def)
next
  case False
  obtain d r1 where b: "next_backoff c (attempt - 1) r = (d, r1)" by fastforce
  have "r_inflight r1 = []" using ledger_eqD(1) [OF ledger_looksD(3) [OF b]] assms(1) by simp
  moreover have "r_state r1 = CsTransientFailure" using state_frame [of c "attempt - 1" r] b assms(2) by simp
  moreover have "n0 \<le> r_next_conn r1" using attempt_frame(4) [of c "attempt - 1" r] b assms(3) by simp
  ultimately show ?thesis
    using assms(2) b False by (auto simp: do_reconnect_def gives_up_def armed_for_def Let_def)
qed

lemma failed_attempt:
  assumes "unreachable c n0" "n0 \<le> r_next_conn r" "r_inflight r = []" "r_state r = CsTransientFailure"
  shows "fine (armed_for c n0 (attempt + 1)) (on_reconnect_timer c oc attempt r)"
proof -
  define r1 where "r1 = transition_to CsReconnecting (change_info ''reconnecting'' EcOk [] 0 attempt [])
    (r\<lparr>r_reconnect_attempt := attempt\<rparr>)"
  define r2 where "r2 = r1\<lparr>r_next_conn := Suc (r_next_conn r1)\<rparr>"
  have n: "n0 \<le> r_next_conn r1" using assms(2) by (simp add: r1_def)
  obtain w where w: "ws_client_new (cx_ssl c) (ws_config_of (cx_opts c)) = Inr w"
    using assms(1) by (auto simp: unreachable_def)
  obtain e where e: "ws_connect (cx_connect c (r_next_conn r1)) w = Inl e" "classify (exn_code e) \<noteq> CatFatal"
    using unreachable_connect [OF assms(1)] n .
  obtain d r3 where b: "next_backoff c (r_reconnect_attempt r2) r2 = (d, r3)" by fastforce
  define r4 where "r4 = transition_to CsTransientFailure
    (change_info ''ws connect failed'' (exn_code e) (exn_what e) d 0 []) r3"
  have l1: "ledger r1 = ledger r" by (simp add: r1_def)
  then have l: "ledger r4 = ledger r" using ledger_looksD(3) [OF b] by (simp add: r4_def r2_def)
  have a: "r_reconnect_attempt r4 = attempt"
    using attempt_frame(2) [of c "r_reconnect_attempt r2" r2] unfolding b r4_def by (simp add: r2_def r1_def)
  have n4: "n0 \<le> r_next_conn r4"
    using attempt_frame(4) [of c "r_reconnect_attempt r2" r2] n unfolding b r4_def by (simp add: r2_def)
  have "on_reconnect_timer c oc attempt r = do_reconnect c oc (attempt + 1) r4"
    using assms(4) w e b a
    by (simp add: on_reconnect_timer_def establish_connection_def connect_ws_def fail_and_reconnect_def Let_def
        state_transition r4_def r2_def r1_def)
  moreover have "r_state r4 = CsTransientFailure" by (simp add: r4_def state_transition)
  ultimately show ?thesis using do_reconnect_armed [of r4, OF _ _ n4] ledger_eqD(1) [OF l] assms(3) by simp
qed

text \<open>\<open>n\<close> expiries of the reconnect timer, as long as one is armed.\<close>

fun retries :: "ctx \<Rightarrow> on_complete_fn \<Rightarrow> nat \<Rightarrow> robot \<Rightarrow> robot outcome" where
  "retries c oc 0 r = Inr r"
| "retries c oc (Suc n) r =
     obind (retries c oc n r)
       (\<lambda>r1. case r_reconnect_timer r1 of
          None \<Rightarrow> Inr r1
        | Some (t, attempt) \<Rightarrow> on_reconnect_timer c oc attempt (r1\<lparr>r_reconnect_timer := None\<rparr>))"

lemma armed_timer:
  assumes "armed_for c n0 attempt r" "\<not> gives_up c attempt"
  obtains t where "r_reconnect_timer r = Some (t, attempt)" "n0 \<le> r_next_conn r" "r_inflight r = []" "r_state r = CsTransientFailure"
  using assms by (auto simp: armed_for_def)

lemma retries_armed:
  assumes "unreachable c n0" "armed_for c n0 attempt r" "\<forall>k<n. \<not> gives_up c (attempt + of_nat k)"
  shows "fine (armed_for c n0 (attempt + of_nat n)) (retries c oc n r)"
  using assms(3)
proof (induction n)
  case (Suc n)
  then have "fine (armed_for c n0 (attempt + of_nat n)) (retries c oc n r)" "\<not> gives_up c (attempt + of_nat n)" by simp_all
  then show ?case unfolding retries.simps
  proof (elim fine_obind)
    fix r1 assume "armed_for c n0 (attempt + of_nat n) r1" and go: "\<not> gives_up c (attempt + of_nat n)"
    from armed_timer [OF this] obtain t where r1: "r_reconnect_timer r1 = Some (t, attempt + of_nat n)"
      "n0 \<le> r_next_conn r1" "r_inflight r1 = []" "r_state r1 = CsTransientFailure" .
    have "fine (armed_for c n0 (attempt + of_nat n + 1))
        (on_reconnect_timer c oc (attempt + of_nat n) (r1\<lparr>r_reconnect_timer := None\<rparr>))"
      using r1 by (intro failed_attempt [OF assms(1)]) simp_all
    then show "fine (armed_for c n0 (attempt + of_nat (Suc n)))
        (case r_reconnect_timer r1 of None \<Rightarrow> Inr r1
         | Some (t, attempt) \<Rightarrow> on_reconnect_timer c oc attempt (r1\<lparr>r_reconnect_timer := None\<rparr>))"
      by (simp add: r1(1) ac_simps)
  qed
qed (use assms(2) in simp)

lemma sint_small: "n < 2 ^ 31 \<Longrightarrow> sint (of_nat n :: u32) = int n"
  by (simp add: signed_of_nat signed_take_bit_int_eq_self)

text \<open>
  C34. A reachable robot that has just lost (or failed to make) its connection, at a server that refuses every attempt: with
  \<open>reconnect_max_attempts = n\<close> it makes exactly \<open>n\<close> more attempts, one for each expiry of the timer, and
  then is \<open>Fatal\<close>; before that it stays in \<open>TransientFailure\<close> with the timer armed for the next attempt.
\<close>

theorem unreachable_server_ends_fatal:
  assumes "reach (robot_start c) (fresh_step c depth) r" "unreachable c (r_next_conn r)" "r_state r = CsTransientFailure"
    "r_reconnect_timer r = Some (t, 1)" "co_reconnect_max_attempts (cx_opts c) = int n" "0 < n" "n < 2 ^ 31 - 1"
  shows "(\<forall>k<n. \<exists>r' t'. retries c oc k r = Inr r' \<and> r_state r' = CsTransientFailure
        \<and> r_reconnect_timer r' = Some (t', of_nat (Suc k)))
    \<and> (\<exists>r'. retries c oc n r = Inr r' \<and> r_state r' = CsFatal)"
proof -
  have up: "gives_up c (1 + of_nat k) \<longleftrightarrow> n \<le> k" if "k \<le> n" for k
  proof -
    have "sint (of_nat (Suc k) :: u32) = int (Suc k)" using that assms(7) by (intro sint_small) linarith
    then show ?thesis using assms(5) by (simp add: gives_up_def) linarith
  qed
  have "r_inflight r = []"
    using life_parts(1) [OF life.reach_inv [OF assms(1)]] assms(3) by (simp add: inflight_ok_def)
  then have armed: "armed_for c (r_next_conn r) 1 r" using up [of 0] assms(3,4,6) by (simp add: armed_for_def)
  have run: "fine (armed_for c (r_next_conn r) (1 + of_nat k)) (retries c oc k r)" if "k \<le> n" for k
    using up that by (intro retries_armed [OF assms(2) armed]) simp
  have "\<exists>r' t'. retries c oc k r = Inr r' \<and> r_state r' = CsTransientFailure
      \<and> r_reconnect_timer r' = Some (t', of_nat (Suc k))" if "k < n" for k
    using run [of k] up [of k] that by (auto simp: fine_def armed_for_def)
  moreover have "\<exists>r'. retries c oc n r = Inr r' \<and> r_state r' = CsFatal"
    using run [of n] up [of n] by (auto simp: fine_def armed_for_def)
  ultimately show ?thesis by blast
qed

text \<open>A server that refuses every connection, and a robot that makes two more attempts.\<close>

definition lossy_ctx :: ctx where
  "lossy_ctx = sample_ctx\<lparr>cx_opts := sample_opts\<lparr>co_reconnect_max_attempts := 2\<rparr>,
     cx_connect := (\<lambda>_. Some (Some \<lparr>exn_code = EcTransportFailure, exn_what = []\<rparr>))\<rparr>"

definition lost_robot :: robot where
  "lost_robot = run_script lossy_ctx 3 [Connect, Round]
     ((robot_new (cx_opts lossy_ctx) None 0 1000)\<lparr>r_work_guard := True\<rparr>)"

lemma lost_robot_reach: "reach (robot_start lossy_ctx) (fresh_step lossy_ctx 3) lost_robot"
proof -
  have "robot_create (cx_opts lossy_ctx) None 0 1000
      = Inr ((robot_new (cx_opts lossy_ctx) None 0 1000)\<lparr>r_work_guard := True\<rparr>)"
    by (simp add: robot_create_def validate_opts_def lossy_ctx_def sample_opts_def connect_options_default_def)
  then have "robot_start lossy_ctx ((robot_new (cx_opts lossy_ctx) None 0 1000)\<lparr>r_work_guard := True\<rparr>)"
    unfolding robot_start_def by auto
  then show ?thesis
    unfolding lost_robot_def using reach_steps [OF reach_start run_script_steps] by blast
qed

lemma lost_robot_waits:
  "r_state lost_robot = CsTransientFailure \<and> map_option snd (r_reconnect_timer lost_robot) = Some 1
    \<and> r_next_conn lost_robot = 1"
  by code_simp

lemma lossy_unreachable: "unreachable lossy_ctx (r_next_conn lost_robot)"
proof -
  have n: "r_next_conn lost_robot = 1" using lost_robot_waits by blast
  have "\<exists>w. ws_client_new (cx_ssl lossy_ctx) (ws_config_of (cx_opts lossy_ctx)) = Inr w"
    by (simp add: lossy_ctx_def sample_ctx_def ws_client_new_def)
  then show ?thesis unfolding unreachable_def n by (simp add: lossy_ctx_def)
qed

theorem unreachable_server_ends_fatal_witness:
  "\<exists>r'. retries lossy_ctx (call_on_complete lossy_ctx 3) 2 lost_robot = Inr r' \<and> r_state r' = CsFatal"
proof -
  obtain t where t: "r_reconnect_timer lost_robot = Some (t, 1)" using lost_robot_waits by auto
  have "co_reconnect_max_attempts (cx_opts lossy_ctx) = int 2" by (simp add: lossy_ctx_def)
  then show ?thesis
    using unreachable_server_ends_fatal [OF lost_robot_reach lossy_unreachable _ t] lost_robot_waits by simp
qed

end
