(* ===== verification/Connecting.thy ===== *)
theory Connecting
  imports Reconnect
begin

text \<open>
  From \<open>Connect\<close> to \<open>Ready\<close>: the first connection, handler by handler, what the codes of the wire decode
  to, and the loop over the subscriptions that a lost attempt pulls away from under itself.
\<close>

section \<open>The first connection\<close>

lemma transition_frame [simp]:
  "r_wire (transition_to st info r) = r_wire r" "r_loop_done (transition_to st info r) = r_loop_done r"
  "r_robot_info (transition_to st info r) = r_robot_info r" "r_looks (transition_to st info r) = r_looks r"
  "r_next_request_id (transition_to st info r) = r_next_request_id r"
  "r_ws (transition_to st info r) = r_ws r" "r_inflight (transition_to st info r) = r_inflight r"
  "r_active_subs (transition_to st info r) = r_active_subs r" "r_ioc (transition_to st info r) = r_ioc r"
  by (simp_all add: transition_to_def post_state_callback_def post_log_def post_task_def upd_metrics_def Let_def
      split: option.split)

lemma transition_history:
  "r_state r \<noteq> st \<Longrightarrow> r_history (transition_to st info r) = r_history r @ [(r_state r, st)]"
  by (simp add: transition_to_def post_state_callback_def post_log_def post_task_def upd_metrics_def Let_def
      split: option.split)

lemma heartbeat_frame [simp]:
  "r_state (start_heartbeat c r) = r_state r" "r_active_subs (start_heartbeat c r) = r_active_subs r"
  "r_inflight (start_heartbeat c r) = r_inflight r" "r_history (start_heartbeat c r) = r_history r"
  "r_robot_info (start_heartbeat c r) = r_robot_info r"
  by (simp_all add: start_heartbeat_def upd_heartbeat_def Let_def)

lemma liveness_frame [simp]:
  "r_state (reset_liveness_on_inbound r) = r_state r" "r_active_subs (reset_liveness_on_inbound r) = r_active_subs r"
  "r_inflight (reset_liveness_on_inbound r) = r_inflight r" "r_history (reset_liveness_on_inbound r) = r_history r"
  by (simp_all add: reset_liveness_on_inbound_def upd_heartbeat_def Let_def)

text \<open>The endpoint the robot builds from accepted options always splits into the host and the fixed port.\<close>

lemma accepted_endpoint:
  "validate_opts opts = None \<Longrightarrow> split_endpoint (wc_endpoint (ws_config_of opts)) = Inr (co_host opts, ''4434'')"
  using rfind_append [of "CHR '':''" "''4434''" "co_host opts"]
  by (simp add: ws_config_of_def split_endpoint_def)

lemma ws_client_new_cfg: "ws_client_new ssl cfg = Inr w \<Longrightarrow> ws_cfg w = cfg"
  using ws_client_new_initial [of ssl cfg w]
  by (auto simp: ws_client_new_def ws_initial_def Let_def split: sum.splits option.splits if_splits prod.splits)

lemma connect_round:
  assumes start: "robot_start c r0" and w: "ws_client_new (cx_ssl c) (ws_config_of (cx_opts c)) = Inr w"
    and up: "cx_connect c 0 = Some None" "cx_open c 0" and enc: "encode_handshake c 1 = Inr b"
  shows "\<exists>r1. loop_round c stack (post_event EvConnect r0) = Some (Inr r1) \<and> r_state r1 = CsConnecting
    \<and> r_wire r1 = [(0, WsPost b)] \<and> \<not> r_loop_done r1 \<and> r_ioc r1 = [] \<and> r_active_subs r1 = []
    \<and> r_history r1 = [(CsIdle, CsConnecting)]
    \<and> (\<exists>rpc. r_inflight r1 = [(1, rpc)] \<and> ir_on_complete rpc = CHandshake False)"
proof -
  obtain env now epoch where r0: "r0 = (robot_new (cx_opts c) env now epoch)\<lparr>r_work_guard := True\<rparr>"
    and v: "validate_opts (cx_opts c) = None"
    using start by (auto simp: robot_start_def robot_create_def split: option.splits)
  obtain w' where w': "ws_connect (Some None) w = Inr w'"
    using accepted_endpoint [OF v] ws_client_new_cfg [OF w] by (simp add: ws_connect_def)
  define r1 where "r1 = transition_to CsConnecting (change_info ''Connect()'' EcOk [] 0 0 []) r0"
  have r1: "r_state r1 = CsConnecting" "r_wire r1 = []" "\<not> r_loop_done r1" "r_looks r1 = 0"
    "r_next_request_id r1 = 1" "r_inflight r1 = []" "r_active_subs r1 = []" "r_ioc r1 = []"
    "r_history r1 = [(CsIdle, CsConnecting)]" "r_next_conn r1 = 0"
    by (simp_all add: r1_def r0 robot_new_def state_transition transition_history)
  have "loop_round c stack (post_event EvConnect r0) = Some (connect_ws c (call_on_complete c stack) False r1)"
    by (simp add: loop_round_def post_event_def handle_event_def establish_connection_def r0 robot_new_def r1_def)
  then show ?thesis
    using w w' up enc r1
    by (simp add: connect_ws_def send_handshake_def Let_def next_request_id_def upd_metrics_def put_inflight_def
        send_or_fail_def ws_post_call_def count_bytes_sent_def)
qed

text \<open>
  C14. A robot that can connect becomes \<open>Ready\<close>: on \<open>Connect\<close> the new robot opens one WebSocket to the
  host of its options and posts one handshake request on it, and when the server accepts the handshake the
  robot is \<open>Ready\<close>, knows the robot it talks to, and has nothing left in flight.
\<close>

theorem connect_reaches_ready:
  assumes "robot_start c r0" "ws_client_new (cx_ssl c) (ws_config_of (cx_opts c)) = Inr w"
    "cx_connect c 0 = Some None" "cx_open c 0" "encode_handshake c 1 = Inr b"
    "parse_response (cx_pb c) answer = Some resp" "rp_request_id resp = 1" "rp_success resp"
    "rp_payload resp = PayHandshake hs"
  shows "\<exists>r1 r2. loop_round c (Suc stack) (post_event EvConnect r0) = Some (Inr r1)
    \<and> r_state r1 = CsConnecting \<and> r_wire r1 = [(0, WsPost b)]
    \<and> loop_round c (Suc stack) (post_event (EvInbound answer) r1) = Some (Inr r2)
    \<and> r_state r2 = CsReady \<and> r_inflight r2 = [] \<and> map_option ri_sn (r_robot_info r2) = Some (hr_robot_sn hs)
    \<and> r_history r2 = [(CsIdle, CsConnecting), (CsConnecting, CsReady)]"
proof -
  obtain r1 rpc where r1: "loop_round c (Suc stack) (post_event EvConnect r0) = Some (Inr r1)"
    "r_state r1 = CsConnecting" "r_wire r1 = [(0, WsPost b)]" "\<not> r_loop_done r1" "r_ioc r1 = []"
    "r_active_subs r1 = []" "r_history r1 = [(CsIdle, CsConnecting)]"
    "r_inflight r1 = [(1, rpc)]" "ir_on_complete rpc = CHandshake False"
    using connect_round [OF assms(1-3,4,5)] by blast
  obtain d where d: "decode_response (cx_pb c) answer decoded_response_default = Some d"
    "dr_request_id d = 1" "dr_success d" "dr_has_handshake d" "\<not> dr_has_subscribe d" "dr_robot_sn d = hr_robot_sn hs"
    using assms(6-9) by (simp add: decode_response_def Let_def)
  define ra where "ra = reset_liveness_on_inbound (upd_metrics
    (\<lambda>m. m\<lparr>mt_bytes_received := mt_bytes_received m + of_nat (length answer)\<rparr>) (r1\<lparr>r_ioc := []\<rparr>))"
  have ra: "r_state ra = CsConnecting" "r_active_subs ra = []" "r_history ra = [(CsIdle, CsConnecting)]"
    "r_inflight ra = [(1, rpc)]"
    using r1 by (simp_all add: ra_def upd_metrics_def)
  have "loop_round c (Suc stack) (post_event (EvInbound answer) r1)
      = Some (complete_handshake c (call_on_complete c stack) False d EcOk (erase_inflight 1 ra))"
    using r1(4,5) d ra(4) r1(9)
    by (simp add: loop_round_def post_event_def handle_event_def on_inbound_message_def classify_inbound_def
        is_response_def Let_def ra_def handle_sdk_response_def on_complete_body_def)
  moreover have "\<exists>r2. complete_handshake c (call_on_complete c stack) False d EcOk (erase_inflight 1 ra) = Inr r2
      \<and> r_state r2 = CsReady \<and> r_inflight r2 = [] \<and> map_option ri_sn (r_robot_info r2) = Some (hr_robot_sn hs)
      \<and> r_history r2 = [(CsIdle, CsConnecting), (CsConnecting, CsReady)]"
    using d ra by (simp add: complete_handshake_def Let_def erase_inflight_def state_transition transition_history
        robot_info_of_response_def)
  ultimately show ?thesis using r1(1-3) by auto
qed

theorem connect_reaches_ready_witness:
  "\<exists>r1 r2. loop_round sample_ctx 1 (post_event EvConnect sample_start) = Some (Inr r1)
     \<and> r_wire r1 = [(0, WsPost [1])] \<and> loop_round sample_ctx 1 (post_event (EvInbound [1, 0]) r1) = Some (Inr r2)
     \<and> r_state r2 = CsReady"
proof -
  have v: "validate_opts sample_opts = None"
    by (simp add: validate_opts_def sample_opts_def connect_options_default_def)
  have start: "robot_start sample_ctx sample_start"
    unfolding robot_start_def using v by (auto simp: robot_create_def sample_ctx_def sample_start_def)
  have ws: "\<exists>w. ws_client_new (cx_ssl sample_ctx) (ws_config_of (cx_opts sample_ctx)) = Inr w"
    by (simp add: sample_ctx_def ws_client_new_def)
  have enc: "encode_handshake sample_ctx 1 = Inr [1]"
    by (simp add: encode_handshake_def sample_ctx_def sample_opts_def connect_options_default_def
        encode_handshake_token_def serialize_or_throw_def sample_pb_def Let_def)
  have parse: "parse_response (cx_pb sample_ctx) [1, 0] = Some (sample_reply 1 True 0 (PayHandshake sample_handshake))"
    by (simp add: sample_ctx_def sample_pb_def)
  obtain w where "ws_client_new (cx_ssl sample_ctx) (ws_config_of (cx_opts sample_ctx)) = Inr w" using ws by blast
  from connect_reaches_ready [OF start this _ _ enc parse, where hs = sample_handshake and stack = 0] show ?thesis
    by (auto simp: sample_ctx_def sample_reply_def)
qed

end
