(* ===== verification/SubsLife.thy ===== *)
theory SubsLife
  imports SubsFacts
begin

text \<open>
  The life of a subscription: every slot of a reachable robot is well formed, the maps and the queue
  agree on which slots are alive, and a closed slot stays closed and reports nothing more.
  \<open>hushed N\<close> is the invariant; \<open>N\<close> fixes what the slots it names, all of them closed, have reported.
\<close>

section \<open>What a slot has reported\<close>

fun about :: "nat \<Rightarrow> task \<Rightarrow> bool" where
  "about i (TaskStatus j _) = (j = i)"
| "about i (TaskData j _) = (j = i)"
| "about i _ = False"

type_synonym reports = "task list \<times> (nat \<times> decoded_topic_push) list"

definition reports :: "nat \<Rightarrow> robot \<Rightarrow> reports" where
  "reports i r = (filter (about i) (accepted (r_dispatcher r)), filter (\<lambda>p. fst p = i) (r_inline_calls r))"

lemma reports_post_task: "\<not> about i t \<Longrightarrow> reports i (post_task t r) = reports i r"
  by (simp add: reports_def post_task_def disp_post_def)

text \<open>All of the robot that the life of a subscription depends on.\<close>

record subs_view =
  v_slots :: "nat \<Rightarrow> slot"
  v_active :: "(string \<times> nat) list"
  v_queued :: "nat list"
  v_next :: nat
  v_reports :: "nat \<Rightarrow> reports"

definition subs_view :: "robot \<Rightarrow> subs_view" where
  "subs_view r =
    \<lparr>v_slots = r_slots r, v_active = r_active_subs r, v_queued = queued_subs (r_ioc r),
     v_next = r_next_slot r, v_reports = (\<lambda>i. reports i r)\<rparr>"

lemma subs_view_simps [simp]:
  "v_slots (subs_view r) = r_slots r" "v_active (subs_view r) = r_active_subs r"
  "v_queued (subs_view r) = queued_subs (r_ioc r)" "v_next (subs_view r) = r_next_slot r"
  "v_reports (subs_view r) = (\<lambda>i. reports i r)"
  by (simp_all add: subs_view_def)

lemma view_upd [simp]:
  "subs_view (r\<lparr>r_state := st\<rparr>) = subs_view r"
  "subs_view (r\<lparr>r_work_guard := b\<rparr>) = subs_view r"
  "subs_view (r\<lparr>r_loop_done := b\<rparr>) = subs_view r"
  "subs_view (r\<lparr>r_shutdown_requested := b\<rparr>) = subs_view r"
  "subs_view (r\<lparr>r_log_sink := l\<rparr>) = subs_view r"
  "subs_view (r\<lparr>r_state_handler := h\<rparr>) = subs_view r"
  "subs_view (r\<lparr>r_ws := w\<rparr>) = subs_view r"
  "subs_view (r\<lparr>r_next_conn := n\<rparr>) = subs_view r"
  "subs_view (r\<lparr>r_robot_info := ri\<rparr>) = subs_view r"
  "subs_view (r\<lparr>r_next_request_id := k\<rparr>) = subs_view r"
  "subs_view (r\<lparr>r_requests := n\<rparr>) = subs_view r"
  "subs_view (r\<lparr>r_inflight := ps\<rparr>) = subs_view r"
  "subs_view (r\<lparr>r_inflight_sub := isub\<rparr>) = subs_view r"
  "subs_view (r\<lparr>r_sub_ack_timers := sts\<rparr>) = subs_view r"
  "subs_view (r\<lparr>r_heartbeat := hb\<rparr>) = subs_view r"
  "subs_view (r\<lparr>r_idle_timer := t\<rparr>) = subs_view r"
  "subs_view (r\<lparr>r_ping_timer := t\<rparr>) = subs_view r"
  "subs_view (r\<lparr>r_reconnect_attempt := a\<rparr>) = subs_view r"
  "subs_view (r\<lparr>r_reconnect_total := k\<rparr>) = subs_view r"
  "subs_view (r\<lparr>r_reconnect_timer := rt\<rparr>) = subs_view r"
  "subs_view (r\<lparr>r_estop_engaged := b\<rparr>) = subs_view r"
  "subs_view (r\<lparr>r_estop_reason := msg\<rparr>) = subs_view r"
  "subs_view (r\<lparr>r_subs_pending := k\<rparr>) = subs_view r"
  "subs_view (r\<lparr>r_estop_pending := b\<rparr>) = subs_view r"
  "subs_view (r\<lparr>r_failure_code := e\<rparr>) = subs_view r"
  "subs_view (r\<lparr>r_failure_message := msg\<rparr>) = subs_view r"
  "subs_view (r\<lparr>r_cmdvel_limiter := tb\<rparr>) = subs_view r"
  "subs_view (r\<lparr>r_cmdvel_seq := k\<rparr>) = subs_view r"
  "subs_view (r\<lparr>r_metrics := mt\<rparr>) = subs_view r"
  "subs_view (r\<lparr>r_next_promise := n\<rparr>) = subs_view r"
  "subs_view (r\<lparr>r_answers := as\<rparr>) = subs_view r"
  "subs_view (r\<lparr>r_wire := wire\<rparr>) = subs_view r"
  "subs_view (r\<lparr>r_stderr := lines\<rparr>) = subs_view r"
  "subs_view (r\<lparr>r_history := hist\<rparr>) = subs_view r"
  "subs_view (r\<lparr>r_looks := n\<rparr>) = subs_view r"
  "subs_view (r\<lparr>r_draws := n\<rparr>) = subs_view r"
  "subs_view (r\<lparr>r_now := now\<rparr>) = subs_view r"
  "subs_view (r\<lparr>r_epoch_ms := now\<rparr>) = subs_view r"
  by (simp_all add: subs_view_def reports_def)

lemma view_worker: "worker_round (r_dispatcher r) = Some d \<Longrightarrow> subs_view (r\<lparr>r_dispatcher := d\<rparr>) = subs_view r"
  by (auto simp: subs_view_def reports_def worker_round_def split: if_splits list.splits)

lemma view_post_task: "\<forall>i. \<not> about i t \<Longrightarrow> subs_view (post_task t r) = subs_view r"
  by (simp add: subs_view_def reports_post_task) (simp add: post_task_def)

lemma view_post_event: "\<forall>i. e \<noteq> EvSubscribe i \<Longrightarrow> subs_view (post_event e r) = subs_view r"
  by (cases e) (simp_all add: subs_view_def post_event_def reports_def)

lemma view_quiet [simp]:
  "subs_view (upd_metrics f r) = subs_view r"
  "subs_view (upd_heartbeat h r) = subs_view r"
  "subs_view (count_bytes_sent b r) = subs_view r"
  "subs_view (post_state_callback s1 s2 info r) = subs_view r"
  "subs_view (post_log lvl msg r) = subs_view r"
  "subs_view (ws_close_reset r) = subs_view r"
  "subs_view (put_inflight rid rpc r) = subs_view r"
  "subs_view (erase_inflight rid r) = subs_view r"
  "subs_view (record_rtt rtt r) = subs_view r"
  "subs_view (upd_cmdvel_stat g r) = subs_view r"
  "subs_view (upd_estop_stat g r) = subs_view r"
  "subs_view (start_heartbeat c r) = subs_view r"
  "subs_view (reset_liveness_on_inbound r) = subs_view r"
  by (simp_all add: upd_metrics_def upd_heartbeat_def count_bytes_sent_def post_state_callback_def
      post_log_def ws_close_reset_def view_post_task put_inflight_def erase_inflight_def record_rtt_def
      upd_cmdvel_stat_def upd_estop_stat_def start_heartbeat_def reset_liveness_on_inbound_def Let_def
      split: option.split)

lemma view_transition [simp]: "subs_view (transition_to st info r) = subs_view r"
proof -
  have "subs_view (r\<lparr>r_state := st, r_history := h\<rparr>) = subs_view r" for h by (simp add: subs_view_def reports_def)
  then show ?thesis by (simp add: transition_to_def Let_def)
qed

lemma view_looks [simp]:
  "subs_view (snd (ws_post_call c n b r)) = subs_view r"
  "subs_view (snd (send_or_fail c b r)) = subs_view r"
  "subs_view (snd (ws_is_open c r)) = subs_view r"
  "subs_view (snd (next_backoff c attempt r)) = subs_view r"
  "subs_view (snd (next_request_id r)) = subs_view r"
  "subs_view (snd (new_promise r)) = subs_view r"
  by (auto simp: ws_post_call_def send_or_fail_def ws_is_open_def next_backoff_def next_request_id_def
      new_promise_def Let_def split: option.split)

lemma view_looksD:
  "send_or_fail c b r = (ok, r') \<Longrightarrow> subs_view r' = subs_view r"
  "ws_is_open c r = (ok, r') \<Longrightarrow> subs_view r' = subs_view r"
  "next_backoff c attempt r = (d, r') \<Longrightarrow> subs_view r' = subs_view r"
  "next_request_id r = (rid, r') \<Longrightarrow> subs_view r' = subs_view r"
  "new_promise r = (p, r') \<Longrightarrow> subs_view r' = subs_view r"
  using view_looks by (metis snd_conv)+

lemma view_set_value: "set_value p a r = Inr r' \<Longrightarrow> subs_view r' = subs_view r"
  by (auto simp: set_value_def split: if_splits)

lemma view_reconnect_sub_done [simp]: "subs_view (reconnect_sub_done r) = subs_view r"
  by (simp add: reconnect_sub_done_def Let_def)

section \<open>The invariant\<close>

definition slot_ok :: "slot \<Rightarrow> bool" where
  "slot_ok s \<longleftrightarrow> length (sl_hz_buckets s) = 60 \<and> sl_queue_size s \<noteq> 0
     \<and> length (sl_pending_buffer s) \<le> unat (sl_queue_size s)
     \<and> (sl_state s = SubActive \<or> sl_state s = SubPaused \<longrightarrow> sl_pending_buffer s = [])"

text \<open>The slots the robot still acts for: those of the map, and those whose handler is in the queue.\<close>

definition alive :: "robot \<Rightarrow> nat \<Rightarrow> bool" where
  "alive r i \<longleftrightarrow> i \<in> snd ` set (r_active_subs r) \<or> i \<in> set (queued_subs (r_ioc r))"

definition subs_alive :: "robot \<Rightarrow> bool" where
  "subs_alive r \<longleftrightarrow> (\<forall>i. alive r i \<longrightarrow> i < r_next_slot r \<and> sl_state (r_slots r i) \<noteq> SubClosed)
     \<and> distinct (queued_subs (r_ioc r))
     \<and> (\<forall>p\<in>set (r_active_subs r). sl_topic (r_slots r (snd p)) = fst p
          \<and> snd p \<notin> set (queued_subs (r_ioc r)))"

definition hushed :: "(nat \<times> reports) set \<Rightarrow> robot \<Rightarrow> bool" where
  "hushed N r \<longleftrightarrow> (\<forall>i<r_next_slot r. slot_ok (r_slots r i)) \<and> subs_alive r
     \<and> (\<forall>p\<in>N. fst p < r_next_slot r \<and> sl_state (r_slots r (fst p)) = SubClosed
          \<and> reports (fst p) r = snd p)"

lemma hushed_cong: "subs_view r' = subs_view r \<Longrightarrow> hushed N r' = hushed N r"
proof -
  assume v: "subs_view r' = subs_view r"
  have "r_slots r' = r_slots r \<and> r_active_subs r' = r_active_subs r
      \<and> queued_subs (r_ioc r') = queued_subs (r_ioc r) \<and> r_next_slot r' = r_next_slot r
      \<and> (\<lambda>i. reports i r') = (\<lambda>i. reports i r)"
    using v by (simp add: subs_view_def)
  then show ?thesis by (simp add: hushed_def subs_alive_def alive_def fun_eq_iff)
qed

lemma view_eqD:
  assumes "subs_view r' = subs_view r"
  shows "r_slots r' = r_slots r" "r_active_subs r' = r_active_subs r"
    "queued_subs (r_ioc r') = queued_subs (r_ioc r)" "r_next_slot r' = r_next_slot r"
    "reports i r' = reports i r"
  using assms by (simp_all add: subs_view_def fun_eq_iff)

text \<open>An operation that works on one slot, and may take its topic out of the map.\<close>

definition only :: "nat \<Rightarrow> robot \<Rightarrow> robot \<Rightarrow> bool" where
  "only i r r' \<longleftrightarrow> queued_subs (r_ioc r') = queued_subs (r_ioc r) \<and> r_next_slot r' = r_next_slot r
     \<and> (\<forall>j. j \<noteq> i \<longrightarrow> r_slots r' j = r_slots r j \<and> reports j r' = reports j r)
     \<and> sl_topic (r_slots r' i) = sl_topic (r_slots r i)"

lemma only_view: "subs_view r' = subs_view r \<Longrightarrow> only i r r'"
  using view_eqD [of r' r] unfolding only_def by metis

lemma only_trans: "only i r1 r2 \<Longrightarrow> only i r2 r3 \<Longrightarrow> only i r1 r3"
  unfolding only_def by metis

lemma hushed_only:
  assumes h: "hushed N r" and o: "only i r r'" and i: "alive r i" "i \<notin> set (queued_subs (r_ioc r))"
    and s: "slot_ok (r_slots r' i)" "sl_state (r_slots r' i) \<noteq> SubClosed \<or> i \<notin> snd ` set (r_active_subs r')"
    and act: "set (r_active_subs r') \<subseteq> set (r_active_subs r)"
  shows "hushed N r'"
proof -
  have same: "\<And>j. j \<noteq> i \<Longrightarrow> r_slots r' j = r_slots r j \<and> reports j r' = reports j r"
    and q: "queued_subs (r_ioc r') = queued_subs (r_ioc r)" "r_next_slot r' = r_next_slot r"
      "sl_topic (r_slots r' i) = sl_topic (r_slots r i)"
    using o by (auto simp: only_def)
  have "\<forall>k<r_next_slot r'. slot_ok (r_slots r' k)" using h s(1) same q by (metis hushed_def)
  moreover have "subs_alive r'" unfolding subs_alive_def
  proof (intro conjI allI ballI impI)
    fix k assume k: "alive r' k"
    then have "alive r k" using act q by (auto simp: alive_def)
    then have "k < r_next_slot r" "sl_state (r_slots r k) \<noteq> SubClosed"
      using h by (auto simp: hushed_def subs_alive_def)
    moreover have "sl_state (r_slots r' i) \<noteq> SubClosed" if "k = i"
      using s(2) k i(2) q that by (auto simp: alive_def)
    ultimately show "k < r_next_slot r'" "sl_state (r_slots r' k) \<noteq> SubClosed"
      using same [of k] q by (cases "k = i"; simp)+
  next
    fix p assume p: "p \<in> set (r_active_subs r')"
    then have "p \<in> set (r_active_subs r)" using act by blast
    then show "sl_topic (r_slots r' (snd p)) = fst p" "snd p \<notin> set (queued_subs (r_ioc r'))"
      using h same q by (auto simp: hushed_def subs_alive_def) metis+
  qed (use h q in \<open>simp add: hushed_def subs_alive_def\<close>)
  moreover have "i \<notin> fst ` N" using h i(1) by (force simp: hushed_def subs_alive_def)
  ultimately show ?thesis using h same q unfolding hushed_def by (metis imageI)
qed

section \<open>Operations on one slot\<close>

lemma only_upd_slot: "(\<And>s. sl_topic (f s) = sl_topic s) \<Longrightarrow> only i r (upd_slot i f r)"
  by (simp add: only_def upd_slot_def reports_def)

lemma only_fire_status: "only i r (fire_status i k gap err reason r)"
  by (simp add: only_def fire_status_def reports_post_task) (simp add: post_task_def)

lemma slots_fire_status [simp]:
  "r_slots (fire_status i k gap err reason r) = r_slots r"
  "r_active_subs (fire_status i k gap err reason r) = r_active_subs r"
  "r_active_subs (upd_slot i f r) = r_active_subs r"
  by (simp_all add: fire_status_def post_task_def upd_slot_def)

definition steady :: "slot \<Rightarrow> slot \<Rightarrow> bool" where
  "steady s s' \<longleftrightarrow> sl_state s' = sl_state s \<and> sl_pending_buffer s' = sl_pending_buffer s
     \<and> sl_queue_size s' = sl_queue_size s \<and> length (sl_hz_buckets s') = length (sl_hz_buckets s)"

definition works :: "nat \<Rightarrow> robot \<Rightarrow> robot \<Rightarrow> bool" where
  "works i r r' \<longleftrightarrow> only i r r' \<and> r_active_subs r' = r_active_subs r \<and> steady (r_slots r i) (r_slots r' i)"

lemma works_trans: "works i r1 r2 \<Longrightarrow> works i r2 r3 \<Longrightarrow> works i r1 r3"
  using only_trans by (auto simp: works_def steady_def)

lemma works_view: "subs_view r' = subs_view r \<Longrightarrow> works i r r'"
  using only_view view_eqD(1,2) [of r' r] by (simp add: works_def steady_def)

lemma works_upd_slot:
  "(\<And>s. sl_topic (f s) = sl_topic s) \<Longrightarrow> (\<And>s. steady s (f s)) \<Longrightarrow> works i r (upd_slot i f r)"
  using only_upd_slot [of f] by (simp add: works_def)

lemma works_fire_status: "works i r (fire_status i k gap err reason r)"
  using only_fire_status by (simp add: works_def steady_def)

lemma hushed_works:
  assumes "hushed N r" "works i r r'" "i \<in> snd ` set (r_active_subs r)"
  shows "hushed N r'"
proof (rule hushed_only [OF assms(1)])
  have i: "i < r_next_slot r" "sl_state (r_slots r i) \<noteq> SubClosed" "i \<notin> set (queued_subs (r_ioc r))"
    using assms(1,3) by (auto simp: hushed_def subs_alive_def alive_def)
  then show "slot_ok (r_slots r' i)" "sl_state (r_slots r' i) \<noteq> SubClosed \<or> i \<notin> snd ` set (r_active_subs r')"
    using assms(1,2) by (auto simp: hushed_def works_def steady_def slot_ok_def)
  show "alive r i" "i \<notin> set (queued_subs (r_ioc r))" using assms(3) i(3) by (simp_all add: alive_def)
qed (use assms(2) in \<open>auto simp: works_def\<close>)

lemma length_clear_buckets [simp]: "length (clear_buckets k gap bs) = length bs"
proof -
  have "length (fold (\<lambda>i b. b[nat ((k + i) mod 60) := 0]) xs bs) = length bs" for xs
    by (induction xs arbitrary: bs) simp_all
  then show ?thesis by (simp add: clear_buckets_def)
qed

lemma steady_hz:
  "steady s (slide_slot e s)" "steady s (bump_bucket k s)"
  "sl_topic (slide_slot e s) = sl_topic s" "sl_topic (bump_bucket k s) = sl_topic s"
  by (simp_all add: slide_slot_def bump_bucket_def steady_def Let_def)

lemma works_slide: "works i r (snd (slide_hz_buckets i r))"
  by (simp add: slide_hz_buckets_def works_upd_slot steady_hz)

lemma works_hand_over: "works i r (hand_over i push r)"
proof -
  define r1 where "r1 = upd_slot i (\<lambda>s. s\<lparr>sl_messages_received := sl_messages_received s + 1,
    sl_last_message_at := Some (r_now r)\<rparr>) r"
  define r3 where "r3 = upd_slot i (bump_bucket (fst (slide_hz_buckets i r1))) (snd (slide_hz_buckets i r1))"
  have "works i r r1" unfolding r1_def by (rule works_upd_slot) (simp_all add: steady_def)
  moreover have "works i (snd (slide_hz_buckets i r1)) r3"
    unfolding r3_def by (rule works_upd_slot) (simp_all add: steady_hz)
  ultimately have "works i r r3" using works_slide works_trans by blast
  moreover have "works i r3 (post_task (TaskData i push) r3)"
    "works i r3 (r3\<lparr>r_inline_calls := r_inline_calls r3 @ [(i, push)]\<rparr>)"
    by (simp_all add: works_def only_def steady_def reports_post_task) (simp_all add: post_task_def reports_def)
  ultimately show ?thesis
    using works_trans by (simp add: hand_over_def Let_def case_prod_beta r1_def r3_def)
qed

lemma works_store: "works i r (upd_slot i (\<lambda>s. s\<lparr>sl_last_seq := k\<rparr>) r)"
  by (rule works_upd_slot) (simp_all add: steady_def)

lemma works_drop_one: "works i r (drop_one i r)"
  unfolding drop_one_def by (rule works_upd_slot) (simp_all add: steady_def)

lemma works_deliver: "works i r (deliver_push i push r)"
proof -
  have "works i r (hand_over i push (post_log lvl msg r))" for lvl msg
    using works_trans [OF works_view [OF view_quiet(5)] works_hand_over] .
  moreover have "works i r (hand_over i push (upd_slot i (\<lambda>s. s\<lparr>sl_last_seq := k\<rparr>) r))" for k
    using works_trans [OF works_store works_hand_over] .
  moreover have "works i r (hand_over i push (fire_status i kd gap err reason (upd_slot i (\<lambda>s. s\<lparr>sl_last_seq := k\<rparr>) r)))"
    for kd gap err reason k
    using works_trans [OF works_trans [OF works_store works_fire_status] works_hand_over] .
  ultimately show ?thesis
    unfolding deliver_push_def Let_def by (simp add: works_hand_over works_view)
qed

lemma hushed_buffer:
  assumes "hushed N r" "i \<in> snd ` set (r_active_subs r)" "sl_state (r_slots r i) = SubPending"
  shows "hushed N (buffer_push i push r)"
proof (rule hushed_only [OF assms(1)])
  have i: "i < r_next_slot r" "i \<notin> set (queued_subs (r_ioc r))"
    using assms(1,2) by (auto simp: hushed_def subs_alive_def alive_def)
  have ok: "slot_ok (r_slots r i)" using assms(1) i(1) by (simp add: hushed_def)
  have pos: "0 < unat (sl_queue_size (r_slots r i))" using ok by (simp add: slot_ok_def unat_gt_0)
  show "slot_ok (r_slots (buffer_push i push r) i)"
    using ok pos assms(3) by (auto simp: buffer_push_def slot_ok_def Let_def drop_one_def upd_slot_def)
  show "alive r i" "i \<notin> set (queued_subs (r_ioc r))" using assms(2) i(2) by (simp_all add: alive_def)
  show "only i r (buffer_push i push r)"
    by (auto simp: buffer_push_def only_def Let_def drop_one_def upd_slot_def reports_def)
qed (use assms(3) in \<open>auto simp: buffer_push_def Let_def drop_one_def upd_slot_def\<close>)

lemma active_of: "map_of (r_active_subs r) topic = Some i \<Longrightarrow> i \<in> snd ` set (r_active_subs r)"
  using map_of_SomeD by force

lemma hushed_push:
  assumes "hushed N r"
  shows "hushed N (handle_sdk_topic_push push r)"
proof (cases "map_of (r_active_subs r) (push_topic push)")
  case None
  then show ?thesis using assms by (simp add: handle_sdk_topic_push_def hushed_cong [OF view_quiet(5)])
next
  case (Some i)
  note i = active_of [OF Some]
  show ?thesis
    using Some assms hushed_buffer [OF assms i] hushed_works [OF assms works_drop_one i]
      hushed_works [OF assms works_deliver i]
    by (cases "sl_state (r_slots r i)") (simp_all add: handle_sdk_topic_push_def)
qed

section \<open>Losing the connection and giving up\<close>

lemma safe_set_value: "hushed N r \<Longrightarrow> safe (hushed N) (set_value p a r)"
  using hushed_cong view_set_value unfolding safe_def by blast

text \<open>A slot that is out of the map and out of the queue may change as it likes.\<close>

lemma hushed_dead:
  assumes h: "hushed N r" and o: "only i r r'" and i: "\<not> alive r i" "i \<notin> fst ` N"
    and s: "slot_ok (r_slots r' i)" and act: "r_active_subs r' = r_active_subs r"
  shows "hushed N r'"
proof -
  have same: "\<And>j. j \<noteq> i \<Longrightarrow> r_slots r' j = r_slots r j \<and> reports j r' = reports j r"
    and q: "queued_subs (r_ioc r') = queued_subs (r_ioc r)" "r_next_slot r' = r_next_slot r"
    using o by (auto simp: only_def)
  have "\<forall>k<r_next_slot r'. slot_ok (r_slots r' k)" using h s same q by (metis hushed_def)
  moreover have "alive r' = alive r" using act q by (auto simp: alive_def)
  moreover have "subs_alive r'" unfolding subs_alive_def
  proof (intro conjI allI ballI impI)
    fix k assume "alive r' k"
    then have "k \<noteq> i" "alive r k" using i(1) \<open>alive r' = alive r\<close> by auto
    then show "k < r_next_slot r'" "sl_state (r_slots r' k) \<noteq> SubClosed"
      using h same q by (auto simp: hushed_def subs_alive_def)
  next
    fix p assume p: "p \<in> set (r_active_subs r')"
    then have "snd p \<noteq> i" using i(1) act by (auto simp: alive_def)
    then show "sl_topic (r_slots r' (snd p)) = fst p" "snd p \<notin> set (queued_subs (r_ioc r'))"
      using p h same q act by (auto simp: hushed_def subs_alive_def)
  qed (use h q in \<open>simp add: hushed_def subs_alive_def\<close>)
  ultimately show ?thesis using h same q i(2) unfolding hushed_def by (metis imageI)
qed

lemma close_slot_simps:
  "only i r (close_slot code reason i r)"
  "r_active_subs (close_slot code reason i r) = r_active_subs r"
  "slot_ok (r_slots r i) \<Longrightarrow> slot_ok (r_slots (close_slot code reason i r) i)"
  "close_slot code reason i (r\<lparr>r_active_subs := act\<rparr>) = (close_slot code reason i r)\<lparr>r_active_subs := act\<rparr>"
proof -
  show "only i r (close_slot code reason i r)"
    unfolding close_slot_def Let_def
    by (simp add: only_upd_slot only_trans [OF only_trans [OF only_upd_slot only_upd_slot] only_fire_status])
qed (auto simp: close_slot_def Let_def fire_status_def post_task_def upd_slot_def slot_ok_def)

lemma hushed_close_fold:
  assumes "hushed N r" "r_active_subs r = []"
    "\<forall>p\<in>set ps. snd p < r_next_slot r \<and> snd p \<notin> set (queued_subs (r_ioc r)) \<and> snd p \<notin> fst ` N"
  shows "hushed N (fold (\<lambda>(topic, i). close_slot code reason i) ps r)"
  using assms
proof (induction ps arbitrary: r)
  case (Cons p ps)
  obtain topic i where p: "p = (topic, i)" by (cases p)
  let ?r = "close_slot code reason i r"
  have o: "only i r ?r" and act: "r_active_subs ?r = r_active_subs r" by (simp_all add: close_slot_simps)
  have "slot_ok (r_slots r i)" using Cons.prems(1,3) p by (simp add: hushed_def)
  then have "hushed N ?r"
    using Cons.prems p act by (intro hushed_dead [OF Cons.prems(1) o]) (auto simp: alive_def close_slot_simps)
  then show ?case using Cons.IH [of ?r] Cons.prems(2,3) p act o by (simp add: only_def)
qed simp

lemma fold_close_active:
  "fold (\<lambda>(topic, i). close_slot code reason i) ps (r\<lparr>r_active_subs := act\<rparr>)
    = (fold (\<lambda>(topic, i). close_slot code reason i) ps r)\<lparr>r_active_subs := act\<rparr>"
  by (induction ps arbitrary: r) (auto simp: close_slot_simps(4))

lemma hushed_fewer: "hushed N r \<Longrightarrow> set act \<subseteq> set (r_active_subs r) \<Longrightarrow> hushed N (r\<lparr>r_active_subs := act\<rparr>)"
  by (auto simp: hushed_def subs_alive_def alive_def reports_def)

lemma named_not_alive: "hushed N r \<Longrightarrow> i \<in> fst ` N \<Longrightarrow> \<not> alive r i"
  by (auto simp: hushed_def subs_alive_def)

lemma hushed_close_all:
  assumes "hushed N r"
  shows "hushed N ((fold (\<lambda>(topic, i). close_slot code reason i) (r_active_subs r) r)\<lparr>r_active_subs := []\<rparr>)"
proof -
  have "\<forall>p\<in>set (r_active_subs r). snd p < r_next_slot r \<and> snd p \<notin> set (queued_subs (r_ioc r)) \<and> snd p \<notin> fst ` N"
  proof
    fix p assume p: "p \<in> set (r_active_subs r)"
    then have "alive r (snd p)" by (auto simp: alive_def)
    then show "snd p < r_next_slot r \<and> snd p \<notin> set (queued_subs (r_ioc r)) \<and> snd p \<notin> fst ` N"
      using assms p named_not_alive [OF assms] by (auto simp: hushed_def subs_alive_def)
  qed
  then show ?thesis
    using hushed_close_fold [OF hushed_fewer [OF assms, of "[]"], of "r_active_subs r"]
    by (simp add: fold_close_active)
qed

lemma hushed_pause_slot:
  assumes "hushed N r" "i \<in> snd ` set (r_active_subs r)"
  shows "hushed N (pause_slot code msg i r)" "r_active_subs (pause_slot code msg i r) = r_active_subs r"
proof -
  show act: "r_active_subs (pause_slot code msg i r) = r_active_subs r"
    by (simp add: pause_slot_def Let_def)
  have o: "only i r (pause_slot code msg i r)"
    unfolding pause_slot_def Let_def
    by (simp add: only_trans [OF only_upd_slot only_upd_slot]
        only_trans [OF only_trans [OF only_upd_slot only_fire_status] only_upd_slot])
  have i: "i < r_next_slot r" "i \<notin> set (queued_subs (r_ioc r))" "alive r i"
    using assms by (auto simp: hushed_def subs_alive_def alive_def)
  then have "slot_ok (r_slots r i)" using assms(1) by (simp add: hushed_def)
  then have "slot_ok (r_slots (pause_slot code msg i r) i)"
    "sl_state (r_slots (pause_slot code msg i r) i) \<noteq> SubClosed"
    by (auto simp: pause_slot_def Let_def upd_slot_def slot_ok_def fire_status_def post_task_def)
  then show "hushed N (pause_slot code msg i r)"
    using i act by (intro hushed_only [OF assms(1) o]) simp_all
qed

lemma hushed_pause_all:
  assumes "hushed N r"
  shows "hushed N (pause_all_subs code msg r)" "r_active_subs (pause_all_subs code msg r) = r_active_subs r"
proof -
  have "hushed N (fold (\<lambda>(topic, i). pause_slot code msg i) ps r)
      \<and> r_active_subs (fold (\<lambda>(topic, i). pause_slot code msg i) ps r) = r_active_subs r"
    if "hushed N r" "set ps \<subseteq> set (r_active_subs r)" for ps r
    using that
  proof (induction ps arbitrary: r)
    case (Cons p ps)
    obtain topic i where p: "p = (topic, i)" by (cases p)
    then have "i \<in> snd ` set (r_active_subs r)" using Cons.prems(2) by force
    from hushed_pause_slot [OF Cons.prems(1) this, of code msg] show ?case
      using Cons.IH [of "pause_slot code msg i r"] Cons.prems(2) p by simp
  qed simp
  then show "hushed N (pause_all_subs code msg r)" "r_active_subs (pause_all_subs code msg r) = r_active_subs r"
    unfolding pause_all_subs_def using assms by blast+
qed

lemmas view_all = view_upd view_quiet view_transition view_looks view_reconnect_sub_done
lemmas hushed_quiet [simp] = view_all [THEN hushed_cong]
lemmas active_quiet [simp] =
  view_quiet [THEN view_eqD(2)] view_transition [THEN view_eqD(2)] view_looks [THEN view_eqD(2)]
lemmas hushed_looksD = view_looksD [THEN hushed_cong]
lemmas active_looksD = view_looksD [THEN view_eqD(2)]

definition kept :: "robot \<Rightarrow> robot \<Rightarrow> bool" where
  "kept r r' \<longleftrightarrow> r_active_subs r' = r_active_subs r \<or> r_active_subs r' = []"

lemma kept_simps [simp]:
  "kept r r" "r_active_subs r' = [] \<Longrightarrow> kept r r'" "r_active_subs r' = r_active_subs r \<Longrightarrow> kept r r'"
  by (simp_all add: kept_def)

lemma kept_trans: "kept r1 r2 \<Longrightarrow> kept r2 r3 \<Longrightarrow> kept r1 r3"
  by (auto simp: kept_def)

text \<open>What a call of a lambda, or of the cluster, does: an error never adds a subscription.\<close>

definition holds :: "(nat \<times> reports) set \<Rightarrow> bool \<Rightarrow> robot \<Rightarrow> robot outcome \<Rightarrow> bool" where
  "holds N failed r m \<longleftrightarrow> safe (\<lambda>r'. hushed N r' \<and> (failed \<longrightarrow> kept r r')) m"

definition calm :: "(nat \<times> reports) set \<Rightarrow> on_complete_fn \<Rightarrow> bool" where
  "calm N oc \<longleftrightarrow> (\<forall>lam resp err r. hushed N r \<longrightarrow> holds N (err \<noteq> EcOk) r (oc lam resp err r))"

lemma holds_simps [simp]: "holds N b r (Inr r') \<longleftrightarrow> hushed N r' \<and> (b \<longrightarrow> kept r r')" "holds N b r (Inl x)"
  by (simp_all add: holds_def)

lemma holds_obind:
  "holds N b r m \<Longrightarrow> (\<And>r1. hushed N r1 \<Longrightarrow> b \<longrightarrow> kept r r1 \<Longrightarrow> holds N b r (f r1)) \<Longrightarrow> holds N b r (obind m f)"
  unfolding holds_def by (erule safe_obind) auto

lemma holds_from: "holds N b r1 m \<Longrightarrow> b \<longrightarrow> kept r r1 \<Longrightarrow> holds N b r m"
  unfolding holds_def by (erule safe_mono) (use kept_trans in blast)

lemma holds_safe: "holds N b r m \<Longrightarrow> safe (hushed N) m"
  unfolding holds_def by (erule safe_mono) simp

lemma holds_weak: "safe (hushed N) m \<Longrightarrow> holds N False r m"
  unfolding holds_def by (erule safe_mono) simp

lemma holds_set_value: "hushed N r \<Longrightarrow> holds N b r (set_value p a r)"
  by (auto simp: holds_def safe_def set_value_def split: if_splits)

lemma holds_complete_all:
  assumes "calm N oc" "hushed N r"
  shows "holds N (err \<noteq> EcOk) r (complete_all oc resp err ps r)"
  using assms(2)
proof (induction ps arbitrary: r)
  case (Cons p ps)
  obtain rid rpc where p: "p = (rid, rpc)" by (cases p)
  have one: "holds N (err \<noteq> EcOk) r (oc (ir_on_complete rpc) resp err r)"
    using assms(1) Cons.prems by (simp add: calm_def)
  have rest: "holds N (err \<noteq> EcOk) r (complete_all oc resp err ps r1)"
    if "hushed N r1" "err \<noteq> EcOk \<longrightarrow> kept r r1" for r1
    using holds_from [OF Cons.IH [OF that(1)] that(2)] .
  have "holds N (err \<noteq> EcOk) r (obind (oc (ir_on_complete rpc) resp err r)
      (\<lambda>r1. if map_of (r_inflight r1) rid = None then Inl IteratorInvalidated else complete_all oc resp err ps r1))"
    by (rule holds_obind [OF one]) (use rest in simp)
  then show ?case using Cons.IH [OF Cons.prems] by (simp add: p)
qed simp

lemma holds_abort:
  assumes "calm N oc" "hushed N r"
  shows "holds N (code \<noteq> EcOk) r (abort_to_fatal oc code msg r)"
proof -
  define r2 where "r2 = (fold (\<lambda>(topic, i). close_slot code (if msg = [] then ''Fatal'' else msg) i)
    (r_active_subs r) r)\<lparr>r_active_subs := []\<rparr>"
  have r2: "hushed N r2" unfolding r2_def by (rule hushed_close_all [OF assms(2)])
  have k: "kept r r2" by (simp add: r2_def)
  show ?thesis
    unfolding abort_to_fatal_def Let_def r2_def [symmetric]
    by (rule holds_obind [OF holds_from [OF holds_complete_all [OF assms(1) r2]]]) (use k in \<open>simp_all add: kept_def\<close>)
qed

lemma holds_do_reconnect:
  assumes "calm N oc" "hushed N r"
  shows "holds N True r (do_reconnect c oc attempt r)"
proof -
  obtain d r1 where b: "next_backoff c (attempt - 1) r = (d, r1)" by fastforce
  then have "hushed N r1" "r_active_subs r1 = r_active_subs r"
    using assms(2) hushed_looksD(3) active_looksD(3) by blast+
  then show ?thesis
    using assms(2) b holds_abort [OF assms, of EcTransportFailure] by (simp add: do_reconnect_def Let_def)
qed

lemma hushed_mark_lost [simp]:
  "hushed N (mark_lost c reason msg r) = hushed N r" "r_active_subs (mark_lost c reason msg r) = r_active_subs r"
  by (simp_all add: mark_lost_def Let_def case_prod_beta)

lemma holds_transport_close:
  assumes "calm N oc" "hushed N r"
  shows "holds N (reason \<noteq> EcOk) r (on_transport_close c oc reason msg r)"
proof -
  let ?r1 = "pause_all_subs reason msg r"
  have r1: "hushed N ?r1" "kept r ?r1" using hushed_pause_all [OF assms(2)] by (simp_all add: kept_def)
  have all: "holds N (reason \<noteq> EcOk) r (complete_all oc (fake_response reason msg) reason (r_inflight ?r1) ?r1)"
    using holds_from [OF holds_complete_all [OF assms(1) r1(1)]] r1(2) by blast
  have rest: "holds N (reason \<noteq> EcOk) r (do_reconnect c oc (r_reconnect_attempt (mark_lost c reason msg r2) + 1) (mark_lost c reason msg r2))"
    if "hushed N r2" "reason \<noteq> EcOk \<longrightarrow> kept r r2" for r2
  proof -
    have "hushed N (mark_lost c reason msg r2)" using that(1) by simp
    from holds_do_reconnect [OF assms(1) this] have
      "holds N (reason \<noteq> EcOk) (mark_lost c reason msg r2) (do_reconnect c oc
         (r_reconnect_attempt (mark_lost c reason msg r2) + 1) (mark_lost c reason msg r2))"
      unfolding holds_def by (rule safe_mono) auto
    then show ?thesis using holds_from that(2) by (fastforce simp: kept_def)
  qed
  show ?thesis
    unfolding on_transport_close_def Let_def using assms(2) holds_obind [OF all rest] by simp
qed

lemma holds_fail:
  assumes "calm N oc" "hushed N r"
  shows "holds N True r (fail_and_reconnect c oc what code msg reset r)"
proof -
  obtain d r1 where b: "next_backoff c (r_reconnect_attempt r) r = (d, r1)" by fastforce
  define r3 where "r3 = (let r2 = transition_to CsTransientFailure (change_info what code msg d 0 []) r1
    in if reset then ws_close_reset r2 else r2)"
  have "hushed N r3" "kept r r3"
    using assms(2) hushed_looksD(3) [OF b] active_looksD(3) [OF b] by (simp_all add: r3_def Let_def kept_def)
  then show ?thesis
    using holds_from [OF holds_do_reconnect [OF assms(1)]] b by (simp add: fail_and_reconnect_def r3_def Let_def)
qed

section \<open>Subscribing\<close>

lemma in_active:
  assumes "hushed N r" "i \<in> snd ` set (r_active_subs r)"
  shows "i < r_next_slot r" "i \<notin> set (queued_subs (r_ioc r))" "alive r i" "slot_ok (r_slots r i)"
    "sl_state (r_slots r i) \<noteq> SubClosed" "(sl_topic (r_slots r i), i) \<in> set (r_active_subs r)"
proof -
  show "i < r_next_slot r" "i \<notin> set (queued_subs (r_ioc r))" "alive r i" "sl_state (r_slots r i) \<noteq> SubClosed"
    using assms by (auto simp: hushed_def subs_alive_def alive_def)
  then show "slot_ok (r_slots r i)" using assms(1) by (simp add: hushed_def)
  show "(sl_topic (r_slots r i), i) \<in> set (r_active_subs r)"
    using assms by (force simp: hushed_def subs_alive_def)
qed

lemma erase_removes:
  assumes "hushed N r" "sl_topic (r_slots r i) = topic"
  shows "i \<notin> snd ` set (std_map_erase topic (r_active_subs r))"
  using assms by (auto simp: std_map_erase_def hushed_def subs_alive_def)

lemma erase_subset: "set (std_map_erase k m) \<subseteq> set m"
  by (auto simp: std_map_erase_def)

lemma hushed_close_and_drop:
  assumes "hushed N r" "i \<in> snd ` set (r_active_subs r)"
  shows "hushed N (close_and_drop i err reason r)"
    "r_active_subs (close_and_drop i err reason r) = std_map_erase (sl_topic (r_slots r i)) (r_active_subs r)"
proof -
  let ?r1 = "fire_status i StClosed None err reason
    (upd_slot i (\<lambda>s. s\<lparr>sl_state := SubClosed, sl_error_code := err\<rparr>) r)"
  have "only i r ?r1" by (rule only_trans [OF only_upd_slot only_fire_status]) simp
  then have o: "only i r (close_and_drop i err reason r)"
    by (simp add: close_and_drop_def Let_def only_def reports_def)
  show act: "r_active_subs (close_and_drop i err reason r) = std_map_erase (sl_topic (r_slots r i)) (r_active_subs r)"
    by (simp add: close_and_drop_def Let_def upd_slot_def)
  have "slot_ok (r_slots (close_and_drop i err reason r) i)"
    using in_active(4) [OF assms] by (simp add: close_and_drop_def Let_def upd_slot_def slot_ok_def)
  then show "hushed N (close_and_drop i err reason r)"
    using in_active(2,3) [OF assms] erase_removes [OF assms(1)] erase_subset
    by (intro hushed_only [OF assms(1) o]) (simp_all add: act)
qed

lemma hushed_upd_active:
  assumes "hushed N r" "i \<in> snd ` set (r_active_subs r)" "\<And>s. sl_topic (f s) = sl_topic s"
    "slot_ok (f (r_slots r i))" "sl_state (f (r_slots r i)) \<noteq> SubClosed"
  shows "hushed N (upd_slot i f r)"
  using in_active(2,3) [OF assms(1,2)] assms(4,5)
  by (intro hushed_only [OF assms(1) only_upd_slot [OF assms(3)]]) (simp_all add: upd_slot_def)

lemma hushed_register:
  assumes "hushed N r" "i \<in> snd ` set (r_active_subs r)"
  shows "hushed N (register_subscribe c rid i since r)"
    "r_active_subs (register_subscribe c rid i since r) = r_active_subs r"
proof -
  have "hushed N (upd_slot i (\<lambda>s. s\<lparr>sl_expected_resume_seq := since,
      sl_is_reconnect_resume := (sl_state s = SubPaused) \<or> (sl_ever_active s \<and> r_state r = CsReconnecting),
      sl_state := SubPending, sl_inflight_request := rid\<rparr>) r)"
    using in_active(4) [OF assms] by (intro hushed_upd_active [OF assms]) (simp_all add: slot_ok_def)
  then show "hushed N (register_subscribe c rid i since r)" by (simp add: register_subscribe_def Let_def)
qed (simp_all add: register_subscribe_def Let_def upd_slot_def)

lemma hushed_unregister:
  assumes "hushed N r" "i \<in> snd ` set (r_active_subs r)"
  shows "hushed N (unregister_subscribe rid i r)" "r_active_subs (unregister_subscribe rid i r) = r_active_subs r"
proof -
  let ?r = "r\<lparr>r_sub_ack_timers := AList.delete rid (r_sub_ack_timers r),
         r_inflight_sub := AList.delete rid (r_inflight_sub r)\<rparr>"
  have "hushed N ?r" "i \<in> snd ` set (r_active_subs ?r)" using assms by simp_all
  then show "hushed N (unregister_subscribe rid i r)"
    unfolding unregister_subscribe_def using in_active(4,5) [OF assms]
    by (intro hushed_upd_active) (simp_all add: slot_ok_def)
qed (simp add: unregister_subscribe_def)

definition sends :: "(nat \<times> reports) set \<Rightarrow> string \<Rightarrow> robot \<Rightarrow> robot outcome \<Rightarrow> bool" where
  "sends N topic r m \<longleftrightarrow> safe (\<lambda>r'. hushed N r'
     \<and> (r_active_subs r' = r_active_subs r \<or> map_of (r_active_subs r') topic = None)) m"

lemma sends_kept: "holds N True r m \<Longrightarrow> sends N topic r m"
  unfolding sends_def holds_def by (erule safe_mono) (auto simp: kept_def)

lemma sends_subscribe:
  assumes "calm N oc" "hushed N r" "i \<in> snd ` set (r_active_subs r)" "sl_topic (r_slots r i) = topic"
  shows "sends N topic r (send_subscribe c oc i since r)"
proof -
  obtain rid r1 where r1: "next_request_id r = (rid, r1)" by fastforce
  have h1: "hushed N r1" "r_active_subs r1 = r_active_subs r" "r_slots r1 = r_slots r"
    using assms(2) hushed_looksD(4) [OF r1] active_looksD(4) [OF r1] view_eqD(1) [OF view_looksD(4) [OF r1]] by simp_all
  have i1: "i \<in> snd ` set (r_active_subs r1)" using assms(3) h1 by simp
  define since' where "since' = effective_since (r_slots r1 i) since"
  show ?thesis
  proof (cases "encode_subscribe (cx_pb c) rid (sl_topic (r_slots r1 i)) (sl_desired_hz (r_slots r1 i)) since'
        (if since' > 0 then co_history_limit (cx_opts c) else 0)")
    case (Inl e)
    then show ?thesis
      using hushed_close_and_drop [OF h1(1) i1] assms(4) h1
      by (simp add: send_subscribe_def r1 Let_def since'_def sends_def map_of_std_map_erase)
  next
    case (Inr b)
    define ra where "ra = register_subscribe c rid i since' r1"
    have ra: "hushed N ra" "r_active_subs ra = r_active_subs r1"
      unfolding ra_def using hushed_register [OF h1(1) i1] by blast+
    obtain ok r2 where r2: "send_or_fail c b ra = (ok, r2)" by fastforce
    have h2: "hushed N r2" "r_active_subs r2 = r_active_subs r"
      using ra h1(2) hushed_looksD(1) [OF r2] active_looksD(1) [OF r2] by simp_all
    have "i \<in> snd ` set (r_active_subs r2)" using assms(3) h2 by simp
    note hu = hushed_unregister [OF h2(1) this, of rid]
    have "holds N True r (on_transport_close c oc EcTransportFailure msg (unregister_subscribe rid i r2))" for msg
      using holds_from [OF holds_transport_close [OF assms(1) hu(1), of EcTransportFailure]] hu(2) h2(2) by simp
    then have "sends N topic r (on_transport_close c oc EcTransportFailure msg (unregister_subscribe rid i r2))" for msg
      using sends_kept by blast
    then show ?thesis
      using Inr r2 h2 by (simp add: send_subscribe_def r1 Let_def since'_def ra_def sends_def)
  qed
qed

end
