(* ===== verification/SubsClaims.thy ===== *)
theory SubsClaims
  imports SubsLife Sample
begin

text \<open>
  The life of a subscription, continued: every handler of the control loop and every other step keeps
  the invariant of \<open>SubsLife\<close>, and what follows for the slots of a reachable robot.
\<close>

section \<open>Subscribing to all\<close>

lemma for_each_sends:
  assumes body: "\<And>topic i r. hushed N r \<Longrightarrow> (topic, i) \<in> set (r_active_subs r) \<Longrightarrow> sends N topic r (body i r)"
    and "hushed N r" "set ps \<subseteq> set (r_active_subs r)"
  shows "safe (hushed N) (for_each_sub body ps r)"
  using assms(2,3)
proof (induction ps arbitrary: r)
  case (Cons p ps)
  obtain topic i where p: "p = (topic, i)" by (cases p)
  have "sends N topic r (body i r)" using body [OF Cons.prems(1)] Cons.prems(2) p by simp
  then show ?case unfolding p for_each_sub.simps sends_def
  proof (rule safe_obind)
    fix r1 assume "hushed N r1 \<and> (r_active_subs r1 = r_active_subs r \<or> map_of (r_active_subs r1) topic = None)"
    then show "safe (hushed N) (if map_of (r_active_subs r1) topic = None then Inl IteratorInvalidated
        else for_each_sub body ps r1)"
      using Cons.IH [of r1] Cons.prems(2) by auto
  qed
qed simp

lemma entry_topic:
  assumes "hushed N r" "(topic, i) \<in> set (r_active_subs r)"
  shows "i \<in> snd ` set (r_active_subs r) \<and> sl_topic (r_slots r i) = topic"
proof -
  have "\<forall>p\<in>set (r_active_subs r). sl_topic (r_slots r (snd p)) = fst p"
    using assms(1) by (simp add: hushed_def subs_alive_def)
  from bspec [OF this assms(2)] show ?thesis using imageI [OF assms(2), of snd] by simp
qed

lemma sends_resubscribe:
  assumes "calm N oc" "hushed N r" "(topic, i) \<in> set (r_active_subs r)"
  shows "sends N topic r (resubscribe_one c oc i r)"
proof -
  have i: "i \<in> snd ` set (r_active_subs r)" "sl_topic (r_slots r i) = topic"
    using entry_topic [OF assms(2,3)] by blast+
  define r1 where "r1 = upd_slot i (\<lambda>s. s\<lparr>sl_fresh_retry_done := False\<rparr>) r"
  have "hushed N r1" unfolding r1_def
    using in_active(4,5) [OF assms(2) i(1)] by (intro hushed_upd_active [OF assms(2) i(1)]) (simp_all add: slot_ok_def)
  moreover have "r_active_subs r1 = r_active_subs r" "sl_topic (r_slots r1 i) = topic"
    using i(2) by (simp_all add: r1_def)
  ultimately show ?thesis
    using sends_subscribe [OF assms(1), of r1 i topic] i(1)
    by (simp add: resubscribe_one_def r1_def [symmetric] Let_def sends_def)
qed

lemma sends_pending:
  assumes "calm N oc" "hushed N r" "(topic, i) \<in> set (r_active_subs r)"
  shows "sends N topic r (subscribe_pending c oc i r)"
proof -
  have "i \<in> snd ` set (r_active_subs r)" "sl_topic (r_slots r i) = topic"
    using entry_topic [OF assms(2,3)] by blast+
  then show ?thesis
    using assms(2) sends_subscribe [OF assms(1,2)] by (simp add: subscribe_pending_def) (simp add: sends_def)
qed

lemma sends_safe: "sends N topic r m \<Longrightarrow> safe (hushed N) m"
  unfolding sends_def by (erule safe_mono) simp

section \<open>The lambdas of the calls in flight\<close>

lemma safe_transport_close:
  "calm N oc \<Longrightarrow> hushed N r \<Longrightarrow> safe (hushed N) (on_transport_close c oc reason msg r)"
  using holds_transport_close holds_safe by blast

lemma safe_abort: "calm N oc \<Longrightarrow> hushed N r \<Longrightarrow> safe (hushed N) (abort_to_fatal oc code msg r)"
  using holds_abort holds_safe by blast

lemma safe_fail: "calm N oc \<Longrightarrow> hushed N r \<Longrightarrow> safe (hushed N) (fail_and_reconnect c oc what code msg reset r)"
  using holds_fail holds_safe by blast

lemma safe_do_estop_replay:
  assumes "calm N oc" "hushed N r"
  shows "safe (hushed N) (do_estop_replay c oc r)"
proof -
  have send: "hushed N (snd (send_or_fail c b r1)) = hushed N r1" for b r1 by simp
  show ?thesis
    using assms(2) by (auto simp: do_estop_replay_def Let_def case_prod_beta next_request_id_def
        intro!: safe_transport_close [OF assms(1)] split: sum.split)
qed

lemma safe_resume_session:
  assumes "calm N oc" "hushed N r"
  shows "safe (hushed N) (resume_session c oc r)"
proof -
  define r1 where "r1 = r\<lparr>r_subs_pending := of_nat (length (r_active_subs r)),
    r_estop_pending := r_estop_engaged r, r_failure_code := EcOk\<rparr>"
  have "hushed N r1" using assms(2) by (simp add: r1_def)
  then have "safe (hushed N) (resubscribe_all c oc r1)"
    unfolding resubscribe_all_def by (intro for_each_sends sends_resubscribe [OF assms(1)]) simp_all
  then have "safe (hushed N) (obind (resubscribe_all c oc r1)
      (\<lambda>r2. if r_estop_pending r2 then do_estop_replay c oc r2 else Inr r2))"
    by (rule safe_obind) (simp add: safe_do_estop_replay [OF assms(1)])
  then show ?thesis using \<open>hushed N r1\<close> by (simp add: resume_session_def r1_def [symmetric] Let_def)
qed

lemma safe_complete_handshake:
  assumes "calm N oc" "hushed N r"
  shows "safe (hushed N) (complete_handshake c oc b resp err r)"
proof -
  have "safe (hushed N) (for_each_sub (subscribe_pending c oc) ps r2)" if "hushed N r2" "r_active_subs r2 = ps" for r2 ps
    by (rule for_each_sends) (use that sends_pending [OF assms(1)] in simp_all)
  then show ?thesis
    using assms(2) by (simp add: complete_handshake_def Let_def safe_abort [OF assms(1)] safe_fail [OF assms(1)]
        safe_resume_session [OF assms(1)])
qed

lemma safe_complete_unsubscribe:
  assumes "hushed N r"
  shows "safe (hushed N) (complete_unsubscribe topic p resp err r)"
proof (cases "map_of (r_active_subs r) topic")
  case None
  then show ?thesis using assms safe_set_value by (simp add: complete_unsubscribe_def)
next
  case (Some i)
  define code where "code = (if dr_success resp then EcOk else dr_sdk_code resp)"
  have t: "sl_topic (r_slots r i) = topic"
    using entry_topic [OF assms map_of_SomeD [OF Some]] by blast
  have "close_and_drop i code (dr_message resp) r
      = (let ra = fire_status i StClosed None code (dr_message resp)
               (upd_slot i (\<lambda>s. s\<lparr>sl_state := SubClosed, sl_error_code := code\<rparr>) r)
         in ra\<lparr>r_active_subs := std_map_erase topic (r_active_subs ra)\<rparr>)"
    using t by (simp add: close_and_drop_def Let_def upd_slot_def)
  then have "complete_unsubscribe topic p resp err r =
      (if err \<noteq> EcOk then set_value p (AnsUnsubscribe err) r
       else set_value p (AnsUnsubscribe code) (close_and_drop i code (dr_message resp) r))"
    using Some by (simp add: complete_unsubscribe_def code_def Let_def)
  then show ?thesis
    using safe_set_value assms hushed_close_and_drop(1) [OF assms active_of [OF Some]] by simp
qed

lemma calm_body:
  assumes "calm N oc"
  shows "calm N (on_complete_body c oc)"
  unfolding calm_def
proof (intro allI impI)
  fix lam resp err r assume h: "hushed N r"
  have answer: "holds N b r (set_value p a r1)" if "hushed N r1" "r_active_subs r1 = r_active_subs r" for p a r1 b
    using holds_from [OF holds_set_value [OF that(1)]] that(2) by simp
  show "holds N (err \<noteq> EcOk) r (on_complete_body c oc lam resp err r)"
  proof (cases lam)
    case (CHandshake b)
    then have body: "on_complete_body c oc lam resp err r = complete_handshake c oc b resp err r"
      by (simp add: on_complete_body_def)
    show ?thesis
    proof (cases "err = EcOk")
      case True
      have "holds N False r (complete_handshake c oc b resp err r)"
        by (rule holds_weak [OF safe_complete_handshake [OF assms h]])
      then show ?thesis unfolding body using True by simp
    qed (use h in \<open>simp add: body complete_handshake_def\<close>)
  next
    case CEStopReplay
    have r: "hushed N (r\<lparr>r_estop_pending := False\<rparr>)" using h by simp
    have "holds N (err \<noteq> EcOk) r (on_transport_close c oc err ''estop replay failed'' (r\<lparr>r_estop_pending := False\<rparr>))"
      by (rule holds_from [OF holds_transport_close [OF assms r]]) simp
    then show ?thesis
      using h CEStopReplay
      by (cases "err = EcOk") (simp_all add: on_complete_body_def complete_estop_replay_def Let_def
          holds_weak safe_transport_close [OF assms r])
  next
    case (CUnsubscribe topic p)
    then have body: "on_complete_body c oc lam resp err r = complete_unsubscribe topic p resp err r"
      by (simp add: on_complete_body_def)
    show ?thesis
    proof (cases "err = EcOk")
      case True
      have "holds N False r (complete_unsubscribe topic p resp err r)"
        by (rule holds_weak [OF safe_complete_unsubscribe [OF h]])
      then show ?thesis unfolding body using True by simp
    qed (use answer [OF h] in \<open>simp add: body complete_unsubscribe_def\<close>)
  qed (use h in \<open>auto simp: on_complete_body_def complete_cmd_vel_def complete_estop_def Let_def
        upd_cmdvel_stat_def upd_estop_stat_def record_rtt_def upd_metrics_def intro!: answer\<close>)
qed

lemma calm_on_complete: "calm N (call_on_complete c depth)"
  by (induction depth) (simp_all add: calm_body, simp add: calm_def)

section \<open>The handlers of the control loop\<close>

lemma drain_result:
  "only i r (drain_frames i k ps r) \<and> r_active_subs (drain_frames i k ps r) = r_active_subs r
   \<and> (let s = r_slots r i; s' = r_slots (drain_frames i k ps r) i
      in sl_state s' = sl_state s \<and> sl_queue_size s' = sl_queue_size s
         \<and> length (sl_hz_buckets s') = length (sl_hz_buckets s)
         \<and> (ps \<noteq> [] \<longrightarrow> sl_pending_buffer s' = []) \<and> (ps = [] \<longrightarrow> s' = s))"
proof (induction ps arbitrary: r)
  case (Cons p ps)
  define r1 where "r1 = upd_slot i (\<lambda>s. s\<lparr>sl_pending_buffer := ps\<rparr>) r"
  define r2 where "r2 = (if sl_semantics (r_slots r1 i) = Event \<and> k > 0 \<and> push_seq p \<noteq> 0 \<and> push_seq p < k
    then drop_one i r1 else deliver_push i p r1)"
  have o1: "only i r r1" unfolding r1_def by (rule only_upd_slot) simp
  have w: "works i r1 r2" using works_drop_one works_deliver by (simp add: r2_def)
  then have "only i r r2" using only_trans [OF o1] by (simp add: works_def)
  moreover have "drain_frames i k (p # ps) r = drain_frames i k ps r2"
    by (simp add: r1_def r2_def Let_def)
  moreover have "r_active_subs r2 = r_active_subs r" using w by (simp add: works_def r1_def)
  moreover have "sl_state (r_slots r2 i) = sl_state (r_slots r i)" "sl_queue_size (r_slots r2 i) = sl_queue_size (r_slots r i)"
    "length (sl_hz_buckets (r_slots r2 i)) = length (sl_hz_buckets (r_slots r i))" "sl_pending_buffer (r_slots r2 i) = ps"
    using w by (simp_all add: works_def steady_def r1_def)
  ultimately show ?case using Cons.IH [of r2] only_trans by (cases "ps = []") (auto simp: Let_def)
qed (simp add: only_def)

lemma hushed_activate:
  assumes "hushed N r" "i \<in> snd ` set (r_active_subs r)"
  shows "hushed N (activate i kind gap new_last next_seq r)"
proof -
  define r2 where "r2 = fire_status i kind gap EcOk []
    (upd_slot i (\<lambda>s. s\<lparr>sl_last_seq := new_last, sl_state := SubActive\<rparr>) r)"
  define r3 where "r3 = drain_frames i next_seq (sl_pending_buffer (r_slots r2 i)) r2"
  define r4 where "r4 = upd_slot i (\<lambda>s. s\<lparr>sl_ever_active := True, sl_is_reconnect_resume := False\<rparr>) r3"
  have o: "only i r r2" unfolding r2_def by (rule only_trans [OF only_upd_slot only_fire_status]) simp
  note d = drain_result [of i r2 next_seq "sl_pending_buffer (r_slots r2 i)", folded r3_def, unfolded Let_def]
  have "only i r r4"
    using only_trans [OF only_trans [OF o] only_upd_slot] d by (simp add: r4_def)
  moreover have "r_active_subs r4 = r_active_subs r" using d by (simp add: r4_def r2_def)
  moreover have "sl_state (r_slots r4 i) = SubActive" "slot_ok (r_slots r4 i)"
    using d in_active(4) [OF assms] by (auto simp: r4_def r2_def upd_slot_def slot_ok_def)
  ultimately have "hushed N r4"
    using in_active(2,3) [OF assms] by (intro hushed_only [OF assms(1)]) auto
  then show ?thesis by (simp add: activate_def drain_pending_buffer_def Let_def r2_def r3_def r4_def)
qed

lemma safe_subscribe_ack:
  assumes "calm N oc" "hushed N r"
  shows "safe (hushed N) (handle_subscribe_ack c oc resp r)"
proof -
  define rid where "rid = dr_request_id resp"
  define r1 where "r1 = r\<lparr>r_inflight_sub := AList.delete rid (r_inflight_sub r),
    r_sub_ack_timers := AList.delete rid (r_sub_ack_timers r)\<rparr>"
  have h1: "hushed N r1" using assms(2) by (simp add: r1_def)
  have each: "safe (hushed N) (ack_failed c oc i resp r2)" "hushed N (ack_telemetry i resp r2)"
    "safe (hushed N) (ack_event c oc i resp r2)" if "hushed N r2" "i \<in> snd ` set (r_active_subs r2)" for i r2
  proof -
    note drop = hushed_close_and_drop(1) [OF that]
    show "safe (hushed N) (ack_failed c oc i resp r2)"
      using drop that(1) by (simp add: ack_failed_def safe_abort [OF assms(1)] safe_transport_close [OF assms(1)]
          split: error_category.split)
    show "hushed N (ack_telemetry i resp r2)"
      using drop hushed_activate [OF that] by (simp add: ack_telemetry_def)
    define r3 where "r3 = upd_slot i (\<lambda>s. s\<lparr>sl_last_seq := 0, sl_fresh_retry_done := True\<rparr>) r2"
    have "hushed N r3" unfolding r3_def
      using in_active(4,5) [OF that] by (intro hushed_upd_active [OF that]) (simp_all add: slot_ok_def)
    moreover have "i \<in> snd ` set (r_active_subs r3)" using that(2) by (simp add: r3_def)
    ultimately have "safe (hushed N) (send_subscribe c oc i 0 r3)"
      using sends_safe [OF sends_subscribe [OF assms(1)]] by blast
    then show "safe (hushed N) (ack_event c oc i resp r2)"
      using drop hushed_activate [OF that] by (simp add: ack_event_def Let_def case_prod_beta r3_def)
  qed
  have upd: "hushed N (upd_slot i (\<lambda>s. s\<lparr>sl_inflight_request := 0\<rparr>) r1)"
    if "i \<in> snd ` set (r_active_subs r1)" for i
    using in_active(4,5) [OF h1 that] by (intro hushed_upd_active [OF h1 that]) (simp_all add: slot_ok_def)
  show ?thesis
  proof (cases "map_of (r_inflight_sub r) rid")
    case None
    then show ?thesis using assms(2) by (simp add: handle_subscribe_ack_def rid_def Let_def)
  next
    case (Some topic)
    show ?thesis
    proof (cases "map_of (r_active_subs r1) topic")
      case None
      then show ?thesis using Some h1 by (simp add: handle_subscribe_ack_def rid_def [symmetric] r1_def [symmetric] Let_def)
    next
      case (Some i)
      note i = active_of [OF Some]
      have "i \<in> snd ` set (r_active_subs (upd_slot i (\<lambda>s. s\<lparr>sl_inflight_request := 0\<rparr>) r1))" using i by simp
      note e = each [OF upd [OF i] this]
      show ?thesis
        using \<open>map_of (r_inflight_sub r) rid = Some topic\<close> Some h1 e
        by (simp add: handle_subscribe_ack_def rid_def [symmetric] r1_def [symmetric] Let_def)
    qed
  qed
qed

lemma safe_sub_ack_timeout:
  "calm N oc \<Longrightarrow> hushed N r \<Longrightarrow> safe (hushed N) (on_sub_ack_timeout c oc i rid r)"
  by (simp add: on_sub_ack_timeout_def safe_transport_close)

lemma hushed_unsub_async:
  assumes "hushed N r"
  shows "hushed N (handle_unsub_async c topic r)"
proof (cases "map_of (r_active_subs r) topic")
  case (Some i)
  note i = active_of [OF Some]
  obtain can r1 where r1: "(if r_state r = CsReady then ws_is_open c r else (False, r)) = (can, r1)" by fastforce
  then have v1: "subs_view r1 = subs_view r" using view_looksD(2) by (auto split: if_splits)
  define r2 where "r2 = (if can \<and> \<not> sl_unsubscribe_sent (r_slots r1 i)
     then let (rid, r1a) = next_request_id r1
          in case encode_unsubscribe (cx_pb c) rid topic of
               Inl e \<Rightarrow> r1a
             | Inr b \<Rightarrow>
                 let r1b = count_bytes_sent b r1a;
                     r1c = (case r_ws r1b of None \<Rightarrow> r1b | Some n \<Rightarrow> snd (ws_post_call c n b r1b))
                 in upd_slot i (\<lambda>s. s\<lparr>sl_unsubscribe_sent := True\<rparr>) r1c
     else r1)"
  have up: "works i r' (upd_slot i (\<lambda>s. s\<lparr>sl_unsubscribe_sent := True\<rparr>) r')" for r'
    by (rule works_upd_slot) (simp_all add: steady_def)
  have sent: "works i r1 (upd_slot i (\<lambda>s. s\<lparr>sl_unsubscribe_sent := True\<rparr>) r')" if "subs_view r' = subs_view r1" for r'
    using works_trans [OF works_view [OF that] up] .
  have "works i r1 r2" unfolding r2_def
    by (auto simp: Let_def case_prod_beta works_view split: sum.split option.split intro!: sent)
  then have w: "works i r r2" using works_trans [OF works_view [OF v1]] by blast
  define r4 where "r4 = (let r3 = upd_slot i (\<lambda>s. s\<lparr>sl_state := SubClosed\<rparr>) r2
    in if sl_state (r_slots r2 i) \<noteq> SubClosed then fire_status i StClosed None EcOk ''Unsubscribe()'' r3 else r3)"
  have o: "only i r2 r4" unfolding r4_def Let_def
    by (simp add: only_upd_slot only_trans [OF only_upd_slot only_fire_status])
  define r5 where "r5 = r4\<lparr>r_active_subs := std_map_erase topic (r_active_subs r4)\<rparr>"
  have act: "r_active_subs r4 = r_active_subs r" using w by (simp add: r4_def works_def Let_def)
  have "only i r r5" using only_trans [OF _ o] w by (simp add: r5_def works_def) (simp add: only_def reports_def)
  moreover have "slot_ok (r_slots r5 i)"
    using in_active(4) [OF assms i] w by (auto simp: r5_def r4_def Let_def upd_slot_def slot_ok_def works_def steady_def)
  moreover have "i \<notin> snd ` set (r_active_subs r5)"
    using erase_removes [OF assms conjunct2 [OF entry_topic [OF assms map_of_SomeD [OF Some]]]] by (simp add: r5_def act)
  ultimately have "hushed N r5"
    using in_active(2,3) [OF assms i] erase_subset [of topic "r_active_subs r"]
    by (intro hushed_only [OF assms]) (auto simp: r5_def act)
  then show ?thesis
    using Some r1 by (cases "sl_state (r_slots r2 i) = SubClosed")
      (simp_all add: handle_unsub_async_def r2_def [symmetric] r4_def r5_def Let_def)
qed (use assms in \<open>simp add: handle_unsub_async_def\<close>)

lemma safe_unsub_sync:
  assumes "hushed N r"
  shows "safe (hushed N) (handle_unsub_sync c topic p r)"
proof (cases "map_of (r_active_subs r) topic")
  case (Some i)
  obtain up r1 where r1: "(if r_state r \<noteq> CsReady then (False, r) else ws_is_open c r) = (up, r1)" by fastforce
  then have v1: "subs_view r1 = subs_view r" using view_looksD(2) by (auto split: if_splits)
  then have h1: "hushed N r1" "r_active_subs r1 = r_active_subs r" using assms hushed_cong view_eqD(2) by blast+
  have i: "i \<in> snd ` set (r_active_subs r1)" using active_of [OF Some] h1(2) by simp
  have t: "sl_topic (r_slots r1 i) = topic"
    using entry_topic [OF h1(1)] map_of_SomeD [OF Some] h1(2) by auto
  have sent: "hushed N (upd_slot i (\<lambda>s. s\<lparr>sl_unsubscribe_sent := True\<rparr>) r')" if "subs_view r' = subs_view r1" for r'
    using in_active(4,5) [OF h1(1) i] hushed_cong [OF that] view_eqD [OF that] i h1(1)
    by (intro hushed_upd_active) (simp_all add: slot_ok_def)
  have "close_and_drop i EcDisconnected ''Unsubscribe() while disconnected'' r1
      = (let r2 = fire_status i StClosed None EcDisconnected ''Unsubscribe() while disconnected''
               (upd_slot i (\<lambda>s. s\<lparr>sl_state := SubClosed, sl_error_code := EcDisconnected\<rparr>) r1)
         in r2\<lparr>r_active_subs := std_map_erase topic (r_active_subs r2)\<rparr>)"
    using t by (simp add: close_and_drop_def Let_def upd_slot_def)
  then have "handle_unsub_sync c topic p r = (if \<not> up
      then set_value p (AnsUnsubscribe EcDisconnected) (close_and_drop i EcDisconnected ''Unsubscribe() while disconnected'' r1)
      else handle_unsub_sync c topic p r)"
    using Some r1 by (simp add: handle_unsub_sync_def Let_def)
  moreover have "safe (hushed N) (handle_unsub_sync c topic p r)" if "up"
  proof -
    obtain rid r2 where r2: "next_request_id r1 = (rid, r2)" by fastforce
    have v2: "subs_view r2 = subs_view r1" using view_looksD(4) [OF r2] .
    then have h2: "hushed N r2" using h1 hushed_cong by blast
    have fin: "subs_view (snd (send_or_fail c b (r2\<lparr>r_inflight := ps\<rparr>))) = subs_view r1" for b ps
      using v2 by simp
    show ?thesis
      using Some r1 r2 that h2 sent [OF fin]
      by (auto simp: handle_unsub_sync_def Let_def case_prod_beta intro!: safe_obind [OF safe_set_value] safe_set_value
          split: sum.split)
  qed
  ultimately show ?thesis
    using safe_set_value [OF hushed_close_and_drop(1) [OF h1(1) i]] by (cases up) simp_all
qed (use assms in \<open>simp add: handle_unsub_sync_def safe_set_value\<close>)

text \<open>The oldest handler is taken off the queue; a subscription whose turn it is, is in no list then.\<close>

lemma hushed_pop:
  assumes "hushed N r" "r_ioc r = e # es"
  shows "hushed N (r\<lparr>r_ioc := es\<rparr>)"
    "e = EvSubscribe i \<Longrightarrow> i < r_next_slot r \<and> sl_state (r_slots r i) \<noteq> SubClosed
       \<and> \<not> alive (r\<lparr>r_ioc := es\<rparr>) i"
  using assms by (auto simp: hushed_def subs_alive_def alive_def reports_def split: event.splits)

lemma put_entry: "(k, v) \<in> set (std_map_put k v m)"
  by (induction m) (auto simp: std_map_put.simps)

lemma hushed_put:
  assumes h: "hushed N r" and i: "i < r_next_slot r" "sl_state (r_slots r i) \<noteq> SubClosed" "\<not> alive r i"
  shows "hushed N (r\<lparr>r_active_subs := std_map_put (sl_topic (r_slots r i)) i (r_active_subs r)\<rparr>)" (is "hushed N ?r")
proof -
  have act: "p = (sl_topic (r_slots r i), i) \<or> p \<in> set (r_active_subs r)" if "p \<in> set (r_active_subs ?r)" for p
    using that set_std_map_put [of "sl_topic (r_slots r i)" i "r_active_subs r"] by auto
  have "k < r_next_slot ?r \<and> sl_state (r_slots ?r k) \<noteq> SubClosed" if k: "alive ?r k" for k
  proof (cases "k = i")
    case False
    then have "alive r k" using k act by (force simp: alive_def)
    then show ?thesis using h by (simp add: hushed_def subs_alive_def)
  qed (use i in simp)
  moreover have "sl_topic (r_slots ?r (snd p)) = fst p \<and> snd p \<notin> set (queued_subs (r_ioc ?r))"
    if "p \<in> set (r_active_subs ?r)" for p
    using act [OF that] h i(3) by (auto simp: hushed_def subs_alive_def alive_def)
  moreover have "distinct (queued_subs (r_ioc ?r))" using h by (simp add: hushed_def subs_alive_def)
  ultimately have "subs_alive ?r" unfolding subs_alive_def by blast
  then show ?thesis using h unfolding hushed_def by (simp add: reports_def)
qed

lemma safe_handle_subscribe:
  assumes "calm N oc" "hushed N r" "i < r_next_slot r" "sl_state (r_slots r i) \<noteq> SubClosed" "\<not> alive r i"
  shows "safe (hushed N) (handle_subscribe c oc i r)"
proof -
  have ok: "slot_ok (r_slots r i)" using assms(2,3) by (simp add: hushed_def)
  have n: "i \<notin> fst ` N" using assms(2,4) by (force simp: hushed_def)
  have user: "hushed N (upd_slot i (\<lambda>s. s\<lparr>sl_state := SubClosed\<rparr>) r)"
    using ok by (intro hushed_dead [OF assms(2) only_upd_slot assms(5) n]) (simp_all add: upd_slot_def slot_ok_def)
  have twice: "hushed N (fire_status i StClosed None EcTopicAlreadySubscribed ''already subscribed''
      (upd_slot i (\<lambda>s. s\<lparr>sl_state := SubClosed, sl_error_code := EcTopicAlreadySubscribed\<rparr>) r))"
    using ok by (intro hushed_dead [OF assms(2) only_trans [OF only_upd_slot only_fire_status] assms(5) n])
      (simp_all add: upd_slot_def slot_ok_def)
  define r1 where "r1 = r\<lparr>r_active_subs := std_map_put (sl_topic (r_slots r i)) i (r_active_subs r)\<rparr>"
  have "hushed N r1" unfolding r1_def by (rule hushed_put [OF assms(2-5)])
  moreover have "i \<in> snd ` set (r_active_subs r1)"
    using put_entry [of "sl_topic (r_slots r i)" i "r_active_subs r"] imageI [of _ _ snd] by (fastforce simp: r1_def)
  ultimately have "safe (hushed N) (send_subscribe c oc i 0 r1)"
    using sends_safe [OF sends_subscribe [OF assms(1)]] by blast
  then show ?thesis
    using user twice \<open>hushed N r1\<close> by (simp add: handle_subscribe_def Let_def r1_def)
qed

lemma safe_register_call:
  assumes "hushed N r" "\<And>r. hushed N (on_error r) = hushed N r" "\<And>r. hushed N (sent r) = hushed N r"
  shows "safe (hushed N) (register_call c mname enq deadline lam encode failed on_error sent p r)"
proof -
  have answer: "safe (hushed N) (obind (set_value q a r1) (\<lambda>r3. Inr (on_error r3)))" if "hushed N r1" for q a r1
    by (rule safe_obind [OF safe_set_value [OF that]]) (simp add: assms(2))
  have "hushed N (snd (next_request_id r))" using assms(1) by simp
  then show ?thesis
    using assms(1) by (auto simp: register_call_def Let_def case_prod_beta assms(3) intro!: answer safe_set_value
        split: sum.split)
qed

lemma safe_calls:
  assumes "hushed N r"
  shows "safe (hushed N) (handle_cmd_vel c vx vy wz sq t0 p r)" "safe (hushed N) (handle_estop c engage reason t0 p r)"
    "safe (hushed N) (handle_invoke c mname deadline enc p r)" "safe (hushed N) (handle_ping c t0 p r)"
  unfolding handle_cmd_vel_def handle_estop_def handle_invoke_def handle_ping_def
  by (rule safe_register_call [OF assms]; simp)+

lemma safe_connect:
  assumes "calm N oc" "hushed N r"
  shows "safe (hushed N) (establish_connection c oc b r)" "safe (hushed N) (on_reconnect_timer c oc attempt r)"
proof -
  have hs: "safe (hushed N) (send_handshake c oc b r)" if "hushed N r" for b r
  proof -
    have "hushed N (snd (next_request_id r))" using that by simp
    then show ?thesis
      by (auto simp: send_handshake_def Let_def case_prod_beta intro!: safe_abort [OF assms(1)] safe_fail [OF assms(1)]
          split: sum.split)
  qed
  have ws: "safe (hushed N) (connect_ws c oc b r)" if "hushed N r" for b r
    using that by (auto simp: connect_ws_def Let_def intro!: safe_abort [OF assms(1)] safe_fail [OF assms(1)] hs
        split: sum.split)
  have est: "safe (hushed N) (establish_connection c oc b r)" if "hushed N r" for b r
    using that by (simp add: establish_connection_def ws)
  show "safe (hushed N) (establish_connection c oc b r)" by (rule est [OF assms(2)])
  show "safe (hushed N) (on_reconnect_timer c oc attempt r)" using assms(2) by (simp add: on_reconnect_timer_def est)
qed

lemma safe_close:
  assumes "calm N oc" "hushed N r"
  shows "safe (hushed N) (handle_close c oc r)"
proof -
  have rest: "hushed N ((fold (\<lambda>(topic, i). close_slot EcCancelled ''Robot::Close()'' i) (r_active_subs r3)
      (r3\<lparr>r_inflight := []\<rparr>))\<lparr>r_active_subs := []\<rparr>)" if "hushed N r3" for r3
    using hushed_close_all [of N "r3\<lparr>r_inflight := []\<rparr>"] that by simp
  have "safe (hushed N) (complete_all oc resp EcCancelled ps r2)" if "hushed N r2" for resp ps r2
    using holds_safe [OF holds_complete_all [OF assms(1) that]] .
  then show ?thesis
    unfolding handle_close_def Let_def using assms(2) rest
    by (intro safe_obind [where P = "hushed N"]) simp_all
qed

lemma safe_timers:
  assumes "calm N oc" "hushed N r"
  shows "safe (hushed N) (on_idle_timer c oc r)" "safe (hushed N) (on_ping_deadline c oc r)"
    "safe (hushed N) (on_rpc_timeout c oc rid r)"
proof -
  have ping: "hushed N (snd (send_heartbeat_ping c k lam r)) = hushed N r" for k lam r
    by (simp add: send_heartbeat_ping_def Let_def split: sum.split)
  show "safe (hushed N) (on_idle_timer c oc r)" "safe (hushed N) (on_ping_deadline c oc r)"
    using assms(2) by (simp_all add: on_idle_timer_def on_ping_deadline_def Let_def case_prod_beta ping
        safe_transport_close [OF assms(1)])
  have oc: "safe (hushed N) (oc lam resp err r1)" if "hushed N r1" for lam resp err r1
    using assms(1) that holds_safe unfolding calm_def by blast
  have answer: "safe (hushed N) (obind (set_value p a r1) (\<lambda>r2. Inr (g r2)))"
    if "hushed N r1" "\<And>r. hushed N (g r) = hushed N r" for p a r1 g
    by (rule safe_obind [OF safe_set_value [OF that(1)]]) (simp add: that(2))
  show "safe (hushed N) (on_rpc_timeout c oc rid r)"
    using assms(2) by (auto simp: on_rpc_timeout_def Let_def intro!: safe_obind [OF oc] safe_transport_close [OF assms(1)]
        safe_set_value answer split: option.split completion.split)
qed

lemma hushed_stats: "hushed N r \<Longrightarrow> set ps \<subseteq> set (r_active_subs r) \<Longrightarrow> hushed N (snd (subscription_stats ps r))"
proof (induction ps arbitrary: r)
  case (Cons p ps)
  obtain topic i where p: "p = (topic, i)" by (cases p)
  have "i \<in> snd ` set (r_active_subs r)" using Cons.prems(2) p by force
  then have "hushed N (snd (slide_hz_buckets i r))" by (rule hushed_works [OF Cons.prems(1) works_slide])
  moreover have "r_active_subs (snd (slide_hz_buckets i r)) = r_active_subs r"
    using works_slide [of i r] by (simp add: works_def)
  ultimately show ?case
    using Cons.IH [of "snd (slide_hz_buckets i r)"] Cons.prems(2) p by (simp add: Let_def case_prod_beta)
qed simp

lemma hushed_diagnostics: "hushed N r \<Longrightarrow> hushed N (snd (full_diagnostics r))"
  using hushed_stats by (simp add: full_diagnostics_def Let_def case_prod_beta)

lemma safe_inbound:
  assumes "calm N oc" "hushed N r"
  shows "safe (hushed N) (on_inbound_message c oc b r)"
proof -
  have oc: "safe (hushed N) (oc lam resp err r1)" if "hushed N r1" for lam resp err r1
    using assms(1) that holds_safe unfolding calm_def by blast
  have "safe (hushed N) (handle_sdk_response c oc resp r1)" if "hushed N r1" for resp r1
    using that safe_subscribe_ack [OF assms(1)] oc
    by (simp add: handle_sdk_response_def Let_def split: option.split)
  then show ?thesis
    using assms(2) by (simp add: on_inbound_message_def Let_def hushed_push split: inbound.split)
qed

lemma safe_event:
  assumes oc: "calm N oc" and h: "hushed N r"
    and sub: "\<And>i. e = EvSubscribe i \<Longrightarrow> i < r_next_slot r \<and> sl_state (r_slots r i) \<noteq> SubClosed \<and> \<not> alive r i"
  shows "safe (hushed N) (handle_event c oc e r)"
proof (cases e)
  case (EvSubscribe i)
  then show ?thesis using safe_handle_subscribe [OF oc h] sub by (simp add: handle_event_def)
next
  case (EvDiagnostics p)
  then show ?thesis
    using safe_set_value [OF hushed_diagnostics [OF h]] by (simp add: handle_event_def case_prod_beta)
qed (use h in \<open>simp_all add: handle_event_def safe_connect [OF oc] safe_close [OF oc] safe_inbound [OF oc]
      safe_transport_close [OF oc] hushed_unsub_async safe_unsub_sync safe_calls safe_timers [OF oc]
      safe_sub_ack_timeout [OF oc]\<close>)

lemma hushed_round:
  assumes "hushed N r" "loop_round c depth r = Some (Inr r')"
  shows "hushed N r'"
proof -
  obtain e es where es: "r_ioc r = e # es" "handle_event c (call_on_complete c depth) e (r\<lparr>r_ioc := es\<rparr>) = Inr r'"
    using assms(2) by (auto simp: loop_round_def split: if_splits list.splits)
  have "safe (hushed N) (handle_event c (call_on_complete c depth) e (r\<lparr>r_ioc := es\<rparr>))"
    using hushed_pop [OF assms(1) es(1)] by (intro safe_event [OF calm_on_complete]) simp_all
  then show ?thesis using es(2) by simp
qed

section \<open>Every step of the robot\<close>

lemma hushed_post: "\<forall>i. e \<noteq> EvSubscribe i \<Longrightarrow> hushed N (post_event e r) = hushed N r"
  by (rule hushed_cong [OF view_post_event])

lemma hushed_new_slot:
  assumes "hushed N r" "co_subscription_queue_size (cx_opts c) \<noteq> 0"
  shows "hushed N (snd (subscribe_internal c topic hz fd cb r))"
proof -
  define s where "s = sub_slot_new (cx_opts c) topic hz fd cb (resolve_semantics_from_info (r_robot_info r) topic)"
  have s: "slot_ok s" "sl_state s \<noteq> SubClosed" using assms(2) by (simp_all add: s_def sub_slot_new_def slot_ok_def)
  have "hushed N (r\<lparr>r_slots := (r_slots r)(r_next_slot r := s), r_next_slot := Suc (r_next_slot r),
      r_ioc := r_ioc r @ [EvSubscribe (r_next_slot r)]\<rparr>)"
    using assms(1) s by (auto simp: hushed_def subs_alive_def alive_def reports_def less_Suc_eq)
  then show ?thesis by (simp add: subscribe_internal_def Let_def s_def)
qed

lemma hushed_facade_destroy:
  assumes "hushed N r"
  shows "hushed N (facade_destroy True i r)"
proof -
  have "hushed N (upd_slot i (\<lambda>s. s\<lparr>sl_user_closed := True\<rparr>) r)"
    using assms by (auto simp: hushed_def subs_alive_def alive_def reports_def upd_slot_def slot_ok_def)
  then show ?thesis by (simp add: facade_destroy_def Let_def unsubscribe_request_def hushed_post)
qed

lemma hushed_user:
  assumes "hushed N r" "co_subscription_queue_size (cx_opts c) \<noteq> 0" "user_step c r r'"
  shows "hushed N r'"
  using assms(3)
proof (cases rule: user_step.cases)
  case (facade_gone i)
  then show ?thesis using hushed_facade_destroy [OF assms(1)] by simp
qed (use assms(1,2) in \<open>simp_all add: step_simps hushed_post hushed_new_slot Let_def case_prod_beta\<close>)

lemma hushed_step:
  assumes "hushed N r" "co_subscription_queue_size (cx_opts c) \<noteq> 0" "robot_step c depth r r'"
  shows "hushed N r'"
  using assms(3)
proof (cases rule: robot_step.cases)
  case user
  then show ?thesis using hushed_user [OF assms(1,2)] by blast
next
  case timer
  then show ?thesis using assms(1) by (cases rule: timer_step.cases) (simp_all add: hushed_post)
next
  case (worker d)
  then show ?thesis using assms(1) hushed_cong [OF view_worker] by simp
next
  case round
  then show ?thesis using hushed_round [OF assms(1)] by blast
qed (use assms(1) in \<open>simp_all add: hushed_post\<close>)

definition subs_inv :: "ctx \<Rightarrow> robot \<Rightarrow> bool" where
  "subs_inv c r \<longleftrightarrow> co_subscription_queue_size (cx_opts c) \<noteq> 0 \<and> hushed {} r"

interpretation subs: inductive_invariant "robot_start c" "robot_step c depth" "subs_inv c" for c depth
proof unfold_locales
  fix r assume "robot_start c r"
  then obtain env now epoch where "validate_opts (cx_opts c) = None" and r: "r = (robot_new (cx_opts c) env now epoch)\<lparr>r_work_guard := True\<rparr>"
    unfolding robot_start_def robot_create_def by (auto split: option.splits)
  then have "co_subscription_queue_size (cx_opts c) \<noteq> 0" by (auto simp: validate_opts_def split: if_splits)
  then show "subs_inv c r"
    unfolding r subs_inv_def by (simp add: hushed_def subs_alive_def alive_def robot_new_def)
qed (auto simp: subs_inv_def intro: hushed_step)

text \<open>
  C25. The slots of a reachable robot are well formed: sixty rate buckets, a pending buffer within the
  queue size, which is not zero, and empty once the subscription is active or paused (no message is
  stranded); and each entry of the map of subscriptions names a slot that exists, has the topic of the
  entry as its topic, and is not closed.
\<close>

theorem slots_well_formed:
  assumes "reach (robot_start c) (robot_step c depth) r"
  shows "(\<forall>i<r_next_slot r. let s = r_slots r i in
            length (sl_hz_buckets s) = 60 \<and> sl_queue_size s \<noteq> 0
            \<and> length (sl_pending_buffer s) \<le> unat (sl_queue_size s)
            \<and> (sl_state s \<in> {SubActive, SubPaused} \<longrightarrow> sl_pending_buffer s = []))
       \<and> (\<forall>(topic, i)\<in>set (r_active_subs r). i < r_next_slot r \<and> sl_topic (r_slots r i) = topic
            \<and> sl_state (r_slots r i) \<noteq> SubClosed)"
proof -
  have h: "hushed {} r" using subs.reach_inv [OF assms] by (simp add: subs_inv_def)
  have "i < r_next_slot r \<and> sl_topic (r_slots r i) = topic \<and> sl_state (r_slots r i) \<noteq> SubClosed"
    if "(topic, i) \<in> set (r_active_subs r)" for topic i
    using entry_topic [OF h that] in_active(1,5) [OF h] by simp
  moreover have "\<forall>i<r_next_slot r. slot_ok (r_slots r i)" using h by (simp add: hushed_def)
  ultimately show ?thesis unfolding slot_ok_def Let_def by fastforce
qed

text \<open>
  C22. A closed subscription is silent for ever: whatever users, network, timers and the control loop do
  after that, its slot stays \<open>Closed\<close>, no further status or message of it is posted to the dispatcher,
  and its callback is not called inline.
\<close>

theorem closed_is_silent:
  assumes "reach (robot_start c) (robot_step c depth) r" "i < r_next_slot r"
    "sl_state (r_slots r i) = SubClosed" "(robot_step c depth)\<^sup>*\<^sup>* r r'"
  shows "sl_state (r_slots r' i) = SubClosed \<and> reports i r' = reports i r"
proof -
  have c: "co_subscription_queue_size (cx_opts c) \<noteq> 0" and "hushed {} r"
    using subs.reach_inv [OF assms(1)] by (simp_all add: subs_inv_def)
  then have "hushed {(i, reports i r)} r" using assms(2,3) by (simp add: hushed_def)
  with assms(4) have "hushed {(i, reports i r)} r'"
    by (induction rule: rtranclp_induct) (auto intro: hushed_step [OF _ c])
  then show ?thesis by (simp add: hushed_def)
qed

section \<open>A subscription that was active\<close>

lemma fresh_steps: "(fresh_step c depth)\<^sup>*\<^sup>* r r' \<Longrightarrow> (robot_step c depth)\<^sup>*\<^sup>* r r'"
  by (induction rule: rtranclp_induct) (auto simp: fresh_step_def intro: rtranclp.rtrancl_into_rtrancl)

lemma fresh_reach: "reach start (fresh_step c depth) r \<Longrightarrow> reach start (robot_step c depth) r"
  by (induction rule: reach.induct) (auto simp: fresh_step_def intro: reach.intros)

definition to_active :: "action list" where
  "to_active = to_ready @ [SubscribeSafety, Round, Inbound [2, 1], Round, Inbound [1], Round]"

definition to_unsubscribed :: "action list" where
  "to_unsubscribed = to_active @ [Unsubscribe 0, Round, Inbound [3, 2], Round]"

definition after_unsubscribe :: "action list" where
  "after_unsubscribe = [Inbound [2], Round, SubscribeSafety, Round, Inbound [4, 1], Round, Inbound [3], Round, Stop, Round]"

lemma sample_active:
  "map_of (r_active_subs (sampled to_active)) ''robot.safety'' = Some 0
   \<and> sl_state (r_slots (sampled to_active) 0) = SubActive \<and> length (fst (reports 0 (sampled to_active))) = 2"
  by code_simp

lemma sample_unsubscribed:
  "sl_state (r_slots (sampled to_unsubscribed) 0) = SubClosed \<and> 0 < r_next_slot (sampled to_unsubscribed)
   \<and> length (fst (reports 0 (sampled to_unsubscribed))) = 3"
  by code_simp

theorem slots_well_formed_witness:
  "0 < r_next_slot (sampled to_active) \<and> length (sl_hz_buckets (r_slots (sampled to_active) 0)) = 60
   \<and> sl_pending_buffer (r_slots (sampled to_active) 0) = []"
proof -
  have "(''robot.safety'', 0) \<in> set (r_active_subs (sampled to_active))"
    using sample_active map_of_SomeD by fast
  with slots_well_formed [OF fresh_reach [OF sampled_reach], of to_active] sample_active
  show ?thesis by (auto simp: Let_def)
qed

theorem closed_is_silent_witness:
  "let r' = run_script sample_ctx 3 after_unsubscribe (sampled to_unsubscribed)
   in sl_state (r_slots r' 0) = SubClosed \<and> length (fst (reports 0 r')) = 3"
  using closed_is_silent [OF fresh_reach [OF sampled_reach], of 0 to_unsubscribed,
      OF _ _ fresh_steps [OF run_script_steps], of after_unsubscribe] sample_unsubscribed
  by (simp add: Let_def)

end
