(* ===== verification/Resubscribe.thy ===== *)
theory Resubscribe
  imports Connecting SubsClaims
begin

text \<open>
  The subscriptions after a reconnect: the loop that sends them again, and the map it walks through
  while a failed attempt empties it.
\<close>

lemma attempt_slots [simp]:
  "r_reconnect_attempt (pause_all_subs code msg r) = r_reconnect_attempt r"
  "r_reconnect_attempt (mark_lost c reason msg r) = r_reconnect_attempt r"
  "r_reconnect_attempt (start_heartbeat c r) = r_reconnect_attempt r"
proof -
  have "r_reconnect_attempt (fold (\<lambda>(topic, i). pause_slot code msg i) ps r) = r_reconnect_attempt r" for ps
    by (induction ps arbitrary: r)
      (auto simp: pause_slot_def fire_status_def post_task_def upd_slot_def Let_def)
  then show "r_reconnect_attempt (pause_all_subs code msg r) = r_reconnect_attempt r"
    by (simp add: pause_all_subs_def)
  show "r_reconnect_attempt (mark_lost c reason msg r) = r_reconnect_attempt r"
    by (simp add: mark_lost_def ws_close_reset_def upd_heartbeat_def next_backoff_def Let_def split: option.split)
qed (simp add: start_heartbeat_def upd_heartbeat_def Let_def)

lemma abort_empties:
  assumes "r_inflight r = []"
  shows "\<exists>r'. abort_to_fatal oc code msg r = Inr r' \<and> r_active_subs r' = [] \<and> r_state r' = CsFatal"
proof -
  define r2 where "r2 = (fold (\<lambda>(topic, i). close_slot code (if msg = [] then ''Fatal'' else msg) i)
    (r_active_subs r) r)\<lparr>r_active_subs := []\<rparr>"
  have "session r2 = (session r)\<lparr>s_active := []\<rparr>" by (simp add: r2_def)
  from arg_cong [OF this, of s_inflight] have "r_inflight r2 = []" using assms by simp
  moreover have "r_active_subs r2 = []" by (simp add: r2_def)
  moreover have "r_active_subs (ws_close_reset x) = r_active_subs x" for x
    by (simp add: ws_close_reset_def split: option.split)
  ultimately show ?thesis
    unfolding abort_to_fatal_def r2_def [symmetric] Let_def by (simp add: state_transition upd_heartbeat_def)
qed

lemma last_attempt_aborts:
  assumes "r_inflight r = []" "r_state r = CsReconnecting" "0 \<le> co_reconnect_max_attempts (cx_opts c)"
    "co_reconnect_max_attempts (cx_opts c) < sint (r_reconnect_attempt r + 1)"
  shows "\<exists>r'. on_transport_close c oc reason msg r = Inr r' \<and> r_active_subs r' = [] \<and> r_state r' = CsFatal"
proof -
  define r3 where "r3 = mark_lost c reason msg (pause_all_subs reason msg r)"
  have s: "r_state r3 = CsTransientFailure" "r_inflight r3 = []"
    using arg_cong [OF session_mark_lost [of c reason msg "pause_all_subs reason msg r"], of s_state]
      arg_cong [OF session_mark_lost [of c reason msg "pause_all_subs reason msg r"], of s_inflight]
    by (simp_all add: r3_def s_goto_def del: session_mark_lost)
  have "r_reconnect_attempt r3 = r_reconnect_attempt r" by (simp add: r3_def)
  then have "on_transport_close c oc reason msg r
      = abort_to_fatal oc EcTransportFailure ''reconnect_max_attempts reached'' r3"
    using assms s by (simp add: on_transport_close_def r3_def [symmetric] do_reconnect_def Let_def)
  then show ?thesis using abort_empties [OF s(2)] by simp
qed

lemma replay_request_empties:
  assumes r2: "sl_topic (r_slots r2 i) = topic" "r_state r2 = CsReconnecting" "r_inflight r2 = []"
    and bad: "(\<forall>rid hz since limit. \<exists>e. encode_subscribe (cx_pb c) rid topic hz since limit = Inl e)
      \<or> (\<not> cx_open c (r_looks r2) \<and> 0 \<le> co_reconnect_max_attempts (cx_opts c)
          \<and> co_reconnect_max_attempts (cx_opts c) < sint (r_reconnect_attempt r2 + 1))"
  shows "\<exists>r'. send_subscribe c oc i since r2 = Inr r' \<and> map_of (r_active_subs r') topic = None"
proof -
  define r3 where "r3 = r2\<lparr>r_next_request_id := r_next_request_id r2 + 1, r_requests := Suc (r_requests r2)\<rparr>"
  have r3: "next_request_id r2 = (r_next_request_id r2, r3)" by (simp add: next_request_id_def r3_def)
  have t3: "sl_topic (r_slots r3 i) = topic" using r2(1) by (simp add: r3_def)
  show ?thesis
  proof (cases "encode_subscribe (cx_pb c) (r_next_request_id r2) topic (sl_desired_hz (r_slots r3 i))
      (effective_since (r_slots r3 i) since)
      (if effective_since (r_slots r3 i) since > 0 then co_history_limit (cx_opts c) else 0)")
    case (Inl e)
    have "map_of (r_active_subs (close_and_drop i EcInternalError (exn_what e) r3)) topic = None"
      using r2(1) by (simp add: close_and_drop_def Let_def map_of_std_map_erase r3_def upd_slot_def)
    moreover have "send_subscribe c oc i since r2 = Inr (close_and_drop i EcInternalError (exn_what e) r3)"
      using Inl by (simp add: send_subscribe_def r3 Let_def t3 split del: if_split)
    ultimately show ?thesis by simp
  next
    case (Inr b)
    then have lost: "\<not> cx_open c (r_looks r2)" "0 \<le> co_reconnect_max_attempts (cx_opts c)"
      "co_reconnect_max_attempts (cx_opts c) < sint (r_reconnect_attempt r2 + 1)"
      using bad by (metis Inl_Inr_False)+
    define ra where "ra = register_subscribe c (r_next_request_id r2) i (effective_since (r_slots r3 i) since) r3"
    define rb where "rb = (case r_ws ra of None \<Rightarrow> ra | Some n \<Rightarrow> ra\<lparr>r_looks := Suc (r_looks ra)\<rparr>)"
    have ra: "r_looks ra = r_looks r2" "r_state ra = CsReconnecting" "r_inflight ra = []"
      "r_reconnect_attempt ra = r_reconnect_attempt r2"
      using r2 by (simp_all add: ra_def register_subscribe_def upd_slot_def Let_def r3_def)
    have sent: "send_or_fail c b ra = (False, rb)"
      using lost(1) ra(1) by (simp add: send_or_fail_def ws_post_call_def rb_def Let_def split: option.split)
    have "r_state (unregister_subscribe rid i rb) = CsReconnecting" "r_inflight (unregister_subscribe rid i rb) = []"
      "r_reconnect_attempt (unregister_subscribe rid i rb) = r_reconnect_attempt r2" for rid
      using ra by (simp_all add: unregister_subscribe_def rb_def upd_slot_def split: option.split)
    from last_attempt_aborts [OF this(2,1) lost(2), unfolded this(3), OF lost(3)]
    obtain r' where r': "on_transport_close c oc EcTransportFailure ''SendSubscribe failed''
        (unregister_subscribe (r_next_request_id r2) i rb) = Inr r'" "r_active_subs r' = []"
      by blast
    have "send_subscribe c oc i since r2 = Inr r'"
      using Inr sent r'(1) by (simp add: send_subscribe_def r3 Let_def ra_def t3 split del: if_split)
    then show ?thesis using r'(2) by simp
  qed
qed

text \<open>
  C23. The loop over the subscriptions loses its iterator: when the connection drops right after the
  handshake of the last attempt \<open>reconnect_max_attempts\<close> allows (the next request finds the WebSocket
  closed), or when the first request cannot be encoded, the body of the loop empties the map, or erases the
  element it stands on, and the loop steps on from an iterator into a node that is gone.
\<close>

theorem resubscribing_invalidates_iterator:
  assumes subs: "r_active_subs r = (topic, i) # rest" "sl_topic (r_slots r i) = topic"
      "length (r_active_subs r) < 2 ^ 64"
    and conn: "r_state r = CsReconnecting" "r_inflight r = []"
    and bad: "(\<forall>rid hz since limit. \<exists>e. encode_subscribe (cx_pb c) rid topic hz since limit = Inl e)
      \<or> (\<not> cx_open c (r_looks r) \<and> 0 \<le> co_reconnect_max_attempts (cx_opts c)
          \<and> co_reconnect_max_attempts (cx_opts c) < sint (r_reconnect_attempt r + 1))"
    and resp: "dr_success resp" "dr_has_handshake resp"
  shows "complete_handshake c oc True resp EcOk r = Inl IteratorInvalidated"
proof -
  define r1 where "r1 = (start_heartbeat c (r\<lparr>r_robot_info := Some (robot_info_of_response resp)\<rparr>))
    \<lparr>r_subs_pending := of_nat (length (r_active_subs r)),
     r_estop_pending := r_estop_engaged (start_heartbeat c (r\<lparr>r_robot_info := Some (robot_info_of_response resp)\<rparr>)),
     r_failure_code := EcOk\<rparr>"
  define r2 where "r2 = upd_slot i (\<lambda>s. s\<lparr>sl_fresh_retry_done := False\<rparr>) r1"
  have hb: "r_slots (start_heartbeat c x) = r_slots x" "r_looks (start_heartbeat c x) = r_looks x" for x
    by (simp_all add: start_heartbeat_def upd_heartbeat_def Let_def)
  have "unat (of_nat (length (r_active_subs r)) :: u64) = length (r_active_subs r)"
    using subs(3) by (intro of_nat_inverse [OF refl]) simp
  then have some: "(of_nat (length (r_active_subs r)) :: u64) \<noteq> 0" using subs(1) by auto
  then have run: "complete_handshake c oc True resp EcOk r
      = obind (resubscribe_all c oc r1) (\<lambda>r2. if r_estop_pending r2 then do_estop_replay c oc r2 else Inr r2)"
    using resp by (simp add: complete_handshake_def resume_session_def Let_def r1_def)
  have r2: "r_active_subs r2 = (topic, i) # rest" "sl_topic (r_slots r2 i) = topic" "r_state r2 = CsReconnecting"
    "r_inflight r2 = []" "r_looks r2 = r_looks r" "r_reconnect_attempt r2 = r_reconnect_attempt r"
    using subs conn by (simp_all add: r2_def r1_def upd_slot_def hb)
  have gone: "\<exists>r'. send_subscribe c oc i since r2 = Inr r' \<and> map_of (r_active_subs r') topic = None" for since
    by (rule replay_request_empties) (use r2 bad in simp_all)
  have one: "\<exists>r'. resubscribe_one c oc i r1 = Inr r' \<and> map_of (r_active_subs r') topic = None"
    using gone by (simp add: resubscribe_one_def r2_def [symmetric] Let_def)
  moreover have "r_active_subs r1 = (topic, i) # rest" using subs(1) by (simp add: r1_def)
  ultimately have "resubscribe_all c oc r1 = Inl IteratorInvalidated" by (auto simp: resubscribe_all_def)
  then show ?thesis by (simp add: run)
qed

text \<open>
  One more attempt is allowed; the first connection is refused, and the WebSocket of the second closes
  after the handshake request.
\<close>

definition last_ctx :: ctx where
  "last_ctx = sample_ctx\<lparr>cx_opts := sample_opts\<lparr>co_reconnect_max_attempts := 1\<rparr>, cx_open := (\<lambda>n. n = 0),
     cx_connect := (\<lambda>n. if n = 0 then Some (Some \<lparr>exn_code = EcTransportFailure, exn_what = []\<rparr>) else Some None)\<rparr>"

definition last_robot :: robot where
  "last_robot = erase_inflight 1 (run_script last_ctx 3
     [SubscribeSafety, Round, Connect, Round, Wait 60000000000, ReconnectTimer, Round]
     ((robot_new (cx_opts last_ctx) None 0 1000)\<lparr>r_work_guard := True\<rparr>))"

lemma last_robot_facts:
  "r_active_subs last_robot = [(''robot.safety'', 0)] \<and> sl_topic (r_slots last_robot 0) = ''robot.safety''
   \<and> r_state last_robot = CsReconnecting \<and> r_inflight last_robot = [] \<and> r_looks last_robot = 1
   \<and> r_reconnect_attempt last_robot = 1"
  by code_simp

theorem resubscribing_invalidates_iterator_witness:
  "complete_handshake last_ctx (call_on_complete last_ctx 3) True
     (decoded_response_default\<lparr>dr_success := True, dr_has_handshake := True\<rparr>) EcOk last_robot = Inl IteratorInvalidated"
proof -
  have "\<not> cx_open last_ctx (r_looks last_robot) \<and> 0 \<le> co_reconnect_max_attempts (cx_opts last_ctx)
      \<and> co_reconnect_max_attempts (cx_opts last_ctx) < sint (r_reconnect_attempt last_robot + 1)"
    using last_robot_facts by (simp add: last_ctx_def)
  then show ?thesis
    using resubscribing_invalidates_iterator [of last_robot "''robot.safety''" 0 "[]" last_ctx] last_robot_facts by simp
qed

end
