(* ===== verification/Heartbeat.thy ===== *)
theory Heartbeat
  imports Connecting
begin

text \<open>
  The heartbeat: how many unanswered pings a silent server gets before the robot gives the connection up.
\<close>

section \<open>Deadlines\<close>

text \<open>\<open>n\<close> expiries of the deadline of a ping, with nothing received in between.\<close>

fun deadlines :: "ctx \<Rightarrow> on_complete_fn \<Rightarrow> nat \<Rightarrow> robot \<Rightarrow> robot outcome" where
  "deadlines c oc 0 r = Inr r"
| "deadlines c oc (Suc n) r =
     obind (deadlines c oc n r)
       (\<lambda>r1. case r_ping_timer r1 of
          None \<Rightarrow> Inr r1
        | Some t \<Rightarrow> on_ping_deadline c oc (r1\<lparr>r_ping_timer := None\<rparr>))"

definition awaiting :: "event list \<Rightarrow> nat \<Rightarrow> nat \<Rightarrow> nat \<Rightarrow> robot \<Rightarrow> bool" where
  "awaiting q sent base k r \<longleftrightarrow> r_state r = CsReady \<and> hb_ping_deadline_active (r_heartbeat r)
     \<and> hb_miss_count (r_heartbeat r) = of_nat k \<and> r_ping_timer r \<noteq> None \<and> r_ws r \<noteq> None
     \<and> length (r_wire r) = sent + k \<and> r_requests r = base + k
     \<and> balanced q {#} r \<and> sess_ok [] (session r)"

definition reachable_server :: "ctx \<Rightarrow> bool" where
  "reachable_server c \<longleftrightarrow> (\<forall>n. cx_open c n) \<and> (\<forall>rid ts. \<exists>b. encode_ping (cx_pb c) rid ts = Inr b)"

lemma missed_deadline:
  assumes a: "awaiting q sent base k r" and c: "reachable_server c"
    and more: "Suc k < unat (co_max_missed_pings (cx_opts c))" and fresh: "base + k < id_limit"
  shows "fine (awaiting q sent base (Suc k)) (on_ping_deadline c (call_on_complete c d) (r\<lparr>r_ping_timer := None\<rparr>))"
proof -
  define r0 where "r0 = r\<lparr>r_ping_timer := None\<rparr>"
  define r1 where "r1 = upd_heartbeat (\<lambda>h. h\<lparr>hb_ping_deadline_active := False,
    hb_miss_count := hb_miss_count h + 1\<rparr>) r0"
  define r2 where "r2 = r1\<lparr>r_looks := Suc (r_looks r1)\<rparr>"
  define r3 where "r3 = snd (next_request_id r2)"
  have f0: "r_state r0 = CsReady" "hb_ping_deadline_active (r_heartbeat r0)"
    "hb_miss_count (r_heartbeat r0) = of_nat k" "r_ws r0 \<noteq> None"
    using a by (simp_all add: awaiting_def r0_def)
  obtain n where n: "r_ws r0 = Some n" using f0(4) by blast
  have "unat (co_max_missed_pings (cx_opts c)) < 2 ^ LENGTH(32)" by (rule unsigned_less)
  then have "Suc k < 2 ^ LENGTH(32)" using more by linarith
  then have "unat (of_nat (Suc k) :: u32) = Suc k" by (rule of_nat_inverse [OF refl])
  then have not_yet: "\<not> co_max_missed_pings (cx_opts c) \<le> hb_miss_count (r_heartbeat r1)"
    using more f0(3) by (simp add: r1_def upd_heartbeat_def word_le_nat_alt add.commute)
  have open2: "ws_is_open c r1 = (True, r2)"
    using c n by (simp add: ws_is_open_def r1_def r2_def upd_heartbeat_def reachable_server_def)
  obtain ok r4 where r4: "send_heartbeat_ping c (r_next_request_id r2) CNone r3 = (ok, r4)" by fastforce
  obtain b where b: "encode_ping (cx_pb c) (r_next_request_id r2) (now_steady_ms r3) = Inr b"
    using c unfolding reachable_server_def by blast
  have sent: "ok" "r_state r4 = CsReady" "hb_ping_deadline_active (r_heartbeat r4)"
      "hb_miss_count (r_heartbeat r4) = of_nat (Suc k)" "r_ping_timer r4 \<noteq> None" "r_ws r4 \<noteq> None"
      "length (r_wire r4) = sent + Suc k" "r_requests r4 = base + Suc k"
    using r4 b c n f0 a
    by (auto simp: send_heartbeat_ping_def send_or_fail_def ws_post_call_def Let_def reachable_server_def
        now_steady_ms_def put_inflight_def count_bytes_sent_def upd_metrics_def upd_heartbeat_def
        r3_def next_request_id_def r2_def r1_def r0_def awaiting_def)
  have l2: "ledger r2 = ledger r" by (simp add: r2_def r1_def r0_def)
  have s2: "session r2 = session r" by (simp add: r2_def r1_def r0_def)
  have bal2: "balanced q {#} r2" using a balanced_cong [OF l2] by (simp add: awaiting_def)
  have ok: "sess_ok [] (session r)" using a by (simp add: awaiting_def)
  have ready: "inflight_ok CsReady (r_inflight r2)"
    using sess_okD(3) [OF ok] a ledger_eqD(1) [OF l2] by (simp add: awaiting_def)
  have req: "next_request_id r2 = (r_next_request_id r2, r3)" by (simp add: r3_def next_request_id_def)
  have "balanced q {#} r4"
    using ping_good [OF bal2 ready _ _ _ req r4] fresh ledger_eqD(2) [OF l2] a by (simp add: awaiting_def)
  moreover have "sess_ok [] (session r4)"
  proof -
    have "sess_ok [] (session r3)" using new_request [of "[]" r2] ok s2 req by auto
    moreover have "r_state r3 = CsReady" using f0(1) by (simp add: r3_def next_request_id_def r2_def r1_def upd_heartbeat_def)
    ultimately show ?thesis using send_heartbeat_ping_result(1) [OF _ _ _ r4] by (simp add: lifecycle_lambda_def)
  qed
  moreover have "on_ping_deadline c (call_on_complete c d) r0 = Inr r4"
    using f0(1,2) not_yet open2 req r4 sent(1)
    by (simp add: on_ping_deadline_def r1_def [symmetric] Let_def)
  ultimately show ?thesis using sent by (simp add: awaiting_def r0_def)
qed

lemma last_deadline:
  assumes a: "awaiting q sent base k r" and last: "Suc k = unat (co_max_missed_pings (cx_opts c))"
  shows "fine (\<lambda>r'. r_state r' \<in> {CsTransientFailure, CsFatal} \<and> r_inflight r' = [])
    (on_ping_deadline c (call_on_complete c (Suc d)) (r\<lparr>r_ping_timer := None\<rparr>))"
proof -
  define r1 where "r1 = upd_heartbeat (\<lambda>h. h\<lparr>hb_ping_deadline_active := False,
    hb_miss_count := hb_miss_count h + 1\<rparr>) (r\<lparr>r_ping_timer := None\<rparr>)"
  define r2 where "r2 = post_log LogWarn (''heartbeat miss_count='' @ dec_nat (unat (hb_miss_count (r_heartbeat r1)))
    @ '' >= max_missed_pings, declaring dead'') r1"
  have l: "ledger r2 = ledger r" and s: "session r2 = session r" by (simp_all add: r2_def r1_def)
  have ok: "sess_ok [] (session r2)" using a s by (simp add: awaiting_def)
  have st: "r_state r2 = CsReady" using session_eqD(1) [OF s] a by (simp add: awaiting_def)
  have "co_max_missed_pings (cx_opts c) = of_nat (Suc k)" unfolding last by simp
  then have now: "co_max_missed_pings (cx_opts c) \<le> hb_miss_count (r_heartbeat r1)"
    using a by (simp add: r1_def upd_heartbeat_def awaiting_def add.commute)
  have "\<not> replaying (r_inflight r2)"
    using sess_okD(3) [OF ok] st by (auto simp: inflight_ok_def replaying_def lifecycle_lambda_def)
  moreover have "balanced q {#} r2" using a balanced_cong [OF l] by (simp add: awaiting_def)
  ultimately have "fine (\<lambda>r'. r_state r' \<in> {CsTransientFailure, CsFatal} \<and> r_inflight r' = [])
      (on_transport_close c (call_on_complete c (Suc d)) EcTransportFailure ''heartbeat dead'' r2)"
    using fine_mono [OF lost_fine [OF _ ok]] st by simp
  moreover have "on_ping_deadline c (call_on_complete c (Suc d)) (r\<lparr>r_ping_timer := None\<rparr>)
      = on_transport_close c (call_on_complete c (Suc d)) EcTransportFailure ''heartbeat dead'' r2"
    using a now by (simp add: on_ping_deadline_def r1_def [symmetric] r2_def awaiting_def Let_def)
  ultimately show ?thesis by simp
qed

text \<open>
  C19. A silent server is declared dead at the right deadline: from a reachable \<open>Ready\<close> robot that waits
  for the answer to its first ping, each of the first \<open>max_missed_pings - 1\<close> deadlines sends one more ping and
  leaves it \<open>Ready\<close>, and the last one gives the connection up without a crash, with no call left in flight.
\<close>

theorem silent_server_declared_dead:
  assumes "reach (robot_start c) (fresh_step c depth) r" "r_state r = CsReady"
    "hb_ping_deadline_active (r_heartbeat r)" "hb_miss_count (r_heartbeat r) = 0" "r_ping_timer r = Some t"
    "r_ws r = Some w" "reachable_server c" "co_max_missed_pings (cx_opts c) \<noteq> 0"
    "r_requests r + unat (co_max_missed_pings (cx_opts c)) < id_limit"
  shows "(\<forall>k<unat (co_max_missed_pings (cx_opts c)). \<exists>r'. deadlines c (call_on_complete c (Suc stack)) k r = Inr r'
        \<and> r_state r' = CsReady \<and> length (r_wire r') = length (r_wire r) + k)
    \<and> (\<exists>r'. deadlines c (call_on_complete c (Suc stack)) (unat (co_max_missed_pings (cx_opts c))) r = Inr r'
        \<and> r_state r' \<in> {CsTransientFailure, CsFatal} \<and> r_inflight r' = [])"
proof -
  let ?oc = "call_on_complete c (Suc stack)"
  note inv = accounts.reach_inv [OF assms(1)]
  have "awaiting (r_ioc r) (length (r_wire r)) (r_requests r) 0 r"
    using inv accounts_parts(3) [OF inv] assms(2-6) by (simp add: awaiting_def accounts_def settled_def balanced_def)
  then have run: "fine (awaiting (r_ioc r) (length (r_wire r)) (r_requests r) k) (deadlines c ?oc k r)"
    if "k < unat (co_max_missed_pings (cx_opts c))" for k
    using that
  proof (induction k)
    case (Suc k)
    then have "fine (awaiting (r_ioc r) (length (r_wire r)) (r_requests r) k) (deadlines c ?oc k r)" by simp
    then show ?case unfolding deadlines.simps
    proof (rule fine_obind)
      fix r1 assume r1: "awaiting (r_ioc r) (length (r_wire r)) (r_requests r) k r1"
      then obtain t1 where "r_ping_timer r1 = Some t1" by (auto simp: awaiting_def)
      then show "fine (awaiting (r_ioc r) (length (r_wire r)) (r_requests r) (Suc k))
          (case r_ping_timer r1 of None \<Rightarrow> Inr r1 | Some t \<Rightarrow> on_ping_deadline c ?oc (r1\<lparr>r_ping_timer := None\<rparr>))"
        using missed_deadline [OF r1 assms(7), of "Suc stack"] Suc.prems assms(9)
        by (simp del: call_on_complete.simps)
    qed
  qed simp
  obtain k where k: "unat (co_max_missed_pings (cx_opts c)) = Suc k"
    using assms(8) by (metis not0_implies_Suc unat_eq_0)
  have "fine (\<lambda>r'. r_state r' \<in> {CsTransientFailure, CsFatal} \<and> r_inflight r' = []) (deadlines c ?oc (Suc k) r)"
    unfolding deadlines.simps
  proof (rule fine_obind [OF run])
    fix r1 assume r1: "awaiting (r_ioc r) (length (r_wire r)) (r_requests r) k r1"
    then obtain t1 where "r_ping_timer r1 = Some t1" by (auto simp: awaiting_def)
    then show "fine (\<lambda>r'. r_state r' \<in> {CsTransientFailure, CsFatal} \<and> r_inflight r' = [])
        (case r_ping_timer r1 of None \<Rightarrow> Inr r1 | Some t \<Rightarrow> on_ping_deadline c ?oc (r1\<lparr>r_ping_timer := None\<rparr>))"
      using last_deadline [OF r1 k [symmetric], of stack] by (simp del: call_on_complete.simps)
  qed (use k in simp)
  then show ?thesis using run unfolding k fine_def awaiting_def by metis
qed

section \<open>A short interval\<close>

text \<open>
  A silent server, \<open>n\<close> timers long: the clock goes on to the earlier of the idle timer and the deadline of the
  ping, and its handler runs.
\<close>

fun silence :: "ctx \<Rightarrow> on_complete_fn \<Rightarrow> nat \<Rightarrow> robot \<Rightarrow> robot outcome" where
  "silence c oc 0 r = Inr r"
| "silence c oc (Suc n) r =
     (case (r_idle_timer r, r_ping_timer r) of
        (None, None) \<Rightarrow> Inr r
      | (Some i, None) \<Rightarrow> obind (on_idle_timer c oc (r\<lparr>r_now := i, r_idle_timer := None\<rparr>)) (silence c oc n)
      | (None, Some p) \<Rightarrow> obind (on_ping_deadline c oc (r\<lparr>r_now := p, r_ping_timer := None\<rparr>)) (silence c oc n)
      | (Some i, Some p) \<Rightarrow>
          obind (if i < p then on_idle_timer c oc (r\<lparr>r_now := i, r_idle_timer := None\<rparr>)
                 else on_ping_deadline c oc (r\<lparr>r_now := p, r_ping_timer := None\<rparr>)) (silence c oc n))"

text \<open>The idle timer is due at \<open>i\<close>, a full interval after the last message, and before the deadline.\<close>

definition put_off :: "ctx \<Rightarrow> int \<Rightarrow> robot \<Rightarrow> bool" where
  "put_off c i r \<longleftrightarrow> r_state r = CsReady \<and> r_ws r \<noteq> None \<and> r_idle_timer r = Some i
     \<and> hb_last_inbound_at (r_heartbeat r) + co_heartbeat_interval (cx_opts c) * 1000000 \<le> i
     \<and> (\<forall>p. r_ping_timer r = Some p \<longrightarrow> i < p)"

lemma idle_puts_off:
  assumes "put_off c i r" "reachable_server c" "0 \<le> co_heartbeat_interval (cx_opts c)"
    "co_heartbeat_interval (cx_opts c) < co_ping_timeout (cx_opts c)"
  shows "\<exists>r'. on_idle_timer c oc (r\<lparr>r_now := i, r_idle_timer := None\<rparr>) = Inr r'
    \<and> put_off c (i + co_heartbeat_interval (cx_opts c) * 1000000) r' \<and> r_now r' = i
    \<and> hb_miss_count (r_heartbeat r') = hb_miss_count (r_heartbeat r) \<and> length (r_wire r') = Suc (length (r_wire r))"
proof -
  let ?r = "r\<lparr>r_now := i, r_idle_timer := None\<rparr>"
  have due: "co_heartbeat_interval (cx_opts c) \<le> elapsed_ms (hb_last_inbound_at (r_heartbeat ?r)) ?r"
    using assms(1) zdiv_mono1 [of "co_heartbeat_interval (cx_opts c) * 1000000" "i - hb_last_inbound_at (r_heartbeat r)" 1000000]
    by (simp add: put_off_def elapsed_ms_def)
  obtain n where n: "r_ws r = Some n" "r_state r = CsReady" using assms(1) by (auto simp: put_off_def)
  define r2 where "r2 = snd (next_request_id (?r\<lparr>r_looks := Suc (r_looks r)\<rparr>))"
  obtain b where "encode_ping (cx_pb c) (r_next_request_id r) (now_steady_ms r2) = Inr b"
    using assms(2) unfolding reachable_server_def by blast
  then show ?thesis
    using assms due n
    by (simp add: put_off_def on_idle_timer_def ws_is_open_def next_request_id_def send_heartbeat_ping_def
        send_or_fail_def ws_post_call_def put_inflight_def count_bytes_sent_def upd_metrics_def upd_heartbeat_def
        after_ms_def now_steady_ms_def reachable_server_def r2_def Let_def)
qed

text \<open>
  C20. With a heartbeat interval shorter than the ping timeout a silent server is never declared dead: each
  expiry of the idle timer sends a ping and sets its deadline anew, before the deadline of the one before it,
  so that however many timers go by the robot is \<open>Ready\<close> and no miss is counted, while time and the pings
  sent go on.
\<close>

theorem short_interval_never_dead:
  assumes "put_off c i r" "reachable_server c" "0 \<le> co_heartbeat_interval (cx_opts c)"
    "co_heartbeat_interval (cx_opts c) < co_ping_timeout (cx_opts c)"
  shows "\<exists>r'. silence c oc (Suc n) r = Inr r' \<and> r_state r' = CsReady
    \<and> hb_miss_count (r_heartbeat r') = hb_miss_count (r_heartbeat r)
    \<and> r_now r' = i + int n * (co_heartbeat_interval (cx_opts c) * 1000000)
    \<and> length (r_wire r') = length (r_wire r) + Suc n"
  using assms(1)
proof (induction n arbitrary: i r)
  case (0 i r)
  from idle_puts_off [OF this assms(2-4), of oc] show ?case
    using 0 by (auto simp: put_off_def split: option.split)
next
  case (Suc n)
  obtain r1 where r1: "on_idle_timer c oc (r\<lparr>r_now := i, r_idle_timer := None\<rparr>) = Inr r1"
    "put_off c (i + co_heartbeat_interval (cx_opts c) * 1000000) r1"
    "hb_miss_count (r_heartbeat r1) = hb_miss_count (r_heartbeat r)" "length (r_wire r1) = Suc (length (r_wire r))"
    using idle_puts_off [OF Suc.prems assms(2-4)] by blast
  have step: "silence c oc (Suc m) r = silence c oc m r1" for m
    using Suc.prems r1(1) by (auto simp: put_off_def split: option.split)
  show ?case using Suc.IH [OF r1(2)] r1(3,4) by (simp add: step del: silence.simps) (simp add: algebra_simps)
qed

text \<open>An interval of one second, a timeout of three, and a minute of silence.\<close>

definition hasty_ctx :: ctx where
  "hasty_ctx = sample_ctx\<lparr>cx_opts := sample_opts\<lparr>co_heartbeat_interval := 1000\<rparr>\<rparr>"

definition hasty_robot :: robot where
  "hasty_robot = run_script hasty_ctx 3 to_ready ((robot_new (cx_opts hasty_ctx) None 0 1000)\<lparr>r_work_guard := True\<rparr>)"

lemma hasty_facts:
  "r_state hasty_robot = CsReady \<and> r_ws hasty_robot = Some 0 \<and> r_idle_timer hasty_robot = Some 1000000000
   \<and> hb_last_inbound_at (r_heartbeat hasty_robot) = 0 \<and> r_ping_timer hasty_robot = None"
  by code_simp

theorem short_interval_never_dead_witness:
  "\<exists>r'. silence hasty_ctx (call_on_complete hasty_ctx 3) (Suc 59) hasty_robot = Inr r' \<and> r_state r' = CsReady
    \<and> r_now r' = 60000000000"
proof -
  have "co_heartbeat_interval (cx_opts hasty_ctx) = 1000" "co_ping_timeout (cx_opts hasty_ctx) = 3000"
    by (simp_all add: hasty_ctx_def sample_opts_def connect_options_default_def)
  moreover have "reachable_server hasty_ctx"
    by (simp add: reachable_server_def hasty_ctx_def sample_ctx_def sample_pb_def encode_ping_def serialize_or_throw_def)
  ultimately show ?thesis
    using short_interval_never_dead [of hasty_ctx 1000000000 hasty_robot "call_on_complete hasty_ctx 3" 59] hasty_facts
    by (auto simp: put_off_def)
qed

section \<open>A robot that waits\<close>

text \<open>The handshake is done, ten silent seconds go by, the idle timer sends a ping.\<close>

definition idle_robot :: robot where
  "idle_robot = post_event EvIdleTimer ((sampled (to_ready @ [Wait 10000000000]))\<lparr>r_idle_timer := None\<rparr>)"

definition pinged :: robot where
  "pinged = (case loop_round sample_ctx 3 idle_robot of Some (Inr r) \<Rightarrow> r | _ \<Rightarrow> sample_start)"

lemma idle_robot_facts:
  "r_idle_timer (sampled (to_ready @ [Wait 10000000000])) = Some 10000000000
   \<and> r_now (sampled (to_ready @ [Wait 10000000000])) = 10000000000
   \<and> r_requests (sampled (to_ready @ [Wait 10000000000])) = 1"
  by code_simp

lemma pinged_facts:
  "r_state pinged = CsReady \<and> hb_ping_deadline_active (r_heartbeat pinged) \<and> hb_miss_count (r_heartbeat pinged) = 0
   \<and> r_ping_timer pinged \<noteq> None \<and> r_ws pinged = Some 0 \<and> r_requests pinged = 2"
  by code_simp

lemma pinged_reach: "reach (robot_start sample_ctx) (fresh_step sample_ctx 3) pinged"
proof -
  have "timer_step (sampled (to_ready @ [Wait 10000000000])) idle_robot"
    unfolding idle_robot_def using idle_robot_facts by (intro timer_step.idle [of _ 10000000000]) simp_all
  then have "fresh_step sample_ctx 3 (sampled (to_ready @ [Wait 10000000000])) idle_robot"
    using idle_robot_facts by (auto simp: fresh_step_def idle_robot_def id_limit_def post_event_def intro: robot_step.timer)
  then have idle: "reach (robot_start sample_ctx) (fresh_step sample_ctx 3) idle_robot"
    using reach_step sampled_reach by metis
  have "r_requests sample_start = 0" by (simp add: sample_start_def robot_new_def)
  then have "pinged \<noteq> sample_start" using pinged_facts by auto
  then have "loop_round sample_ctx 3 idle_robot = Some (Inr pinged)"
    by (auto simp: pinged_def split: option.splits sum.splits)
  then have "fresh_step sample_ctx 3 idle_robot pinged"
    using pinged_facts by (simp add: fresh_step_def id_limit_def robot_step.round)
  then show ?thesis using idle by (rule reach_step [rotated])
qed

theorem silent_server_declared_dead_witness:
  "(\<exists>r'. deadlines sample_ctx (call_on_complete sample_ctx 1) 2 pinged = Inr r' \<and> r_state r' = CsReady)
   \<and> (\<exists>r'. deadlines sample_ctx (call_on_complete sample_ctx 1) 3 pinged = Inr r' \<and> r_inflight r' = [])"
proof -
  obtain t where t: "r_ping_timer pinged = Some t" using pinged_facts by auto
  have "reachable_server sample_ctx"
    by (simp add: reachable_server_def sample_ctx_def sample_pb_def encode_ping_def serialize_or_throw_def)
  moreover have three: "co_max_missed_pings (cx_opts sample_ctx) = 3"
    by (simp add: sample_ctx_def sample_opts_def connect_options_default_def)
  ultimately have "(\<forall>k<3. \<exists>r'. deadlines sample_ctx (call_on_complete sample_ctx (Suc 0)) k pinged = Inr r'
        \<and> r_state r' = CsReady \<and> length (r_wire r') = length (r_wire pinged) + k)
    \<and> (\<exists>r'. deadlines sample_ctx (call_on_complete sample_ctx (Suc 0)) 3 pinged = Inr r'
        \<and> r_state r' \<in> {CsTransientFailure, CsFatal} \<and> r_inflight r' = [])"
    using silent_server_declared_dead [OF pinged_reach _ _ _ t, of 0 0] pinged_facts
    by (simp add: id_limit_def del: call_on_complete.simps)
  moreover have "2 < (3::nat)" by simp
  ultimately show ?thesis unfolding One_nat_def by blast
qed

end
