(* ===== verification/Stranded.thy ===== *)
theory Stranded
  imports Sample
begin

text \<open>
  What the timer of the handshake leaves behind: a robot that waits for nothing, in \<open>Connecting\<close> or
  \<open>Reconnecting\<close>, until its user closes it.
\<close>

section \<open>Stranded\<close>

definition stranded :: "conn_state \<Rightarrow> robot \<Rightarrow> bool" where
  "stranded st r \<longleftrightarrow> r_state r = st \<and> r_inflight r = [] \<and> r_ws r = None
     \<and> (\<forall>p\<in>set (r_active_subs r). sl_inflight_request (r_slots r (snd p)) = 0)"

lemma stranded_session: "session r' = session r \<Longrightarrow> stranded st r' = stranded st r"
  by (auto simp: stranded_def session_def fun_eq_iff)

lemma stranded_simps [simp]:
  "stranded st (post_log lvl msg r) = stranded st r"
  "stranded st (r\<lparr>r_inflight_sub := isub\<rparr>) = stranded st r"
  "stranded st (post_event e r) = stranded st r"
  "stranded st (snd (new_promise r)) = stranded st r"
  "stranded st (upd_metrics f r) = stranded st r"
  "stranded st (upd_cmdvel_stat g r) = stranded st r"
  "stranded st (r\<lparr>r_state_handler := h\<rparr>) = stranded st r"
  "stranded st (r\<lparr>r_log_sink := ls\<rparr>) = stranded st r"
  "stranded st (r\<lparr>r_shutdown_requested := b\<rparr>) = stranded st r"
  "stranded st (r\<lparr>r_cmdvel_limiter := tb\<rparr>) = stranded st r"
  "stranded st (r\<lparr>r_cmdvel_seq := k\<rparr>) = stranded st r"
  "stranded st (r\<lparr>r_dispatcher := d\<rparr>) = stranded st r"
  "stranded st (r\<lparr>r_now := now, r_epoch_ms := epoch\<rparr>) = stranded st r"
  "stranded st (r\<lparr>r_loop_done := b\<rparr>) = stranded st r"
  "stranded st (r\<lparr>r_idle_timer := t\<rparr>) = stranded st r"
  "stranded st (r\<lparr>r_ping_timer := t\<rparr>) = stranded st r"
  "stranded st (r\<lparr>r_reconnect_timer := rt\<rparr>) = stranded st r"
  "stranded st (r\<lparr>r_sub_ack_timers := sts\<rparr>) = stranded st r"
  "stranded st (r\<lparr>r_ioc := es\<rparr>) = stranded st r"
  by (rule stranded_session [OF session_logging(2)])
    (simp_all add: stranded_def post_event_def new_promise_def upd_cmdvel_stat_def upd_metrics_def)

lemmas stranded_slots = stranded_session [OF session_upd_slot] stranded_session [OF session_logging(3)]

text \<open>The handlers that can help: that of \<open>Close\<close>, of a closed WebSocket, of an unanswered subscribe request.\<close>

fun rescue :: "event \<Rightarrow> bool" where
  "rescue EvClose = True"
| "rescue (EvTransportClose _ _) = True"
| "rescue (EvSubAckTimeout _ _) = True"
| "rescue _ = False"

definition unaided :: "ctx \<Rightarrow> nat \<Rightarrow> robot \<Rightarrow> robot \<Rightarrow> bool" where
  "unaided c depth r r' \<longleftrightarrow> fresh_step c depth r r' \<and> (\<forall>e\<in>set (r_ioc r). \<not> rescue e)"

lemma stranded_fewer:
  assumes "stranded st r" "session r' = (session r)\<lparr>s_active := act\<rparr>" "set act \<subseteq> set (r_active_subs r)"
  shows "stranded st r'"
proof -
  have "r_state r' = r_state r \<and> r_inflight r' = r_inflight r \<and> (r_ws r' = None) = (r_ws r = None)
      \<and> r_active_subs r' = act \<and> (\<lambda>i. sl_inflight_request (r_slots r' i)) = (\<lambda>i. sl_inflight_request (r_slots r i))"
    using assms(2) by (auto simp: session_def)
  then show ?thesis using assms(1,3) unfolding stranded_def fun_eq_iff by auto
qed

lemma stranded_set_value: "stranded st r \<Longrightarrow> set_value p a r = Inr r' \<Longrightarrow> stranded st r'"
  using stranded_session session_set_value by blast

lemma stranded_unsub_async:
  assumes "stranded st r" "st \<noteq> CsReady"
  shows "stranded st (handle_unsub_async c topic r)"
proof (cases "map_of (r_active_subs r) topic")
  case (Some i)
  define r4 where "r4 = (let r3 = upd_slot i (\<lambda>s. s\<lparr>sl_state := SubClosed\<rparr>) r
    in if sl_state (r_slots r i) \<noteq> SubClosed then fire_status i StClosed None EcOk ''Unsubscribe()'' r3 else r3)"
  have s: "session r4 = session r" by (simp add: r4_def Let_def session_upd_slot)
  have "session (handle_unsub_async c topic r) = (session r4)\<lparr>s_active := std_map_erase topic (r_active_subs r4)\<rparr>"
    using assms Some by (simp add: stranded_def handle_unsub_async_def r4_def Let_def)
  moreover have "r_active_subs r4 = r_active_subs r" using arg_cong [OF s, of s_active] by simp
  ultimately show ?thesis
    using stranded_fewer [OF assms(1)] s by (auto simp: std_map_erase_def)
qed (use assms in \<open>simp add: handle_unsub_async_def\<close>)

lemma stranded_unsub_sync:
  assumes "stranded st r" "st \<noteq> CsReady" "handle_unsub_sync c topic p r = Inr r'"
  shows "stranded st r'"
proof (cases "map_of (r_active_subs r) topic")
  case (Some i)
  define r2 where "r2 = fire_status i StClosed None EcDisconnected ''Unsubscribe() while disconnected''
    (upd_slot i (\<lambda>s. s\<lparr>sl_state := SubClosed, sl_error_code := EcDisconnected\<rparr>) r)"
  have s: "session r2 = session r" by (simp add: r2_def session_upd_slot)
  have "r_active_subs r2 = r_active_subs r" using arg_cong [OF s, of s_active] by simp
  then have "stranded st (r2\<lparr>r_active_subs := std_map_erase topic (r_active_subs r2)\<rparr>)"
    using s by (intro stranded_fewer [OF assms(1), of _ "std_map_erase topic (r_active_subs r2)"])
      (auto simp: std_map_erase_def)
  moreover have "set_value p (AnsUnsubscribe EcDisconnected) (r2\<lparr>r_active_subs := std_map_erase topic (r_active_subs r2)\<rparr>) = Inr r'"
    using assms Some by (simp add: stranded_def handle_unsub_sync_def r2_def Let_def)
  ultimately show ?thesis using stranded_set_value by blast
qed (use assms stranded_set_value in \<open>auto simp: handle_unsub_sync_def\<close>)

lemma stranded_inbound:
  assumes st: "stranded st r" and ids: "0 \<notin> fst ` set (r_inflight_sub r)"
    and run: "on_inbound_message c oc b r = Inr r'"
  shows "stranded st r'"
proof -
  define r2 where "r2 = reset_liveness_on_inbound
    (upd_metrics (\<lambda>m. m\<lparr>mt_bytes_received := mt_bytes_received m + of_nat (length b)\<rparr>) r)"
  have s: "session r2 = session r" by (simp add: r2_def)
  have s2: "stranded st r2" using st stranded_session [OF s] by simp
  have empty: "r_inflight r2 = []" using s2 by (simp add: stranded_def)
  have ids2: "0 \<notin> fst ` set (r_inflight_sub r2)" using ids arg_cong [OF s, of s_sub_ids] by (metis session_simps(9) set_map)
  show ?thesis
  proof (cases "classify_inbound (cx_pb c) b")
    case (InPush push)
    then have "r' = handle_sdk_topic_push push r2" using run by (simp add: on_inbound_message_def r2_def Let_def)
    then show ?thesis using s2 stranded_session [OF session_push] by simp
  next
    case InUnknown
    then show ?thesis
      using run s2 by (auto simp: on_inbound_message_def r2_def [symmetric] Let_def)
  next
    case (InResponse resp)
    then have run2: "handle_sdk_response c oc resp r2 = Inr r'" using run by (simp add: on_inbound_message_def r2_def Let_def)
    show ?thesis
    proof (cases "dr_has_subscribe resp")
      case False
      then show ?thesis
        using run2 s2 empty by (auto simp: handle_sdk_response_def)
    next
      case True
      then have ack: "handle_subscribe_ack c oc resp r2 = Inr r'" using run2 by (simp add: handle_sdk_response_def)
      have zero: "sl_inflight_request (r_slots r2 i) = 0" if "map_of (r_active_subs r2) topic = Some i" for topic i
        using s2 map_of_SomeD [OF that] by (force simp: stranded_def)
      have "dr_request_id resp \<noteq> 0" if "map_of (r_inflight_sub r2) (dr_request_id resp) = Some topic" for topic
        using ids2 map_of_SomeD [OF that] by force
      then show ?thesis
        using ack s2 zero by (auto simp: handle_subscribe_ack_def Let_def split: option.splits)
    qed
  qed
qed

lemma stranded_event:
  assumes st: "stranded st r" "st = CsConnecting \<or> st = CsReconnecting" and ids: "0 \<notin> fst ` set (r_inflight_sub r)"
    and sub: "\<And>i. e = EvSubscribe i \<Longrightarrow> sl_inflight_request (r_slots r i) = 0"
    and e: "\<not> rescue e" and run: "handle_event c oc e r = Inr r'"
  shows "stranded st r'"
proof -
  have now: "r_state r \<noteq> CsReady" "r_state r \<noteq> CsIdle" "r_state r \<noteq> CsTransientFailure" "r_inflight r = []"
    using st by (auto simp: stranded_def)
  show ?thesis
  proof (cases e)
    case (EvInbound b)
    then show ?thesis using stranded_inbound [OF st(1) ids] run by (simp add: handle_event_def)
  next
    case (EvSubscribe i)
    have "stranded st (r\<lparr>r_active_subs := std_map_put (sl_topic (r_slots r i)) i (r_active_subs r)\<rparr>)"
      using st(1) sub [OF EvSubscribe] set_std_map_put [of "sl_topic (r_slots r i)" i "r_active_subs r"]
      by (auto simp: stranded_def)
    moreover have "stranded st (upd_slot i (\<lambda>s. s\<lparr>sl_state := SubClosed\<rparr>) r)"
      "stranded st (fire_status i StClosed None EcTopicAlreadySubscribed ''already subscribed''
          (upd_slot i (\<lambda>s. s\<lparr>sl_state := SubClosed, sl_error_code := EcTopicAlreadySubscribed\<rparr>) r))"
      using st(1) by (simp_all add: stranded_slots)
    moreover have "r_state r \<noteq> CsReady" using st by (auto simp: stranded_def)
    ultimately show ?thesis
      using run EvSubscribe by (auto simp: handle_event_def handle_subscribe_def Let_def split: if_splits)
  next
    case (EvUnsubAsync topic)
    then show ?thesis using stranded_unsub_async [OF st(1), of c topic] st(2) run by (auto simp: handle_event_def)
  next
    case (EvUnsubSync topic p)
    then show ?thesis using stranded_unsub_sync [OF st(1)] st(2) run by (auto simp: handle_event_def)
  next
    case (EvDiagnostics p)
    have "stranded st (snd (full_diagnostics r))" using st(1) stranded_session [OF session_full_diagnostics] by simp
    then show ?thesis using run EvDiagnostics stranded_set_value by (auto simp: handle_event_def case_prod_beta)
  qed (use st(1) e run now stranded_set_value [OF st(1)] in \<open>auto simp: handle_event_def on_idle_timer_def
        on_ping_deadline_def on_reconnect_timer_def on_rpc_timeout_def handle_cmd_vel_def handle_estop_def
        handle_invoke_def handle_ping_def register_call_def\<close>)
qed

lemma stranded_round:
  assumes st: "stranded st r" "st = CsConnecting \<or> st = CsReconnecting" and inv: "life_inv h0 r"
    and quiet: "\<forall>e\<in>set (r_ioc r). \<not> rescue e" and run: "loop_round c depth r = Some (Inr r')"
  shows "stranded st r'"
proof -
  obtain e es where q: "r_ioc r = e # es"
    and run': "handle_event c (call_on_complete c depth) e (r\<lparr>r_ioc := es\<rparr>) = Inr r'"
    using run by (auto simp: loop_round_def split: if_splits list.splits)
  have subs: "subs_ok (session r)" "\<not> wrapped (session r)" using inv sess_okD(5) by (auto simp: life_inv_def)
  then have ids: "0 \<notin> fst ` set (r_inflight_sub r)" unfolding subs_ok_def session_simps(9) set_map by blast
  have sub: "sl_inflight_request (r_slots r i) = 0" if "e = EvSubscribe i" for i
  proof -
    have "i \<in> set (queued_subs (r_ioc r))" using q that by simp
    then show ?thesis using subs(1) by (simp add: subs_ok_def)
  qed
  have s1: "stranded st (r\<lparr>r_ioc := es\<rparr>)" using st(1) by (simp add: stranded_def)
  show ?thesis
    by (rule stranded_event [OF s1 st(2) _ _ _ run']) (use ids sub quiet q in simp_all)
qed

lemma stranded_user:
  assumes "stranded st r" "user_step c r r'" "\<forall>p\<in>set (r_active_subs r). snd p < r_next_slot r"
  shows "stranded st r'"
proof -
  have new: "stranded st (snd (subscribe_internal c topic hz fd cb r))" for topic hz fd cb
    using assms(1,3) by (auto simp: stranded_def subscribe_internal_def Let_def)
  have gone: "stranded st (upd_slot i (\<lambda>s. s\<lparr>sl_user_closed := True\<rparr>) r)" for i
    using assms(1) by (simp add: stranded_slots)
  show ?thesis
    using assms(2)
  proof (cases rule: user_step.cases)
    case (facade_gone i)
    then show ?thesis using gone by (simp add: facade_destroy_def Let_def unsubscribe_request_def)
  qed (use assms(1) new in \<open>simp_all add: step_simps Let_def case_prod_beta\<close>)
qed

lemma stranded_step:
  assumes st: "stranded st r" "st = CsConnecting \<or> st = CsReconnecting" and inv: "life_inv h0 r"
    and step: "unaided c depth r r'"
  shows "stranded st r'"
proof -
  have quiet: "\<forall>e\<in>set (r_ioc r). \<not> rescue e" and rs: "robot_step c depth r r'"
    using step by (auto simp: unaided_def fresh_step_def)
  have next_slot: "\<forall>p\<in>set (r_active_subs r). snd p < r_next_slot r"
    using sess_okD(5) [of h0 "session r"] inv by (simp add: life_inv_def subs_ok_def)
  show ?thesis
    using rs
  proof (cases rule: robot_step.cases)
    case user
    then show ?thesis using stranded_user [OF st(1) _ next_slot] by blast
  next
    case timer
    then show ?thesis
    proof (cases rule: timer_step.cases)
      case (rpc rid rpc t)
      then show ?thesis using st(1) by (simp add: stranded_def)
    qed (use st(1) in simp_all)
  next
    case round
    then show ?thesis using stranded_round [OF st inv quiet] by blast
  qed (use st(1) in simp_all)
qed

text \<open>
  C21. The timer of a handshake strands the robot: its handler takes the call out of the map, completes
  it with \<open>Timeout\<close>, on which the lambda of the handshake does nothing, and drops the WebSocket, but it
  leaves the state at \<open>Connecting\<close> or \<open>Reconnecting\<close> and starts no further attempt. From then on, as long as
  nobody calls \<open>Close\<close> and no loss of a WebSocket (nor an old subscribe timer) is reported, the robot stays
  so, whatever else its users, the network and the clock do.
\<close>

theorem handshake_timeout_strands:
  assumes "reach (robot_start c) (fresh_step c depth) r" "r_ioc r = EvRpcTimeout rid # es" "\<not> r_loop_done r"
    "map_of (r_inflight r) rid = Some rpc" "ir_on_complete rpc = CHandshake b"
  shows "\<exists>r1. loop_round c (Suc stack) r = Some (Inr r1) \<and> r_state r1 = r_state r
    \<and> r_state r \<in> {CsConnecting, CsReconnecting} \<and> r_inflight r1 = [] \<and> r_ws r1 = None
    \<and> (\<forall>r2. (unaided c depth)\<^sup>*\<^sup>* r1 r2 \<longrightarrow> r_state r2 = r_state r \<and> r_inflight r2 = [] \<and> r_ws r2 = None)"
proof -
  have inv: "life_inv [] r" using life.reach_inv [OF assms(1)] .
  have ok: "sess_ok [] (session r)" "\<not> wrapped (session r)" using inv by (simp_all add: life_inv_def)
  have mem: "(rid, rpc) \<in> set (r_inflight r)" using map_of_SomeD [OF assms(4)] .
  have "inflight_ok (r_state r) (r_inflight r)" using sess_okD(3) [OF ok(1)] by simp
  then have alone: "r_inflight r = [(rid, rpc)]" and st: "r_state r = CsConnecting \<or> r_state r = CsReconnecting"
    using mem assms(5) by (cases "r_state r"; force simp: inflight_ok_def only_lambda_def lifecycle_lambda_def)+
  have "handshaking (r_inflight r)" using mem assms(5) unfolding handshaking_def by force
  then have none: "none_requested (session r)" using handshaking_none [OF ok(1)] by simp
  define r0 where "r0 = erase_inflight rid (r\<lparr>r_ioc := es\<rparr>)"
  define r1 where "r1 = ws_close_reset r0"
  have "loop_round c (Suc stack) r = Some (Inr r1)"
    using assms(2-5) by (simp add: loop_round_def handle_event_def on_rpc_timeout_def on_complete_body_def
        complete_handshake_def r0_def r1_def Let_def)
  moreover have "stranded (r_state r) r1"
    using none alone by (auto simp: stranded_def r1_def r0_def erase_inflight_def ws_close_reset_def none_requested_def
        split: option.split)
  moreover have "life_inv [] r1"
    using loop_round_result [OF ok calculation(1)] ok(2)
    by (simp add: life_inv_def wrapped_def r1_def r0_def erase_inflight_def ws_close_reset_def split: option.split)
  moreover have "stranded (r_state r) r2" if "(unaided c depth)\<^sup>*\<^sup>* r1 r2" for r2
  proof -
    have "stranded (r_state r) r2 \<and> life_inv [] r2" using that
      by (induction rule: rtranclp_induct)
        (use calculation st stranded_step life_inv_step in \<open>auto simp: unaided_def\<close>)
    then show ?thesis by simp
  qed
  ultimately show ?thesis using st unfolding stranded_def by blast
qed

text \<open>The handshake is sent, no answer comes, six seconds go by.\<close>

definition unanswered :: robot where
  "unanswered = sampled [Connect, Round, Wait 6000000000]"

lemma unanswered_facts:
  "map_option (\<lambda>rpc. (ir_on_complete rpc, ir_timeout rpc)) (map_of (r_inflight unanswered) 1)
     = Some (CHandshake False, Some 5000000000)
   \<and> r_state unanswered = CsConnecting \<and> r_now unanswered = 6000000000 \<and> r_ioc unanswered = []
   \<and> \<not> r_loop_done unanswered \<and> r_requests unanswered = 1"
  by code_simp

theorem handshake_timeout_strands_witness:
  "\<exists>r r1. r_state r = CsConnecting \<and> loop_round sample_ctx 1 r = Some (Inr r1) \<and> r_state r1 = CsConnecting
     \<and> r_inflight r1 = [] \<and> r_ws r1 = None"
proof -
  obtain rpc where rpc: "map_of (r_inflight unanswered) 1 = Some rpc" "ir_on_complete rpc = CHandshake False"
    "ir_timeout rpc = Some 5000000000"
    using unanswered_facts by auto
  define r where "r = post_event (EvRpcTimeout 1) (put_inflight 1 (rpc\<lparr>ir_timeout := None\<rparr>) unanswered)"
  have "timer_step unanswered r"
    unfolding r_def using unanswered_facts by (intro timer_step.rpc [OF rpc(1,3)]) simp
  then have "fresh_step sample_ctx 3 unanswered r"
    using unanswered_facts by (auto simp: fresh_step_def r_def id_limit_def post_event_def put_inflight_def
        intro: robot_step.timer)
  then have "reach (robot_start sample_ctx) (fresh_step sample_ctx 3) r"
    using reach_step sampled_reach unfolding unanswered_def by metis
  from handshake_timeout_strands [OF this, of 1 "[]" "rpc\<lparr>ir_timeout := None\<rparr>" False 0]
  have "\<exists>r1. loop_round sample_ctx 1 r = Some (Inr r1) \<and> r_state r1 = CsConnecting
      \<and> r_inflight r1 = [] \<and> r_ws r1 = None"
    using unanswered_facts rpc(2) by (auto simp: r_def post_event_def put_inflight_def update_conv)
  moreover have "r_state r = CsConnecting" using unanswered_facts by (simp add: r_def post_event_def put_inflight_def)
  ultimately show ?thesis by blast
qed

end
