(* ===== verification/Handles.thy ===== *)
theory Handles
  imports SubsClaims
begin

text \<open>
  The handles of subscriptions: \<open>SubscriptionFacade\<close> ends a subscription by its topic, whichever slot
  holds the topic then.
\<close>

lemma unsub_async_closes:
  assumes "map_of (r_active_subs r) topic = Some i"
  shows "sl_state (r_slots (handle_unsub_async c topic r) i) = SubClosed"
    "map_of (r_active_subs (handle_unsub_async c topic r)) topic = None"
proof -
  obtain can r1 where r1: "(if r_state r = CsReady then ws_is_open c r else (False, r)) = (can, r1)" by fastforce
  define r2 where "r2 = (if can \<and> \<not> sl_unsubscribe_sent (r_slots r1 i)
     then let (rid, r1a) = next_request_id r1
          in case encode_unsubscribe (cx_pb c) rid topic of
               Inl e \<Rightarrow> r1a
             | Inr b \<Rightarrow>
                 let r1b = count_bytes_sent b r1a;
                     r1c = (case r_ws r1b of None \<Rightarrow> r1b | Some n \<Rightarrow> snd (ws_post_call c n b r1b))
                 in upd_slot i (\<lambda>s. s\<lparr>sl_unsubscribe_sent := True\<rparr>) r1c
     else r1)"
  define r3 where "r3 = upd_slot i (\<lambda>s. s\<lparr>sl_state := SubClosed\<rparr>) r2"
  define r5 where "r5 = (let r4 = (if sl_state (r_slots r2 i) \<noteq> SubClosed
      then fire_status i StClosed None EcOk ''Unsubscribe()'' r3 else r3)
    in r4\<lparr>r_active_subs := std_map_erase topic (r_active_subs r4)\<rparr>)"
  have eq: "handle_unsub_async c topic r
      = post_log LogWarn (''subscription dropped without explicit Unsubscribe() '' @ em_dash @ '' topic='' @ topic) r5"
    using assms r1 by (simp add: handle_unsub_async_def r2_def [symmetric] r3_def [symmetric] r5_def Let_def)
  have same: "r_slots (post_log lvl msg r5) = r_slots r5 \<and> r_active_subs (post_log lvl msg r5) = r_active_subs r5"
    for lvl msg
    by (rule conjI [OF view_eqD(1) [OF view_quiet(5)] view_eqD(2) [OF view_quiet(5)]])
  have "sl_state (r_slots r5 i) = SubClosed"
    by (cases "sl_state (r_slots r2 i) = SubClosed") (simp_all add: r5_def r3_def Let_def)
  moreover have "map_of (r_active_subs r5) topic = None"
    by (simp add: r5_def Let_def map_of_std_map_erase)
  ultimately show "sl_state (r_slots (handle_unsub_async c topic r) i) = SubClosed"
    "map_of (r_active_subs (handle_unsub_async c topic r)) topic = None"
    unfolding eq using same by simp_all
qed

text \<open>
  C24. A handle can end a subscription that is not its own: the user subscribes twice to a topic and drops
  the second handle before the control thread has come to it. The second subscription is refused, as it
  should be, but the request its destructor has posted names only the topic: two rounds later the first
  subscription, which its holder never ended, is closed and out of the map.
\<close>

theorem dropped_duplicate_ends_live_subscription:
  assumes "reach (robot_start c) (robot_step c depth) r" "r_ioc r = [EvSubscribe j]" "\<not> r_loop_done r"
    "map_of (r_active_subs r) (sl_topic (r_slots r j)) = Some i"
  shows "i \<noteq> j \<and> sl_state (r_slots r i) \<noteq> SubClosed
    \<and> (\<exists>r1 r2. loop_round c d (facade_destroy True j r) = Some (Inr r1) \<and> loop_round c d r1 = Some (Inr r2)
         \<and> sl_state (r_slots r2 i) = SubClosed \<and> map_of (r_active_subs r2) (sl_topic (r_slots r j)) = None)"
proof -
  have h: "hushed {} r" using subs.reach_inv [OF assms(1)] by (simp add: subs_inv_def)
  have i: "i \<notin> set (queued_subs (r_ioc r))" "sl_state (r_slots r i) \<noteq> SubClosed"
    using in_active(2,5) [OF h active_of [OF assms(4)]] by simp_all
  then have ij: "i \<noteq> j" using assms(2) by auto
  have j: "sl_state (r_slots r j) \<noteq> SubClosed"
    using hushed_pop(2) [OF h assms(2)] by blast
  define r0 where "r0 = upd_slot j (\<lambda>s. s\<lparr>sl_user_closed := True\<rparr>) r"
  define r1 where "r1 = upd_slot j (\<lambda>s. s\<lparr>sl_state := SubClosed\<rparr>)
    (r0\<lparr>r_ioc := [EvUnsubAsync (sl_topic (r_slots r j))]\<rparr>)"
  have posted: "facade_destroy True j r = r0\<lparr>r_ioc := [EvSubscribe j, EvUnsubAsync (sl_topic (r_slots r j))]\<rparr>"
    using j assms(2) by (simp add: facade_destroy_def unsubscribe_request_def post_event_def r0_def Let_def upd_slot_def)
  have "loop_round c d (facade_destroy True j r) = Some (Inr r1)"
    using assms(3) unfolding posted
    by (simp add: loop_round_def handle_event_def handle_subscribe_def Let_def r1_def r0_def upd_slot_def)
  moreover have "map_of (r_active_subs (r1\<lparr>r_ioc := []\<rparr>)) (sl_topic (r_slots r j)) = Some i"
    using assms(4) by (simp add: r1_def r0_def)
  moreover have "loop_round c d r1 = Some (Inr (handle_unsub_async c (sl_topic (r_slots r j)) (r1\<lparr>r_ioc := []\<rparr>)))"
    using assms(3) by (simp add: loop_round_def handle_event_def r1_def r0_def upd_slot_def)
  ultimately show ?thesis using unsub_async_closes ij i(2) by blast
qed

definition to_duplicate :: "action list" where
  "to_duplicate = [SubscribeSafety, Round, SubscribeSafety]"

lemma sample_duplicate:
  "r_ioc (sampled to_duplicate) = [EvSubscribe 1] \<and> \<not> r_loop_done (sampled to_duplicate)
   \<and> map_of (r_active_subs (sampled to_duplicate)) (sl_topic (r_slots (sampled to_duplicate) 1)) = Some 0"
  by code_simp

theorem dropped_duplicate_ends_live_subscription_witness:
  "sl_state (r_slots (sampled to_duplicate) 0) \<noteq> SubClosed
   \<and> (\<exists>r1 r2. loop_round sample_ctx 1 (facade_destroy True 1 (sampled to_duplicate)) = Some (Inr r1)
        \<and> loop_round sample_ctx 1 r1 = Some (Inr r2) \<and> sl_state (r_slots r2 0) = SubClosed)"
  using dropped_duplicate_ends_live_subscription [OF fresh_reach [OF sampled_reach], of to_duplicate 1 0 1]
    sample_duplicate by blast

end
