(* ===== verification/WireCodes.thy ===== *)
theory WireCodes
  imports Codec
begin

text \<open>
  The error codes on the wire: which numbers the SDK understands, and which of them end a session for
  good, make it start again, or only fail a call.
\<close>

lemmas code_tables = map_sdk_error_code_def map_v1_error_code_def



end
