(* ===== verification/Spec2Isabelle.thy ===== *)
theory Spec2Isabelle
  imports HzWindow ExampleRuns DiagJson DiagSnapshot Resubscribe Heartbeat Stranded Handles WireCodes
begin

text \<open>
  A verification library for the Karo X2 SDK in C++: the client library a program uses to drive a robot
  over a WebSocket.

  The program. \<open>Robot\<close> (\<open>src/robot.cpp\<close>) is a shell around \<open>RobotImpl\<close> (\<open>src/robot_impl.cpp\<close>), which holds
  the connection state, the calls in flight, the subscriptions, the heartbeat, the reconnect timer and
  the counters. Four kinds of threads meet there. The user's threads run the front halves of the public
  methods: they check a few gates, post a handler to the control loop and, for a synchronous call, wait on
  a promise. One control thread runs \<open>control_ioc_\<close>, a queue of handlers; everything in \<open>RobotImpl\<close> but the
  gates happens there. One thread per \<open>WsClient\<close> (\<open>src/ws_client.cpp\<close>) talks to the server, and hands what
  it receives, and the end of the connection, to the control thread as posted handlers. One worker
  (\<open>src/dispatcher.cpp\<close>) runs the user's callbacks. Messages are coded by \<open>src/proto_codec.cpp\<close>; a snapshot
  of the counters is printed as JSON by \<open>src/diagnostics.cpp\<close>.

  How it is modelled. A thread that owns its data is a function of the state, and what the others do
  between two of its handlers is a step of a transition system:
  \<^item> \<open>Prelude\<close>: machine integers, the outcome of a handler (a state, or the crash it ends in), decimal
    printing, \<open>std::map\<close> and \<open>std::unordered_map\<close> under the contract \<open>keyed_store\<close>, and the locales of
    transition systems: \<open>inductive_invariant\<close> and \<open>fifo_channel\<close>. Two more contracts stand by their users:
    \<open>kept\<close> (\<open>RobotKeeps\<close>), that an invariant of the robot's core holds through every handler if it respects
    the few moves of the core, and \<open>demo_client\<close> (\<open>ExampleRuns\<close>), that a program next to its robot keeps its own.
  \<^item> \<open>Errors\<close>, \<open>Enums\<close>, \<open>Log\<close>, \<open>Diagnostics\<close>: the data of \<open>include/karo/sdk\<close> and of \<open>src/error.cpp\<close>,
    \<open>src/connection_state.cpp\<close>, \<open>src/subscription.cpp\<close>, \<open>src/log.cpp\<close>.
  \<^item> \<open>RateLimiter\<close>, \<open>Dispatcher\<close>, \<open>Rtt\<close>, \<open>Codec\<close>, \<open>WsClient\<close>, \<open>DiagJson\<close>: one component each, with its state,
    its operations and, for the dispatcher and the WebSocket client, its own transition system.
  \<^item> \<open>RobotState\<close> (the data of \<open>src/robot_impl.hpp\<close>), \<open>RobotCore\<close> (state changes, loss of the connection),
    \<open>RobotSubs\<close> and \<open>RobotAck\<close> (subscriptions), \<open>RobotRpc\<close> (handshake, heartbeat, replay of the emergency
    stop, completions), \<open>RobotCalls\<close> (connecting, closing, the synchronous calls), \<open>RobotLoop\<close> (inbound
    messages, the dispatch of the handlers, \<open>robot_step\<close>), \<open>RobotApi\<close> (\<open>src/robot.cpp\<close>).
  \<^item> \<open>Examples\<close>: the four programs under \<open>examples\<close>, each a function from its program point and the robot,
    run next to the robot (\<open>demo_step\<close>); their callbacks are what the dispatcher's worker has executed.

  What the theorems show, by groups.
  \<^item> The life cycle (this theory, on \<open>Session\<close>, \<open>RobotInv\<close>, \<open>RobotSteps\<close>, \<open>RobotReach\<close>, \<open>RobotLife\<close>): a robot
    is abstracted to its \<open>session\<close>, and every handler simulates a move of the session; so the states follow
    the graph of legal changes, the terminal ones absorb, and what may be in flight is known in each. \<open>Callbacks\<close>
    joins this with the dispatcher: what the state callback is told is a subsequence of what happened;
    \<open>InfoKnown\<close> with the facade: a client that has seen \<open>Ready\<close> finds the robot's description.
  \<^item> The clients (\<open>ExampleRuns\<close>): the sample programs never read an empty \<open>info()\<close>, and what their exit codes say
    of the answers the robot gave. \<open>DiagSnapshot\<close>: what \<open>GetDiagnostics\<close> reports, and the bound of the histograms.
  \<^item> The calls (\<open>CallClaims\<close>, on \<open>Ledger\<close>, \<open>Promises\<close>, \<open>PromiseCalls\<close>, \<open>PromiseLoop\<close>): a ledger of the promises
    a caller waits on; each is owed exactly once or answered once, no handler answers twice, and the ends
    of a connection answer everything.
  \<^item> Connecting (\<open>Connecting\<close>, \<open>Reconnect\<close>, \<open>Heartbeat\<close>, \<open>Stranded\<close>): a server that accepts makes the robot
    \<open>Ready\<close>, one that refuses makes it \<open>Fatal\<close> after the attempts allowed, a silent one is given up at the
    right deadline unless the heartbeat interval is shorter than the ping timeout, and a handshake that times out strands the robot.
  \<^item> Subscriptions (\<open>SubsFacts\<close>, \<open>HzWindow\<close>, \<open>SubsLife\<close>, \<open>SubsClaims\<close>, \<open>Handles\<close>, \<open>Resubscribe\<close>): the buffer
    before the acknowledgement, sequence numbers and gaps, the one-minute rate, the well-formedness of every
    slot, the silence of a closed one, and two ways in which the handles and the resubscription go wrong.
  \<^item> The components on their own, and the codes of the wire (\<open>WireCodes\<close>).

  Bounds and fuel. All loops of the code recurse structurally or on a measure. The one recursion of the
  code without a bound is that of the completion lambdas (a lambda may end the connection, which calls
  the lambdas): \<open>call_on_complete\<close> takes the depth of the stack that is left, and running out of it is the
  crash \<open>StackOverflow\<close>. The theorems hold for every depth; those that promise a result ask for one level,
  and \<open>losing_a_replay_overflows\<close> shows the one case in which no depth is enough. \<open>fresh_step\<close> restricts the
  steps to fewer than 2^64 - 1 requests, because an id that has wrapped to 0 reads as "none".

  What is a parameter. The protobuf library and the classes it generates (\<open>protobuf\<close>), OpenSSL's PEM and
  X.509 functions (\<open>ssl_lib\<close>, \<open>x509_lib\<close>), and what other threads and the network decide (\<open>ctx\<close>: the result
  of each connect, whether the WebSocket is open at each look, the random draws). The theorems hold for all
  of them, or name what they ask for (that a server refuses, that an encoding succeeds).

  Not modelled: the mutexes and atomics inside one step (each step is one critical section, or one read
  of an atomic); rounding, NaN and infinities of doubles, which are exact reals; exceptions thrown by the
  user's callbacks, which the code swallows; thread creation and joining beyond \<open>must_join\<close>; the wire format
  of protobuf and the \<open>.proto\<close> files; TLS, TCP and the framing of WebSockets in Boost.Beast, of which the
  results enter as events; what the sample programs print, and the build files.
\<close>

section \<open>The life cycle of a robot\<close>

text \<open>
  C1. Whatever the users, the robot, the network and the timers do, and in whatever order, the
  connection state moves along the edges of \<open>legal_change\<close> only, and the changes reported to the
  state callback form a path from \<open>Idle\<close> to the current state (as long as fewer than 2^64 - 1
  requests were sent).
\<close>

theorem lifecycle_is_legal:
  assumes "reach (robot_start c) (fresh_step c depth) r"
  shows "is_path CsIdle (r_history r) (r_state r)"
  using life_path life.reach_inv [OF assms] by blast

theorem lifecycle_is_legal_witness:
  "r_state (sampled to_ready) = CsReady \<and> is_path CsIdle (r_history (sampled to_ready)) (r_state (sampled to_ready))"
  using lifecycle_is_legal [OF sampled_reach, of to_ready] sample_ready by simp

text \<open>
  C4. \<open>Shutdown\<close> is final, and \<open>Fatal\<close> can be left for \<open>Shutdown\<close> only: no timer, message, lost
  connection or user call brings such a robot back.
\<close>

theorem terminal_states_absorb:
  assumes "reach (robot_start c) (fresh_step c depth) r" "(fresh_step c depth)\<^sup>*\<^sup>* r r'"
  shows "(r_state r = CsShutdown \<longrightarrow> r_state r' = CsShutdown)
    \<and> (r_state r = CsFatal \<longrightarrow> r_state r' \<in> {CsFatal, CsShutdown})"
proof -
  obtain qs where "is_path (r_state r) qs (r_state r')"
    using later_history [OF life.reach_inv [OF assms(1)] assms(2)] .
  then show ?thesis using is_path_from_terminal [of qs "r_state r'"] by auto
qed

theorem terminal_states_absorb_witness:
  "r_state (sampled to_closed) = CsShutdown
   \<and> r_state (run_script sample_ctx 3 [Connect, Round] (sampled to_closed)) = CsShutdown"
  using terminal_states_absorb [OF sampled_reach run_script_steps, of to_closed "[Connect, Round]"]
    sample_closed by simp

text \<open>
  C3. A handshake or the replay of an emergency stop is never in flight together with another call:
  \<open>Connecting\<close> holds at most the first handshake, \<open>Reconnecting\<close> at most one handshake or one replay,
  \<open>Ready\<close> only calls of the user and of the heartbeat, and in every other state nothing is in flight
  and there is no WebSocket.
\<close>

theorem one_lifecycle_call:
  assumes "reach (robot_start c) (fresh_step c depth) r"
  shows "inflight_ok (r_state r) (r_inflight r)
    \<and> (r_state r \<in> {CsIdle, CsTransientFailure, CsFatal, CsShutdown} \<longrightarrow> r_inflight r = [] \<and> r_ws r = None)"
  using life_parts(1,2) [OF life.reach_inv [OF assms]]
  by (cases "r_state r"; cases "r_ws r") (auto simp: inflight_ok_def)

theorem one_lifecycle_call_witness:
  "replaying (r_inflight (sampled to_replay)) \<and> inflight_ok CsReconnecting (r_inflight (sampled to_replay))"
  using one_lifecycle_call [OF sampled_reach, of to_replay] sample_replay by simp

text \<open>
  C2. A robot whose emergency stop has to be replayed after a reconnect does not become \<open>Ready\<close> before
  the replay is through: no \<open>Ready\<close> robot has a replay pending, and a replay in flight is one in
  \<open>Reconnecting\<close> that is still pending.
\<close>

theorem no_ready_before_estop_replay:
  assumes "reach (robot_start c) (fresh_step c depth) r"
  shows "(r_state r = CsReady \<longrightarrow> \<not> r_estop_pending r)
    \<and> (replaying (r_inflight r) \<longrightarrow> r_estop_pending r \<and> r_state r = CsReconnecting)"
proof -
  note inv = life.reach_inv [OF assms]
  have "replaying (r_inflight r) \<Longrightarrow> r_state r = CsReconnecting"
    using sess_ok_replaying [of "[]" r] inv by (auto simp: life_inv_def)
  then show ?thesis using life_parts(3,4) [OF inv] by blast
qed

theorem no_ready_before_estop_replay_witness:
  "r_estop_pending (sampled to_replay) \<and> r_state (sampled to_replay) = CsReconnecting"
  using no_ready_before_estop_replay [OF sampled_reach, of to_replay] sample_replay by simp

text \<open>
  C5. The connection is lost while the replay of an emergency stop is in flight: \<open>OnTransportClose\<close>
  completes the replay with an error, the replay's lambda calls \<open>OnTransportClose\<close>, the entry is still
  in the map, and so on; however large the stack is, the call overflows it.
\<close>

theorem losing_a_replay_overflows:
  assumes "reach (robot_start c) (fresh_step c depth) r" "replaying (r_inflight r)" "reason \<noteq> EcOk"
  shows "on_transport_close c (call_on_complete c stack) reason msg r = Inl StackOverflow"
proof -
  have ok: "sess_ok [] (session r)" using life.reach_inv [OF assms(1)] by (simp add: life_inv_def)
  show ?thesis using close_replaying [OF ok assms(2,3)] .
qed

theorem losing_a_replay_overflows_witness:
  "\<forall>stack. on_transport_close sample_ctx (call_on_complete sample_ctx stack) EcTransportFailure []
     (sampled to_replay) = Inl StackOverflow"
  using losing_a_replay_overflows [OF sampled_reach sample_replay(2)] by simp

end
